(* ===== verification/Prelude.thy ===== *)
theory Prelude
  imports Main "HOL-Library.Word"
begin

text \<open>
  What every theory of the development shares: the faults a C++ operation can end in, the state
  and fault passing composition of operations, C strings, narrowing of integers, decimal output of
  numbers and the collections of simplification rules.
\<close>

section \<open>Faults\<close>

text \<open>
  An operation of the program returns, throws, or runs into undefined behaviour. A thrown
  exception and undefined behaviour are both values of type \<open>fault\<close>, so that each of them is a
  branch of the model. \<open>RuntimeError\<close> is the exception of \<open>Errif\<close> and \<open>ThreadPool::Add\<close>;
  \<open>BadFunctionCall\<close> is what calling an empty \<open>std::function\<close> throws, \<open>BadWeakPtr\<close> what
  \<open>shared_from_this\<close> of an object no \<open>shared_ptr\<close> owns throws; \<open>InvalidArgument\<close> and
  \<open>OutOfRange\<close> are those of \<open>std::stoi\<close>.
\<close>

datatype ub =
    NullDeref
  | UseAfterFree
  | OutOfBounds
  | SignedOverflow
  | DivByZero
  | BadVlaSize
  | EmptyQueue

datatype fault =
    RuntimeError string
  | BadFunctionCall
  | BadWeakPtr
  | InvalidArgument
  | OutOfRange
  | Undefined ub

section \<open>Operations over a state\<close>

text \<open>
  \<open>('s, 'a) cpp\<close> is an operation over a state of type \<open>'s\<close> with a result of type \<open>'a\<close>. Its
  value at a state is \<open>None\<close> when the operation does not return (a loop that runs forever);
  otherwise it is the fault or the result, with the state reached: what was written before an
  exception stays written.
\<close>

type_synonym ('s, 'a) cpp = "'s \<Rightarrow> ((fault + 'a) \<times> 's) option"

named_theorems cpp_defs \<open>definitions of the basic operations\<close>
named_theorems frame_simps \<open>which fields an operation leaves alone\<close>

definition ret :: "'a \<Rightarrow> ('s, 'a) cpp" where
  [cpp_defs]: "ret x = (\<lambda>s. Some (Inr x, s))"

definition throw :: "fault \<Rightarrow> ('s, 'a) cpp" where
  [cpp_defs]: "throw e = (\<lambda>s. Some (Inl e, s))"

definition bindC :: "('s, 'a) cpp \<Rightarrow> ('a \<Rightarrow> ('s, 'b) cpp) \<Rightarrow> ('s, 'b) cpp" where
  "bindC m f = (\<lambda>s. case m s of
      None \<Rightarrow> None
    | Some (Inl e, t) \<Rightarrow> Some (Inl e, t)
    | Some (Inr x, t) \<Rightarrow> f x t)"

definition seqC :: "('s, unit) cpp \<Rightarrow> ('s, 'b) cpp \<Rightarrow> ('s, 'b) cpp" where
  "seqC m n = bindC m (\<lambda>_. n)"

definition gets :: "('s \<Rightarrow> 'a) \<Rightarrow> ('s, 'a) cpp" where
  [cpp_defs]: "gets f = (\<lambda>s. Some (Inr (f s), s))"

definition modify :: "('s \<Rightarrow> 's) \<Rightarrow> ('s, unit) cpp" where
  [cpp_defs]: "modify f = (\<lambda>s. Some (Inr (), f s))"

text \<open>A total operation given by its result and next state.\<close>

definition total :: "('s \<Rightarrow> 'a \<times> 's) \<Rightarrow> ('s, 'a) cpp" where
  [cpp_defs]: "total f = (\<lambda>s. case f s of (x, t) \<Rightarrow> Some (Inr x, t))"

text \<open>
  Unwinding: when \<open>m\<close> throws, \<open>clean\<close> runs (the destructors of what has been built) and the
  exception goes on. Undefined behaviour is not an exception and does not unwind.
\<close>

fun is_exception :: "fault \<Rightarrow> bool" where
  "is_exception (Undefined u) = False"
| "is_exception _ = True"

definition unwinding :: "('s, 'a) cpp \<Rightarrow> ('s, unit) cpp \<Rightarrow> ('s, 'a) cpp" where
  "unwinding m clean = (\<lambda>s. case m s of
      None \<Rightarrow> None
    | Some (Inr x, t) \<Rightarrow> Some (Inr x, t)
    | Some (Inl e, t) \<Rightarrow>
        if is_exception e then seqC clean (throw e) t else Some (Inl e, t))"

text \<open>A local object with a destructor: \<open>clean\<close> runs at the end of the scope, and on unwinding.\<close>

definition scoped :: "('s, unit) cpp \<Rightarrow> ('s, unit) cpp \<Rightarrow> ('s, unit) cpp" where
  "scoped m clean = seqC (unwinding m clean) clean"

text \<open>\<open>Errif\<close> of \<open>utilfunc.cpp\<close>.\<close>

definition Errif :: "bool \<Rightarrow> string \<Rightarrow> ('s, unit) cpp" where
  "Errif cond errmsg = (if cond then throw (RuntimeError errmsg) else ret ())"

subsection \<open>Rules for the composition\<close>

lemma bindC_at [simp]:
  "m s = None \<Longrightarrow> bindC m f s = None"
  "m s = Some (Inl e, t) \<Longrightarrow> bindC m f s = Some (Inl e, t)"
  "m s = Some (Inr x, t) \<Longrightarrow> bindC m f s = f x t"
  by (simp_all add: bindC_def)

lemma bindC_ret [simp]: "bindC (ret x) f = f x"
  by (rule ext) (simp add: ret_def)

lemma bindC_throw [simp]: "bindC (throw e) f = throw e"
  by (rule ext) (simp add: throw_def)

lemma seqC_at [simp]:
  "m s = None \<Longrightarrow> seqC m n s = None"
  "m s = Some (Inl e, t) \<Longrightarrow> seqC m n s = Some (Inl e, t)"
  "m s = Some (Inr (), t) \<Longrightarrow> seqC m n s = n t"
  by (simp_all add: seqC_def)

lemma basic_at [simp]:
  "ret x s = Some (Inr x, s)"
  "throw e s = Some (Inl e, s)"
  "gets g s = Some (Inr (g s), s)"
  "modify h s = Some (Inr (), h s)"
  by (simp_all add: cpp_defs)

lemma total_at [simp]: "f s = (x, t) \<Longrightarrow> total f s = Some (Inr x, t)"
  by (simp add: total_def)

lemma Errif_at [simp]:
  "cond \<Longrightarrow> Errif cond msg s = Some (Inl (RuntimeError msg), s)"
  "\<not> cond \<Longrightarrow> Errif cond msg s = Some (Inr (), s)"
  by (simp_all add: Errif_def)

lemma unwinding_at [simp]:
  "m s = None \<Longrightarrow> unwinding m clean s = None"
  "m s = Some (Inr x, t) \<Longrightarrow> unwinding m clean s = Some (Inr x, t)"
  "m s = Some (Inl e, t) \<Longrightarrow> is_exception e \<Longrightarrow> unwinding m clean s = seqC clean (throw e) t"
  "m s = Some (Inl e, t) \<Longrightarrow> \<not> is_exception e \<Longrightarrow> unwinding m clean s = Some (Inl e, t)"
  by (simp_all add: unwinding_def)

lemma scoped_at [simp]:
  "m s = Some (Inr (), t) \<Longrightarrow> scoped m clean s = clean t"
  "m s = Some (Inl e, t) \<Longrightarrow> \<not> is_exception e \<Longrightarrow> scoped m clean s = Some (Inl e, t)"
  by (simp_all add: scoped_def)

lemma bindC_assoc: "bindC (bindC m f) g = bindC m (\<lambda>x. bindC (f x) g)"
  by (rule ext) (auto simp: bindC_def split: option.splits sum.splits prod.splits)

text \<open>Inversion: how a composed operation can have returned or faulted.\<close>

lemma bindC_returns:
  "bindC m f s = Some (Inr y, u) \<longleftrightarrow>
     (\<exists>x t. m s = Some (Inr x, t) \<and> f x t = Some (Inr y, u))"
  by (auto simp: bindC_def split: option.splits sum.splits prod.splits)

lemma bindC_Some_cases:
  assumes "bindC m f s = Some (r, u)"
  obtains e where "m s = Some (Inl e, u)" "r = Inl e"
    | x t where "m s = Some (Inr x, t)" "f x t = Some (r, u)"
  using assms by (auto simp: bindC_def split: option.splits sum.splits prod.splits)

lemma seqC_returns:
  "seqC m n s = Some (Inr y, u) \<longleftrightarrow>
     (\<exists>t. m s = Some (Inr (), t) \<and> n t = Some (Inr y, u))"
  by (simp add: seqC_def bindC_returns)

lemma seqC_Some_cases:
  assumes "seqC m n s = Some (r, u)"
  obtains e where "m s = Some (Inl e, u)" "r = Inl e"
    | t where "m s = Some (Inr (), t)" "n t = Some (r, u)"
  using assms by (auto simp: seqC_def elim: bindC_Some_cases)

subsection \<open>Invariants of operations\<close>

text \<open>
  \<open>preserves P m\<close>: every way out of \<open>m\<close>, normal or by a fault, keeps \<open>P\<close>. The rules follow the
  structure of the operation; each component adds those of its own operations to the collection.
\<close>

definition preserves :: "('s \<Rightarrow> bool) \<Rightarrow> ('s, 'a) cpp \<Rightarrow> bool" where
  "preserves P m \<longleftrightarrow> (\<forall>s r t. P s \<longrightarrow> m s = Some (r, t) \<longrightarrow> P t)"

named_theorems preserving \<open>rules that follow the structure of an operation\<close>

lemma preservesI: "(\<And>s r t. P s \<Longrightarrow> m s = Some (r, t) \<Longrightarrow> P t) \<Longrightarrow> preserves P m"
  by (auto simp: preserves_def)

lemma preservesD: "preserves P m \<Longrightarrow> m s = Some (r, t) \<Longrightarrow> P s \<Longrightarrow> P t"
  by (auto simp: preserves_def)

lemma preserves_bindC [preserving]:
  assumes "preserves P m" and "\<And>x. preserves P (f x)"
  shows "preserves P (bindC m f)"
proof (rule preservesI)
  fix s r u
  assume "P s" and "bindC m f s = Some (r, u)"
  from this(2) show "P u"
    by (rule bindC_Some_cases) (use \<open>P s\<close> assms in \<open>blast dest: preservesD\<close>)+
qed

lemma preserves_seqC [preserving]:
  "preserves P m \<Longrightarrow> preserves P n \<Longrightarrow> preserves P (seqC m n)"
  by (simp add: seqC_def preserves_bindC)

lemma preserves_basic [preserving]:
  "preserves P (ret x)"
  "preserves P (throw e)"
  "preserves P (gets g)"
  "preserves P (Errif c msg)"
  by (auto simp: preserves_def Errif_def split: if_splits)

lemma preserves_if [preserving]:
  "(c \<Longrightarrow> preserves P m) \<Longrightarrow> (\<not> c \<Longrightarrow> preserves P n) \<Longrightarrow> preserves P (if c then m else n)"
  by simp

lemma preserves_unwinding [preserving]:
  assumes "preserves P m" and "preserves P clean"
  shows "preserves P (unwinding m clean)"
proof (rule preservesI)
  fix s r u
  assume P: "P s" and run: "unwinding m clean s = Some (r, u)"
  obtain x t where m: "m s = Some (x, t)"
    using run by (cases "m s") (auto simp: unwinding_def)
  with assms(1) P have "P t" by (blast dest: preservesD)
  then show "P u"
    using run m assms(2)
    by (cases x) (auto simp: unwinding_def split: if_splits elim!: seqC_Some_cases dest: preservesD)
qed

lemma preserves_scoped [preserving]:
  "preserves P m \<Longrightarrow> preserves P clean \<Longrightarrow> preserves P (scoped m clean)"
  by (simp add: scoped_def preserves_seqC preserves_unwinding)

lemma preserves_modify [preserving]: "(\<And>s. P s \<Longrightarrow> P (h s)) \<Longrightarrow> preserves P (modify h)"
  by (auto simp: preserves_def)

lemma preserves_total [preserving]:
  "(\<And>s x t. P s \<Longrightarrow> f s = (x, t) \<Longrightarrow> P t) \<Longrightarrow> preserves P (total f)"
  by (auto simp: preserves_def total_def split: prod.splits)

text \<open>
  \<open>triple P m Q E\<close>: from a state with \<open>P\<close>, a result \<open>x\<close> comes with \<open>Q x\<close> of the state reached,
  and a fault \<open>e\<close> with \<open>E e\<close>.
\<close>

definition triple ::
  "('s \<Rightarrow> bool) \<Rightarrow> ('s, 'a) cpp \<Rightarrow> ('a \<Rightarrow> 's \<Rightarrow> bool) \<Rightarrow> (fault \<Rightarrow> 's \<Rightarrow> bool) \<Rightarrow> bool" where
  "triple P m Q E \<longleftrightarrow>
     (\<forall>s r t. P s \<longrightarrow> m s = Some (r, t) \<longrightarrow> (case r of Inl e \<Rightarrow> E e t | Inr x \<Rightarrow> Q x t))"

lemma tripleI:
  assumes "\<And>s x t. P s \<Longrightarrow> m s = Some (Inr x, t) \<Longrightarrow> Q x t"
    and "\<And>s e t. P s \<Longrightarrow> m s = Some (Inl e, t) \<Longrightarrow> E e t"
  shows "triple P m Q E"
  using assms by (auto simp: triple_def split: sum.splits)

lemma tripleD:
  "triple P m Q E \<Longrightarrow> P s \<Longrightarrow> m s = Some (Inr x, t) \<Longrightarrow> Q x t"
  "triple P m Q E \<Longrightarrow> P s \<Longrightarrow> m s = Some (Inl e, t) \<Longrightarrow> E e t"
  by (force simp: triple_def)+

lemma triple_bindC:
  assumes "triple P m R E" and "\<And>x. triple (R x) (f x) Q E"
  shows "triple P (bindC m f) Q E"
  using assms by (auto intro!: tripleI elim!: bindC_Some_cases dest: tripleD)

lemma triple_seqC:
  assumes "triple P m (\<lambda>u. R) E" and "triple R n Q E"
  shows "triple P (seqC m n) Q E"
  unfolding seqC_def by (rule triple_bindC [OF assms(1)]) (rule assms(2))

lemma triple_ret: "(\<And>s. P s \<Longrightarrow> Q x s) \<Longrightarrow> triple P (ret x) Q E"
  by (simp add: triple_def)

lemma triple_throw: "(\<And>s. P s \<Longrightarrow> E e s) \<Longrightarrow> triple P (throw e) Q E"
  by (simp add: triple_def)

lemma triple_gets: "(\<And>s. P s \<Longrightarrow> Q (g s) s) \<Longrightarrow> triple P (gets g) Q E"
  by (simp add: triple_def)

lemma triple_modify: "(\<And>s. P s \<Longrightarrow> Q () (h s)) \<Longrightarrow> triple P (modify h) Q E"
  by (simp add: triple_def)

lemma triple_total:
  "(\<And>s x t. P s \<Longrightarrow> f s = (x, t) \<Longrightarrow> Q x t) \<Longrightarrow> triple P (total f) Q E"
  by (auto simp: triple_def total_def split: prod.splits)

lemma triple_Errif:
  "(\<And>s. P s \<Longrightarrow> cond \<Longrightarrow> E (RuntimeError msg) s) \<Longrightarrow> (\<And>s. P s \<Longrightarrow> \<not> cond \<Longrightarrow> Q () s) \<Longrightarrow>
   triple P (Errif cond msg) Q E"
  by (simp add: triple_def Errif_def)

lemma triple_if:
  "(c \<Longrightarrow> triple P m Q E) \<Longrightarrow> (\<not> c \<Longrightarrow> triple P n Q E) \<Longrightarrow> triple P (if c then m else n) Q E"
  by simp

lemma triple_pre: "triple P m Q E \<Longrightarrow> (\<And>s. P' s \<Longrightarrow> P s) \<Longrightarrow> triple P' m Q E"
  by (auto simp: triple_def)

lemma triple_post:
  "triple P m Q E \<Longrightarrow> (\<And>x s. Q x s \<Longrightarrow> Q' x s) \<Longrightarrow> (\<And>e s. E e s \<Longrightarrow> E' e s) \<Longrightarrow>
   triple P m Q' E'"
  by (force simp: triple_def split: sum.splits)

lemma triple_unwinding:
  fixes m :: "('s, 'a) cpp"
  assumes m: "triple P m Q F"
    and clean: "\<And>e. is_exception e \<Longrightarrow> triple (F e) clean (\<lambda>u. E e) E"
    and undef: "\<And>e s. \<not> is_exception e \<Longrightarrow> F e s \<Longrightarrow> E e s"
  shows "triple P (unwinding m clean) Q E"
proof (rule tripleI)
  fix s x t
  assume "P s" and "unwinding m clean s = Some (Inr x, t)"
  then show "Q x t"
    using m by (auto simp: unwinding_def split: option.splits sum.splits prod.splits if_splits
        elim!: seqC_Some_cases dest: tripleD)
next
  fix s e u
  assume P: "P s" and run: "unwinding m clean s = Some (Inl e, u)"
  then obtain e' t where mt: "m s = Some (Inl e', t)"
    by (auto simp: unwinding_def split: option.splits sum.splits prod.splits)
  with P m have F: "F e' t" by (blast dest: tripleD)
  show "E e u"
  proof (cases "is_exception e'")
    case True
    with run mt have "seqC clean (throw e') t = (Some (Inl e, u) :: ((fault + 'a) \<times> 's) option)"
      by simp
    then show ?thesis
      by (rule seqC_Some_cases) (use F clean [OF True] in \<open>auto dest: tripleD\<close>)
  next
    case False
    with run mt F undef show ?thesis by auto
  qed
qed

lemma triple_scoped:
  assumes "triple P m (\<lambda>u. R) F"
    and "\<And>e. is_exception e \<Longrightarrow> triple (F e) clean (\<lambda>u. E e) E"
    and "\<And>e s. \<not> is_exception e \<Longrightarrow> F e s \<Longrightarrow> E e s"
    and "triple R clean Q E"
  shows "triple P (scoped m clean) Q E"
  unfolding scoped_def
  by (rule triple_seqC [OF triple_unwinding [OF assms(1-3)] assms(4)])

section \<open>C strings\<close>

text \<open>
  A \<open>const char*\<close> is the list of the bytes from where it points to the end of its array. The
  string it denotes ends before the first NUL; reading one from an array without a NUL runs out of
  the array.
\<close>

type_synonym cptr = string

abbreviation NUL :: char where
  "NUL \<equiv> CHR 0x00"

abbreviation CR :: char where
  "CR \<equiv> CHR 0x0D"

abbreviation LF :: char where
  "LF \<equiv> CHR 0x0A"

definition before_nul :: "string \<Rightarrow> string" where
  "before_nul = takeWhile (\<lambda>c. c \<noteq> NUL)"

definition nul_free :: "string \<Rightarrow> bool" where
  "nul_free s \<longleftrightarrow> NUL \<notin> set s"

definition read_cstr :: "cptr \<Rightarrow> fault + string" where
  "read_cstr p = (if NUL \<in> set p then Inr (before_nul p) else Inl (Undefined OutOfBounds))"

lemma before_nul_simps [simp]:
  "before_nul [] = []"
  "before_nul (c # cs) = (if c = NUL then [] else c # before_nul cs)"
  by (simp_all add: before_nul_def)

lemma nul_free_simps [simp]:
  "nul_free []"
  "nul_free (c # cs) \<longleftrightarrow> c \<noteq> NUL \<and> nul_free cs"
  "nul_free (xs @ ys) \<longleftrightarrow> nul_free xs \<and> nul_free ys"
  by (auto simp: nul_free_def)

lemma before_nul_id [simp]: "nul_free s \<Longrightarrow> before_nul s = s"
  by (induction s) auto

lemma before_nul_append [simp]:
  "nul_free s \<Longrightarrow> before_nul (s @ t) = s @ before_nul t"
  by (induction s) auto

lemma before_nul_append_NUL [simp]: "before_nul (s @ NUL # t) = before_nul s"
  by (induction s) auto

lemma nul_free_before_nul [simp]: "nul_free (before_nul s)"
  by (induction s) auto

lemma before_nul_idem: "before_nul (before_nul s) = before_nul s"
  by simp

lemma length_before_nul: "length (before_nul s) \<le> length s"
  by (simp add: before_nul_def length_takeWhile_le)

lemma read_cstr_terminated [simp]: "read_cstr (s @ [NUL]) = Inr (before_nul s)"
  by (simp add: read_cstr_def)

lemma read_cstr_nul_free: "nul_free p \<Longrightarrow> read_cstr p = Inl (Undefined OutOfBounds)"
  by (simp add: read_cstr_def nul_free_def)

section \<open>Narrowing to 32 bits\<close>

text \<open>What storing a \<open>ssize_t\<close> in an \<open>int\<close> keeps of it.\<close>

definition to_int32 :: "int \<Rightarrow> int" where
  "to_int32 i = signed_take_bit 31 i"

lemma to_int32_id: "- (2 ^ 31) \<le> i \<Longrightarrow> i < 2 ^ 31 \<Longrightarrow> to_int32 i = i"
  by (simp add: to_int32_def signed_take_bit_int_eq_self)

lemma to_int32_of_nat: "n < 2 ^ 31 \<Longrightarrow> to_int32 (int n) = int n"
  by (rule to_int32_id) simp_all

lemma to_int32_bounds: "- (2 ^ 31) \<le> to_int32 i \<and> to_int32 i < 2 ^ 31"
  using signed_take_bit_int_greater_eq_minus_exp [of 31 i] signed_take_bit_int_less_exp [of 31 i]
  by (simp add: to_int32_def)

section \<open>Decimal numbers\<close>

text \<open>What \<open>operator<<\<close> writes for an integer.\<close>

definition digit :: "nat \<Rightarrow> char" where
  "digit d = char_of (48 + d)"

fun show_nat :: "nat \<Rightarrow> string" where
  "show_nat n = (if n < 10 then [digit n] else show_nat (n div 10) @ [digit (n mod 10)])"

declare show_nat.simps [simp del]

definition show_int :: "int \<Rightarrow> string" where
  "show_int i = (if i < 0 then CHR ''-'' # show_nat (nat (- i)) else show_nat (nat i))"

definition is_digit :: "char \<Rightarrow> bool" where
  "is_digit c \<longleftrightarrow> 48 \<le> (of_char c :: nat) \<and> (of_char c :: nat) \<le> 57"

definition digit_value :: "char \<Rightarrow> nat" where
  "digit_value c = of_char c - 48"

definition read_nat :: "string \<Rightarrow> nat" where
  "read_nat s = foldl (\<lambda>n c. 10 * n + digit_value c) 0 s"

lemma of_char_digit: "d < 10 \<Longrightarrow> (of_char (digit d) :: nat) = 48 + d"
  by (simp add: digit_def)

lemma is_digit_digit [simp]: "d < 10 \<Longrightarrow> is_digit (digit d)"
  by (simp add: is_digit_def of_char_digit)

lemma digit_value_digit [simp]: "d < 10 \<Longrightarrow> digit_value (digit d) = d"
  by (simp add: digit_value_def of_char_digit)

lemma show_nat_digits: "c \<in> set (show_nat n) \<Longrightarrow> is_digit c"
proof (induction n arbitrary: c rule: show_nat.induct)
  case (1 n)
  then show ?case
    by (cases "n < 10") (auto simp: show_nat.simps [of n])
qed

lemma show_nat_nonempty [simp]: "show_nat n \<noteq> []"
  by (subst show_nat.simps) simp

lemma read_nat_snoc: "read_nat (s @ [c]) = 10 * read_nat s + digit_value c"
  by (simp add: read_nat_def)

lemma read_show_nat [simp]: "read_nat (show_nat n) = n"
proof (induction n rule: show_nat.induct)
  case (1 n)
  show ?case
  proof (cases "n < 10")
    case True
    then show ?thesis by (simp add: show_nat.simps [of n] read_nat_def)
  next
    case False
    with 1 show ?thesis
      by (simp add: show_nat.simps [of n] read_nat_snoc)
  qed
qed

lemma is_digit_not [simp]:
  "is_digit c \<Longrightarrow> c \<noteq> NUL"
  "is_digit c \<Longrightarrow> c \<noteq> CR"
  "is_digit c \<Longrightarrow> c \<noteq> LF"
  by (auto simp: is_digit_def)

lemma nul_free_show_nat [simp]: "nul_free (show_nat n)"
  using show_nat_digits [of NUL n] by (auto simp: nul_free_def is_digit_def)

lemma nul_free_show_int [simp]: "nul_free (show_int i)"
  by (simp add: show_int_def)

end
