(* ===== verification/Syscalls.thy ===== *)
theory Syscalls
  imports Prelude
begin

text \<open>
  The operating system, as the program sees it. The kernel is not code of the repository: it is a
  parameter \<open>os\<close> (a record of functions on an abstract kernel state \<open>'k\<close>) of every operation that
  makes a system call. Results are those of the C wrappers: \<open>SysErr e\<close> is the return value -1
  with \<open>errno = e\<close>. The record \<open>world\<close> holds the kernel state, what went to \<open>std::cout\<close>, and,
  as a ghost field, the system calls made so far with their results, oldest first.
\<close>

section \<open>Results and structures\<close>

datatype errno = EINTR | EAGAIN | EWOULDBLOCK | EINPROGRESS | EOTHER nat

datatype 'a sysres = SysOk 'a | SysErr errno

record sockaddr_in =
  sin_family :: "16 word"
  sin_port :: "16 word"
  s_addr :: "32 word"

datatype ctl_op = EPOLL_CTL_ADD | EPOLL_CTL_MOD

record epoll_event =
  ev_events :: "32 word"
  ev_ptr :: nat

record 'k os =
  sys_socket :: "'k \<Rightarrow> int sysres \<times> 'k"
  sys_close :: "int \<Rightarrow> 'k \<Rightarrow> 'k"
  sys_bind :: "int \<Rightarrow> sockaddr_in \<Rightarrow> 32 word \<Rightarrow> 'k \<Rightarrow> unit sysres \<times> 'k"
  sys_listen :: "int \<Rightarrow> 'k \<Rightarrow> unit sysres \<times> 'k"
  sys_accept :: "int \<Rightarrow> 'k \<Rightarrow> (int \<times> sockaddr_in \<times> 32 word) sysres \<times> 'k"
  sys_connect :: "int \<Rightarrow> sockaddr_in \<Rightarrow> 'k \<Rightarrow> unit sysres \<times> 'k"
  sys_getfl :: "int \<Rightarrow> 'k \<Rightarrow> 32 word"
  sys_setfl :: "int \<Rightarrow> 32 word \<Rightarrow> 'k \<Rightarrow> 'k"
  sys_rcvbuf :: "int \<Rightarrow> 'k \<Rightarrow> nat"
  sys_read :: "int \<Rightarrow> nat \<Rightarrow> 'k \<Rightarrow> string sysres \<times> 'k"
  sys_write :: "int \<Rightarrow> string \<Rightarrow> 'k \<Rightarrow> nat sysres \<times> 'k"
  sys_epoll_create :: "'k \<Rightarrow> int sysres \<times> 'k"
  sys_epoll_ctl :: "int \<Rightarrow> ctl_op \<Rightarrow> int \<Rightarrow> epoll_event \<Rightarrow> 'k \<Rightarrow> unit sysres \<times> 'k"
  sys_epoll_wait :: "int \<Rightarrow> nat \<Rightarrow> int \<Rightarrow> 'k \<Rightarrow> epoll_event list sysres \<times> 'k"

datatype syscall =
    CSocket "int sysres"
  | CClose int
  | CBind int sockaddr_in "unit sysres"
  | CListen int "unit sysres"
  | CAccept int "(int \<times> sockaddr_in \<times> 32 word) sysres"
  | CConnect int sockaddr_in "unit sysres"
  | CSetfl int "32 word"
  | CRead int nat "string sysres"
  | CWrite int string "nat sysres"
  | CEpollCreate "int sysres"
  | CEpollCtl int ctl_op int epoll_event "unit sysres"
  | CEpollWait int nat int "epoll_event list sysres"

record 'k world =
  kern :: 'k
  cout :: string
  calls :: "syscall list"

section \<open>Making a call\<close>

definition syscall ::
  "('k \<Rightarrow> 'r \<times> 'k) \<Rightarrow> ('r \<Rightarrow> syscall) \<Rightarrow> ('k, 'z) world_scheme \<Rightarrow> 'r \<times> ('k, 'z) world_scheme" where
  "syscall f tag w =
     (case f (kern w) of (r, k) \<Rightarrow> (r, w\<lparr>kern := k, calls := calls w @ [tag r]\<rparr>))"

definition do_socket :: "'k os \<Rightarrow> ('k, 'z) world_scheme \<Rightarrow> int sysres \<times> ('k, 'z) world_scheme" where
  "do_socket os = syscall (sys_socket os) CSocket"

definition do_close :: "'k os \<Rightarrow> int \<Rightarrow> ('k, 'z) world_scheme \<Rightarrow> ('k, 'z) world_scheme" where
  "do_close os fd w =
     w\<lparr>kern := sys_close os fd (kern w), calls := calls w @ [CClose fd]\<rparr>"

definition do_bind :: "'k os \<Rightarrow> int \<Rightarrow> sockaddr_in \<Rightarrow> 32 word \<Rightarrow>
    ('k, 'z) world_scheme \<Rightarrow> unit sysres \<times> ('k, 'z) world_scheme" where
  "do_bind os fd a len = syscall (sys_bind os fd a len) (CBind fd a)"

definition do_listen :: "'k os \<Rightarrow> int \<Rightarrow> ('k, 'z) world_scheme \<Rightarrow>
    unit sysres \<times> ('k, 'z) world_scheme" where
  "do_listen os fd = syscall (sys_listen os fd) (CListen fd)"

definition do_accept :: "'k os \<Rightarrow> int \<Rightarrow> ('k, 'z) world_scheme \<Rightarrow>
    (int \<times> sockaddr_in \<times> 32 word) sysres \<times> ('k, 'z) world_scheme" where
  "do_accept os fd = syscall (sys_accept os fd) (CAccept fd)"

definition do_connect :: "'k os \<Rightarrow> int \<Rightarrow> sockaddr_in \<Rightarrow> ('k, 'z) world_scheme \<Rightarrow>
    unit sysres \<times> ('k, 'z) world_scheme" where
  "do_connect os fd a = syscall (sys_connect os fd a) (CConnect fd a)"

definition do_setfl :: "'k os \<Rightarrow> int \<Rightarrow> 32 word \<Rightarrow> ('k, 'z) world_scheme \<Rightarrow>
    ('k, 'z) world_scheme" where
  "do_setfl os fd fl w =
     w\<lparr>kern := sys_setfl os fd fl (kern w), calls := calls w @ [CSetfl fd fl]\<rparr>"

definition do_read :: "'k os \<Rightarrow> int \<Rightarrow> nat \<Rightarrow> ('k, 'z) world_scheme \<Rightarrow>
    string sysres \<times> ('k, 'z) world_scheme" where
  "do_read os fd n = syscall (sys_read os fd n) (CRead fd n)"

definition do_write :: "'k os \<Rightarrow> int \<Rightarrow> string \<Rightarrow> ('k, 'z) world_scheme \<Rightarrow>
    nat sysres \<times> ('k, 'z) world_scheme" where
  "do_write os fd bs = syscall (sys_write os fd bs) (CWrite fd bs)"

definition do_epoll_create :: "'k os \<Rightarrow> ('k, 'z) world_scheme \<Rightarrow>
    int sysres \<times> ('k, 'z) world_scheme" where
  "do_epoll_create os = syscall (sys_epoll_create os) CEpollCreate"

definition do_epoll_ctl :: "'k os \<Rightarrow> int \<Rightarrow> ctl_op \<Rightarrow> int \<Rightarrow> epoll_event \<Rightarrow>
    ('k, 'z) world_scheme \<Rightarrow> unit sysres \<times> ('k, 'z) world_scheme" where
  "do_epoll_ctl os ep op fd ev = syscall (sys_epoll_ctl os ep op fd ev) (CEpollCtl ep op fd ev)"

definition do_epoll_wait :: "'k os \<Rightarrow> int \<Rightarrow> nat \<Rightarrow> int \<Rightarrow> ('k, 'z) world_scheme \<Rightarrow>
    epoll_event list sysres \<times> ('k, 'z) world_scheme" where
  "do_epoll_wait os ep n timeout =
     syscall (sys_epoll_wait os ep n timeout) (CEpollWait ep n timeout)"

definition print_out :: "string \<Rightarrow> ('k, 'z) world_scheme \<Rightarrow> ('k, 'z) world_scheme" where
  "print_out s w = w\<lparr>cout := cout w @ s\<rparr>"

lemmas do_defs = do_socket_def do_bind_def do_listen_def do_accept_def do_connect_def
  do_read_def do_write_def do_epoll_create_def do_epoll_ctl_def do_epoll_wait_def syscall_def

subsection \<open>What a call leaves alone\<close>

lemma syscall_frame:
  "syscall f tag w = (r, w') \<Longrightarrow> cout w' = cout w"
  "syscall f tag w = (r, w') \<Longrightarrow> calls w' = calls w @ [tag r]"
  "syscall f tag w = (r, w') \<Longrightarrow> world.more w' = world.more w"
  "syscall f tag w = (r, w') \<Longrightarrow> f (kern w) = (r, kern w')"
  by (auto simp: syscall_def split: prod.splits)

lemma print_out_frame [simp]:
  "kern (print_out s w) = kern w"
  "calls (print_out s w) = calls w"
  "cout (print_out s w) = cout w @ s"
  "world.more (print_out s w) = world.more w"
  by (simp_all add: print_out_def)

lemma do_close_frame [simp]:
  "cout (do_close os fd w) = cout w"
  "calls (do_close os fd w) = calls w @ [CClose fd]"
  "kern (do_close os fd w) = sys_close os fd (kern w)"
  "world.more (do_close os fd w) = world.more w"
  by (simp_all add: do_close_def)

lemma do_setfl_frame [simp]:
  "cout (do_setfl os fd fl w) = cout w"
  "calls (do_setfl os fd fl w) = calls w @ [CSetfl fd fl]"
  "world.more (do_setfl os fd fl w) = world.more w"
  by (simp_all add: do_setfl_def)

section \<open>The bytes a sequence of calls moved\<close>

text \<open>
  What a stretch of the ghost trace received from and sent to the socket \<open>fd\<close>: the chunks
  returned by \<open>read\<close>, and the prefixes accepted by \<open>write\<close>.
\<close>

fun chunks_read :: "int \<Rightarrow> syscall list \<Rightarrow> string list" where
  "chunks_read fd [] = []"
| "chunks_read fd (CRead fd' n (SysOk bs) # cs) =
     (if fd' = fd then bs # chunks_read fd cs else chunks_read fd cs)"
| "chunks_read fd (c # cs) = chunks_read fd cs"

fun bytes_written :: "int \<Rightarrow> syscall list \<Rightarrow> string" where
  "bytes_written fd [] = []"
| "bytes_written fd (CWrite fd' bs (SysOk n) # cs) =
     (if fd' = fd then take n bs @ bytes_written fd cs else bytes_written fd cs)"
| "bytes_written fd (c # cs) = bytes_written fd cs"

lemma chunks_read_append [simp]:
  "chunks_read fd (xs @ ys) = chunks_read fd xs @ chunks_read fd ys"
  by (induction fd xs rule: chunks_read.induct) auto

lemma bytes_written_append [simp]:
  "bytes_written fd (xs @ ys) = bytes_written fd xs @ bytes_written fd ys"
  by (induction fd xs rule: bytes_written.induct) auto

section \<open>Documented behaviour of read and write\<close>

text \<open>
  \<open>read(fd, buf, n)\<close> returns at most \<open>n\<close> bytes, and \<open>write(fd, buf, n)\<close> accepts at most \<open>n\<close>.
\<close>

definition read_bounded :: "'k os \<Rightarrow> bool" where
  "read_bounded os \<longleftrightarrow>
     (\<forall>fd n k bs k'. sys_read os fd n k = (SysOk bs, k') \<longrightarrow> length bs \<le> n)"

definition write_bounded :: "'k os \<Rightarrow> bool" where
  "write_bounded os \<longleftrightarrow>
     (\<forall>fd bs k n k'. sys_write os fd bs k = (SysOk n, k') \<longrightarrow> n \<le> length bs)"

lemma do_read_bounded:
  "read_bounded os \<Longrightarrow> do_read os fd n w = (SysOk bs, w') \<Longrightarrow> length bs \<le> n"
  unfolding do_read_def read_bounded_def by (blast dest: syscall_frame(4))

lemma do_write_bounded:
  "write_bounded os \<Longrightarrow> do_write os fd bs w = (SysOk n, w') \<Longrightarrow> n \<le> length bs"
  unfolding do_write_def write_bounded_def by (blast dest: syscall_frame(4))

end
