(* ===== verification/Channel.thy ===== *)
theory Channel
  imports Syscalls
begin

text \<open>
  \<open>Channel\<close> (\<open>channel.h\<close>, \<open>channel.cpp\<close>) and the heap of the reactor. Channels are reached through
  raw pointers (the kernel hands them back in \<open>epoll_event.data.ptr\<close>), so they live in a heap
  \<open>channels\<close> indexed by addresses that are never used twice; following a pointer to a channel
  that has been destroyed is the fault \<open>UseAfterFree\<close>. The callbacks of the program are the two
  \<open>std::bind\<close> expressions that reach \<open>SetReadCallBack\<close>, as data; what they run is a parameter
  \<open>run\<close> of the operations that call them, instantiated by the server.
\<close>

unbundle bit_operations_syntax

section \<open>Epoll flags\<close>

definition EPOLLIN :: "32 word" where "EPOLLIN = 0x001"
definition EPOLLPRI :: "32 word" where "EPOLLPRI = 0x002"
definition EPOLLOUT :: "32 word" where "EPOLLOUT = 0x004"
definition EPOLLERR :: "32 word" where "EPOLLERR = 0x008"
definition EPOLLHUP :: "32 word" where "EPOLLHUP = 0x010"
definition EPOLLET :: "32 word" where "EPOLLET = 0x80000000"

lemmas epoll_flag_defs = EPOLLIN_def EPOLLPRI_def EPOLLOUT_def EPOLLERR_def EPOLLHUP_def EPOLLET_def

section \<open>State\<close>

datatype callback = AcceptConnectionCb | BusinessLogicCb nat

record channel =
  ch_loop :: nat
  ch_fd :: int
  listen_events :: "32 word"
  ready_events :: "32 word"
  in_epoll :: bool
  read_callback :: "callback option"
  write_callback :: "callback option"

record event_loop =
  epfd :: int
  el_quit :: bool

record 'k reactor = "'k world" +
  event_loops :: "nat \<rightharpoonup> event_loop"
  channels :: "nat \<rightharpoonup> channel"
  next_ptr :: nat

text \<open>Following a pointer, and writing through it.\<close>

definition the_channel :: "nat \<Rightarrow> (('k, 'z) reactor_scheme, channel) cpp" where
  "the_channel p = (\<lambda>s. case channels s p of
      None \<Rightarrow> Some (Inl (Undefined UseAfterFree), s)
    | Some ch \<Rightarrow> Some (Inr ch, s))"

definition set_channel :: "nat \<Rightarrow> (channel \<Rightarrow> channel) \<Rightarrow> (('k, 'z) reactor_scheme, unit) cpp" where
  "set_channel p f = (\<lambda>s. case channels s p of
      None \<Rightarrow> Some (Inl (Undefined UseAfterFree), s)
    | Some ch \<Rightarrow> Some (Inr (), s\<lparr>channels := (channels s)(p \<mapsto> f ch)\<rparr>))"

section \<open>Operations\<close>

definition Channel_init :: "nat \<Rightarrow> int \<Rightarrow> channel" where
  "Channel_init el fd = \<lparr>ch_loop = el, ch_fd = fd, listen_events = 0, ready_events = 0,
     in_epoll = False, read_callback = None, write_callback = None\<rparr>"

definition new_Channel :: "nat \<Rightarrow> int \<Rightarrow> (('k, 'z) reactor_scheme, nat) cpp" where
  "new_Channel el fd = (\<lambda>s. Some (Inr (next_ptr s),
     s\<lparr>channels := (channels s)(next_ptr s \<mapsto> Channel_init el fd),
       next_ptr := Suc (next_ptr s)\<rparr>))"

text \<open>The destructor, and the end of the object's lifetime.\<close>

definition delete_Channel :: "'k os \<Rightarrow> nat \<Rightarrow> (('k, 'z) reactor_scheme, unit) cpp" where
  "delete_Channel os p =
     bindC (the_channel p) (\<lambda>ch.
     seqC (if ch_fd ch \<noteq> -1 then modify (do_close os (ch_fd ch)) else ret ())
          (modify (\<lambda>s. s\<lparr>channels := (channels s)(p := None)\<rparr>)))"

definition Channel_GetFd :: "channel \<Rightarrow> int" where "Channel_GetFd ch = ch_fd ch"
definition Channel_GetListenEvents :: "channel \<Rightarrow> 32 word" where
  "Channel_GetListenEvents ch = listen_events ch"
definition Channel_GetReadyEvents :: "channel \<Rightarrow> 32 word" where
  "Channel_GetReadyEvents ch = ready_events ch"
definition Channel_InEpoll :: "channel \<Rightarrow> bool" where "Channel_InEpoll ch = in_epoll ch"

lemmas channel_getters [simp] = Channel_GetFd_def Channel_GetListenEvents_def
  Channel_GetReadyEvents_def Channel_InEpoll_def

definition Channel_SetReadyEvents :: "nat \<Rightarrow> 32 word \<Rightarrow> (('k, 'z) reactor_scheme, unit) cpp" where
  "Channel_SetReadyEvents p ev = set_channel p (\<lambda>ch. ch\<lparr>ready_events := ev\<rparr>)"

definition Channel_SetInEpoll :: "nat \<Rightarrow> bool \<Rightarrow> (('k, 'z) reactor_scheme, unit) cpp" where
  "Channel_SetInEpoll p b = set_channel p (\<lambda>ch. ch\<lparr>in_epoll := b\<rparr>)"

definition Channel_SetReadCallBack ::
  "nat \<Rightarrow> callback option \<Rightarrow> (('k, 'z) reactor_scheme, unit) cpp" where
  "Channel_SetReadCallBack p func = set_channel p (\<lambda>ch. ch\<lparr>read_callback := func\<rparr>)"

text \<open>Calling a \<open>std::function\<close>: an empty one throws.\<close>

definition call_back ::
  "(callback \<Rightarrow> ('s, unit) cpp) \<Rightarrow> callback option \<Rightarrow> ('s, unit) cpp" where
  "call_back run func = (case func of None \<Rightarrow> throw BadFunctionCall | Some cb \<Rightarrow> run cb)"

text \<open>
  \<open>HandleEvent\<close> reads \<open>ready_events_\<close> of the channel twice: the second time after the read callback
  has run.
\<close>

definition Channel_HandleEvent ::
  "(callback \<Rightarrow> (('k, 'z) reactor_scheme, unit) cpp) \<Rightarrow> nat \<Rightarrow>
   (('k, 'z) reactor_scheme, unit) cpp" where
  "Channel_HandleEvent run p =
     bindC (the_channel p) (\<lambda>ch.
     seqC (if ready_events ch AND (EPOLLIN OR EPOLLPRI) \<noteq> 0
           then call_back run (read_callback ch) else ret ())
    (bindC (the_channel p) (\<lambda>ch'.
     if ready_events ch' AND EPOLLOUT \<noteq> 0
     then call_back run (write_callback ch') else ret ())))"

section \<open>Lemmas\<close>

lemma the_channel_at [simp]:
  "channels s p = None \<Longrightarrow> the_channel p s = Some (Inl (Undefined UseAfterFree), s)"
  "channels s p = Some ch \<Longrightarrow> the_channel p s = Some (Inr ch, s)"
  by (simp_all add: the_channel_def)

lemma set_channel_at [simp]:
  "channels s p = None \<Longrightarrow> set_channel p f s = Some (Inl (Undefined UseAfterFree), s)"
  "channels s p = Some ch \<Longrightarrow>
     set_channel p f s = Some (Inr (), s\<lparr>channels := (channels s)(p \<mapsto> f ch)\<rparr>)"
  by (simp_all add: set_channel_def)

lemma do_close_reactor_frame [simp]:
  "channels (do_close os fd s) = channels s"
  "event_loops (do_close os fd s) = event_loops s"
  "next_ptr (do_close os fd s) = next_ptr s"
  by (simp_all add: do_close_def)

lemma print_out_reactor_frame [simp]:
  "channels (print_out m s) = channels s"
  "event_loops (print_out m s) = event_loops s"
  "next_ptr (print_out m s) = next_ptr s"
  by (simp_all add: print_out_def)

lemma do_setfl_reactor_frame [simp]:
  "channels (do_setfl os fd fl s) = channels s"
  "event_loops (do_setfl os fd fl s) = event_loops s"
  "next_ptr (do_setfl os fd fl s) = next_ptr s"
  by (simp_all add: do_setfl_def)

lemma syscall_reactor_frame:
  "syscall f tag s = (r, s') \<Longrightarrow> channels s' = channels s"
  "syscall f tag s = (r, s') \<Longrightarrow> event_loops s' = event_loops s"
  "syscall f tag s = (r, s') \<Longrightarrow> next_ptr s' = next_ptr s"
  by (auto simp: syscall_def split: prod.splits)

lemma preserves_the_channel [preserving]: "preserves P (the_channel p)"
  by (auto simp: preserves_def the_channel_def split: option.splits)

lemma preserves_set_channel:
  "(\<And>s ch. P s \<Longrightarrow> channels s p = Some ch \<Longrightarrow> P (s\<lparr>channels := (channels s)(p \<mapsto> f ch)\<rparr>)) \<Longrightarrow>
   preserves P (set_channel p f)"
  by (auto simp: preserves_def set_channel_def split: option.splits)

lemma preserves_call_back [preserving]:
  "(\<And>cb. preserves P (run cb)) \<Longrightarrow> preserves P (call_back run func)"
  by (auto simp: call_back_def preserves_basic split: option.splits)

lemma preserves_HandleEvent [preserving]:
  "(\<And>cb. preserves P (run cb)) \<Longrightarrow> preserves P (Channel_HandleEvent run p)"
  unfolding Channel_HandleEvent_def by (intro preserving)

text \<open>Which callback a set of ready events runs, when the callbacks leave the channel alive.\<close>

lemma HandleEvent_idle:
  assumes "channels s p = Some ch"
    and "ready_events ch AND (EPOLLIN OR EPOLLPRI) = 0" and "ready_events ch AND EPOLLOUT = 0"
  shows "Channel_HandleEvent run p s = Some (Inr (), s)"
  using assms by (simp add: Channel_HandleEvent_def)

lemma HandleEvent_read_freed:
  assumes "channels s p = Some ch"
    and "ready_events ch AND (EPOLLIN OR EPOLLPRI) \<noteq> 0"
    and "read_callback ch = Some cb"
    and "run cb s = Some (Inr (), t)"
    and "channels t p = None"
  shows "Channel_HandleEvent run p s = Some (Inl (Undefined UseAfterFree), t)"
  using assms by (simp add: Channel_HandleEvent_def call_back_def)

lemma HandleEvent_read:
  assumes "channels s p = Some ch"
    and "ready_events ch AND (EPOLLIN OR EPOLLPRI) \<noteq> 0"
    and "read_callback ch = Some cb"
    and "run cb s = Some (Inr (), t)"
    and "channels t p = Some ch'" and "ready_events ch' AND EPOLLOUT = 0"
  shows "Channel_HandleEvent run p s = Some (Inr (), t)"
  using assms by (simp add: Channel_HandleEvent_def call_back_def)

end
