(* ===== verification/Epoll.thy ===== *)
theory Epoll
  imports Channel
begin

text \<open>
  \<open>Epoll\<close> (\<open>epoll_class.h\<close>, \<open>epoll_class.cpp\<close>): creating the epoll instance, adding or modifying
  the registration of a channel, and turning the events of \<open>epoll_wait\<close> into ready channels.
\<close>

definition MAX_EVENTS :: nat where "MAX_EVENTS = 1000"

fun is_err :: "'a sysres \<Rightarrow> bool" where
  "is_err (SysOk x) = False"
| "is_err (SysErr e) = True"

text \<open>The constructor returns the file descriptor; the array of events is scratch space.\<close>

definition new_Epoll :: "'k os \<Rightarrow> (('k, 'z) world_scheme, int) cpp" where
  "new_Epoll os =
     bindC (total (do_epoll_create os)) (\<lambda>r.
     case r of
       SysErr e \<Rightarrow> throw (RuntimeError ''epoll create error'')
     | SysOk fd \<Rightarrow> ret fd)"

text \<open>The destructor.\<close>

definition delete_Epoll :: "'k os \<Rightarrow> int \<Rightarrow> (('k, 'z) world_scheme, unit) cpp" where
  "delete_Epoll os ep = (if ep \<noteq> -1 then modify (do_close os ep) else ret ())"

definition Epoll_UpdateChannel :: "'k os \<Rightarrow> int \<Rightarrow> nat \<Rightarrow> (('k, 'z) reactor_scheme, unit) cpp" where
  "Epoll_UpdateChannel os ep p =
     bindC (the_channel p) (\<lambda>ch.
     let fd = Channel_GetFd ch;
         ev = \<lparr>ev_events = Channel_GetListenEvents ch, ev_ptr = p\<rparr>
     in if \<not> Channel_InEpoll ch
        then bindC (total (do_epoll_ctl os ep EPOLL_CTL_ADD fd ev)) (\<lambda>r.
             seqC (Errif (is_err r) ''epoll add error'')
                  (Channel_SetInEpoll p True))
        else bindC (total (do_epoll_ctl os ep EPOLL_CTL_MOD fd ev)) (\<lambda>r.
             Errif (is_err r) ''epoll modify error''))"

fun Poll_channels :: "epoll_event list \<Rightarrow> (('k, 'z) reactor_scheme, nat list) cpp" where
  "Poll_channels [] = ret []"
| "Poll_channels (e # es) =
     seqC (Channel_SetReadyEvents (ev_ptr e) (ev_events e))
    (bindC (Poll_channels es) (\<lambda>ps. ret (ev_ptr e # ps)))"

definition Epoll_Poll :: "'k os \<Rightarrow> int \<Rightarrow> int \<Rightarrow> (('k, 'z) reactor_scheme, nat list) cpp" where
  "Epoll_Poll os ep timeout =
     bindC (total (do_epoll_wait os ep MAX_EVENTS timeout)) (\<lambda>r.
     case r of
       SysErr e \<Rightarrow> throw (RuntimeError ''epoll wait error'')
     | SysOk evs \<Rightarrow> Poll_channels evs)"

section \<open>Documented behaviour of epoll_ctl\<close>

text \<open>
  \<open>reg k ep fd\<close> is the registration of \<open>fd\<close> in the interest list of the epoll instance \<open>ep\<close>.
  Adding succeeds for a descriptor that is not in the list, and modifying for one that is; both
  then store the event, and a call that fails changes no registration.
\<close>

definition epoll_ctl_contract ::
  "'k os \<Rightarrow> ('k \<Rightarrow> int \<Rightarrow> int \<Rightarrow> epoll_event option) \<Rightarrow> bool" where
  "epoll_ctl_contract os reg \<longleftrightarrow>
     (\<forall>ep op fd ev k r k'. sys_epoll_ctl os ep op fd ev k = (r, k') \<longrightarrow>
        (case r of
           SysErr e \<Rightarrow> reg k' = reg k
         | SysOk u \<Rightarrow>
             reg k' = (reg k)(ep := (reg k ep)(fd := Some ev)) \<and>
             (op = EPOLL_CTL_ADD \<longleftrightarrow> reg k ep fd = None)))"

lemma epoll_ctl_contractD:
  assumes "epoll_ctl_contract os reg" and "sys_epoll_ctl os ep op fd ev k = (r, k')"
  shows "is_err r \<Longrightarrow> reg k' = reg k"
    and "\<not> is_err r \<Longrightarrow> reg k' = (reg k)(ep := (reg k ep)(fd := Some ev))"
    and "\<not> is_err r \<Longrightarrow> op = EPOLL_CTL_ADD \<longleftrightarrow> reg k ep fd = None"
  using assms unfolding epoll_ctl_contract_def by (cases r; fastforce)+

section \<open>Lemmas\<close>

text \<open>Both branches of \<open>UpdateChannel\<close>, each with its error.\<close>

lemma UpdateChannel_add:
  assumes "channels s p = Some ch" and "\<not> in_epoll ch"
    and "do_epoll_ctl os ep EPOLL_CTL_ADD (ch_fd ch)
           \<lparr>ev_events = listen_events ch, ev_ptr = p\<rparr> s = (r, t)"
  shows "Epoll_UpdateChannel os ep p s =
     (if is_err r then Some (Inl (RuntimeError ''epoll add error''), t)
      else Some (Inr (), t\<lparr>channels := (channels t)(p \<mapsto> ch\<lparr>in_epoll := True\<rparr>)\<rparr>))"
  using assms syscall_reactor_frame(1) [OF assms(3) [unfolded do_epoll_ctl_def]]
  by (simp add: Epoll_UpdateChannel_def Channel_SetInEpoll_def Let_def)

lemma UpdateChannel_mod:
  assumes "channels s p = Some ch" and "in_epoll ch"
    and "do_epoll_ctl os ep EPOLL_CTL_MOD (ch_fd ch)
           \<lparr>ev_events = listen_events ch, ev_ptr = p\<rparr> s = (r, t)"
  shows "Epoll_UpdateChannel os ep p s =
     (if is_err r then Some (Inl (RuntimeError ''epoll modify error''), t)
      else Some (Inr (), t))"
  using assms by (simp add: Epoll_UpdateChannel_def Let_def)

lemma UpdateChannel_freed:
  "channels s p = None \<Longrightarrow>
   Epoll_UpdateChannel os ep p s = Some (Inl (Undefined UseAfterFree), s)"
  by (simp add: Epoll_UpdateChannel_def)

text \<open>
  The events of one \<open>epoll_wait\<close> go to their channels in order: a channel that was reported is
  ready for the last events reported for it, and no other channel is touched.
\<close>

lemma Poll_channels_run:
  assumes "\<forall>e \<in> set evs. channels s (ev_ptr e) \<noteq> None"
  shows "\<exists>cs. Poll_channels evs s = Some (Inr (map ev_ptr evs), s\<lparr>channels := cs\<rparr>) \<and>
     (\<forall>p. cs p = (case map_of (rev (map (\<lambda>e. (ev_ptr e, ev_events e)) evs)) p of
        None \<Rightarrow> channels s p
      | Some v \<Rightarrow> map_option (\<lambda>ch. ch\<lparr>ready_events := v\<rparr>) (channels s p)))"
  using assms
proof (induction evs arbitrary: s)
  case Nil
  have "Poll_channels [] s = Some (Inr (map ev_ptr []), s\<lparr>channels := channels s\<rparr>)" by simp
  then show ?case by fastforce
next
  case (Cons e evs)
  then obtain ch where ch: "channels s (ev_ptr e) = Some ch" by auto
  define s1 where "s1 = s\<lparr>channels := (channels s)(ev_ptr e \<mapsto> ch\<lparr>ready_events := ev_events e\<rparr>)\<rparr>"
  have "\<forall>e \<in> set evs. channels s1 (ev_ptr e) \<noteq> None"
    using Cons.prems by (auto simp: s1_def)
  from Cons.IH [OF this] obtain cs where
    run: "Poll_channels evs s1 = Some (Inr (map ev_ptr evs), s1\<lparr>channels := cs\<rparr>)" and
    cs: "\<And>p. cs p = (case map_of (rev (map (\<lambda>e. (ev_ptr e, ev_events e)) evs)) p of
        None \<Rightarrow> channels s1 p
      | Some v \<Rightarrow> map_option (\<lambda>ch. ch\<lparr>ready_events := v\<rparr>) (channels s1 p))" by blast
  have "Poll_channels (e # evs) s = Some (Inr (map ev_ptr (e # evs)), s\<lparr>channels := cs\<rparr>)"
    using ch run by (simp add: Channel_SetReadyEvents_def s1_def)
  moreover have "cs p = (case map_of (rev (map (\<lambda>e. (ev_ptr e, ev_events e)) (e # evs))) p of
        None \<Rightarrow> channels s p
      | Some v \<Rightarrow> map_option (\<lambda>ch. ch\<lparr>ready_events := v\<rparr>) (channels s p))" for p
    using cs [of p] ch
    by (auto simp: s1_def map_add_def split: option.splits)
  ultimately show ?case by blast
qed

end
