(* ===== verification/EventLoop.thy ===== *)
theory EventLoop
  imports Epoll
begin

text \<open>
  \<open>EventLoop\<close> (\<open>event_loop.h\<close>, \<open>event_loop.cpp\<close>) and the operations of \<open>Channel\<close> that go through
  its loop. An event loop owns one epoll instance; \<open>Loop\<close> polls and handles events until \<open>quit_\<close>,
  which no operation of the program sets.
\<close>

definition the_loop :: "nat \<Rightarrow> (('k, 'z) reactor_scheme, event_loop) cpp" where
  "the_loop l = (\<lambda>s. case event_loops s l of
      None \<Rightarrow> Some (Inl (Undefined UseAfterFree), s)
    | Some el \<Rightarrow> Some (Inr el, s))"

definition new_EventLoop :: "'k os \<Rightarrow> (('k, 'z) reactor_scheme, nat) cpp" where
  "new_EventLoop os =
     bindC (new_Epoll os) (\<lambda>ep s. Some (Inr (next_ptr s),
       s\<lparr>event_loops := (event_loops s)(next_ptr s \<mapsto> \<lparr>epfd = ep, el_quit = False\<rparr>),
         next_ptr := Suc (next_ptr s)\<rparr>))"

definition delete_EventLoop :: "'k os \<Rightarrow> nat \<Rightarrow> (('k, 'z) reactor_scheme, unit) cpp" where
  "delete_EventLoop os l =
     bindC (the_loop l) (\<lambda>el.
     seqC (delete_Epoll os (epfd el))
          (modify (\<lambda>s. s\<lparr>event_loops := (event_loops s)(l := None)\<rparr>)))"

definition EventLoop_UpdateChannel ::
  "'k os \<Rightarrow> nat \<Rightarrow> nat \<Rightarrow> (('k, 'z) reactor_scheme, unit) cpp" where
  "EventLoop_UpdateChannel os l p = bindC (the_loop l) (\<lambda>el. Epoll_UpdateChannel os (epfd el) p)"

definition Channel_EnableRead :: "'k os \<Rightarrow> nat \<Rightarrow> (('k, 'z) reactor_scheme, unit) cpp" where
  "Channel_EnableRead os p =
     seqC (set_channel p (\<lambda>ch. ch\<lparr>listen_events := listen_events ch OR (EPOLLIN OR EPOLLPRI)\<rparr>))
    (bindC (the_channel p) (\<lambda>ch. EventLoop_UpdateChannel os (ch_loop ch) p))"

definition Channel_UseET :: "'k os \<Rightarrow> nat \<Rightarrow> (('k, 'z) reactor_scheme, unit) cpp" where
  "Channel_UseET os p =
     seqC (set_channel p (\<lambda>ch. ch\<lparr>listen_events := listen_events ch OR EPOLLET\<rparr>))
    (bindC (the_channel p) (\<lambda>ch. EventLoop_UpdateChannel os (ch_loop ch) p))"

fun HandleEvents ::
  "(callback \<Rightarrow> (('k, 'z) reactor_scheme, unit) cpp) \<Rightarrow> nat list \<Rightarrow>
   (('k, 'z) reactor_scheme, unit) cpp" where
  "HandleEvents run [] = ret ()"
| "HandleEvents run (p # ps) = seqC (Channel_HandleEvent run p) (HandleEvents run ps)"

text \<open>One round of the loop, and the loop.\<close>

definition Loop_round ::
  "'k os \<Rightarrow> (callback \<Rightarrow> (('k, 'z) reactor_scheme, unit) cpp) \<Rightarrow> nat \<Rightarrow>
   (('k, 'z) reactor_scheme, unit) cpp" where
  "Loop_round os run l =
     bindC (the_loop l) (\<lambda>el.
     bindC (Epoll_Poll os (epfd el) (-1)) (\<lambda>ps. HandleEvents run ps))"

partial_function (option) EventLoop_Loop ::
  "'k os \<Rightarrow> (callback \<Rightarrow> (('k, 'z) reactor_scheme, unit) cpp) \<Rightarrow> nat \<Rightarrow>
   ('k, 'z) reactor_scheme \<Rightarrow> ((fault + unit) \<times> ('k, 'z) reactor_scheme) option" where
  "EventLoop_Loop os run l s =
     (case event_loops s l of
        None \<Rightarrow> Some (Inl (Undefined UseAfterFree), s)
      | Some el \<Rightarrow>
          if el_quit el then Some (Inr (), s)
          else (case Loop_round os run l s of
                  None \<Rightarrow> None
                | Some (r, t) \<Rightarrow>
                    (case r of
                       Inl e \<Rightarrow> Some (Inl e, t)
                     | Inr u \<Rightarrow> EventLoop_Loop os run l t)))"

section \<open>Lemmas\<close>

lemma the_loop_at [simp]:
  "event_loops s l = None \<Longrightarrow> the_loop l s = Some (Inl (Undefined UseAfterFree), s)"
  "event_loops s l = Some el \<Longrightarrow> the_loop l s = Some (Inr el, s)"
  by (simp_all add: the_loop_def)

text \<open>
  A channel's registration is in step with the channel: when the channel believes it is in the
  interest list, the list holds its descriptor with exactly the events it listens for and its
  address.
\<close>

definition chan_event :: "nat \<Rightarrow> channel \<Rightarrow> epoll_event" where
  "chan_event p ch = \<lparr>ev_events = listen_events ch, ev_ptr = p\<rparr>"

definition registered ::
  "('k \<Rightarrow> int \<Rightarrow> int \<Rightarrow> epoll_event option) \<Rightarrow> ('k, 'z) reactor_scheme \<Rightarrow> nat \<Rightarrow> bool" where
  "registered reg s p \<longleftrightarrow>
     (\<forall>ch el. channels s p = Some ch \<longrightarrow> event_loops s (ch_loop ch) = Some el \<longrightarrow> in_epoll ch \<longrightarrow>
        reg (kern s) (epfd el) (ch_fd ch) = Some (chan_event p ch))"

text \<open>
  \<open>EnableRead\<close> and \<open>UseET\<close> have one shape: add flags to \<open>listen_events_\<close>, then update the
  registration. Both are proved through it.
\<close>

definition add_flags :: "'k os \<Rightarrow> 32 word \<Rightarrow> nat \<Rightarrow> (('k, 'z) reactor_scheme, unit) cpp" where
  "add_flags os m p =
     seqC (set_channel p (\<lambda>ch. ch\<lparr>listen_events := listen_events ch OR m\<rparr>))
    (bindC (the_channel p) (\<lambda>ch. EventLoop_UpdateChannel os (ch_loop ch) p))"

lemma EnableRead_add_flags: "Channel_EnableRead os p = add_flags os (EPOLLIN OR EPOLLPRI) p"
  by (simp add: Channel_EnableRead_def add_flags_def)

lemma UseET_add_flags: "Channel_UseET os p = add_flags os EPOLLET p"
  by (simp add: Channel_UseET_def add_flags_def)

text \<open>The one system call it makes, and the channel it leaves behind, on every branch.\<close>

lemma add_flags_cases:
  fixes m :: "32 word"
  assumes ch: "channels s p = Some ch" and el: "event_loops s (ch_loop ch) = Some el"
  defines "ch1 \<equiv> ch\<lparr>listen_events := listen_events ch OR m\<rparr>"
    and "op \<equiv> (if in_epoll ch then EPOLL_CTL_MOD else EPOLL_CTL_ADD)"
  shows "\<exists>r k. sys_epoll_ctl os (epfd el) op (ch_fd ch) (chan_event p ch1) (kern s) = (r, k) \<and>
     add_flags os m p s =
       Some (if is_err r
             then Inl (RuntimeError
               (if in_epoll ch then ''epoll modify error'' else ''epoll add error''))
             else Inr (),
             s\<lparr>kern := k,
               calls := calls s @ [CEpollCtl (epfd el) op (ch_fd ch) (chan_event p ch1) r],
               channels := (channels s)(p \<mapsto> ch1\<lparr>in_epoll := in_epoll ch \<or> \<not> is_err r\<rparr>)\<rparr>)"
proof -
  obtain r k where rk:
    "sys_epoll_ctl os (epfd el) op (ch_fd ch) (chan_event p ch1) (kern s) = (r, k)"
    by (cases "sys_epoll_ctl os (epfd el) op (ch_fd ch) (chan_event p ch1) (kern s)")
  define s1 where "s1 = s\<lparr>channels := (channels s)(p \<mapsto> ch1)\<rparr>"
  define t where "t = s1\<lparr>kern := k,
    calls := calls s @ [CEpollCtl (epfd el) op (ch_fd ch) (chan_event p ch1) r]\<rparr>"
  have ctl: "do_epoll_ctl os (epfd el) op (ch_fd ch1) \<lparr>ev_events = listen_events ch1, ev_ptr = p\<rparr> s1
      = (r, t)"
    using rk by (simp add: do_epoll_ctl_def syscall_def s1_def t_def ch1_def chan_event_def)
  have s1: "channels s1 p = Some ch1" and same: "in_epoll ch1 = in_epoll ch"
    by (simp_all add: s1_def ch1_def)
  have step: "add_flags os m p s = Epoll_UpdateChannel os (epfd el) p s1"
    using ch el by (simp add: add_flags_def EventLoop_UpdateChannel_def s1_def ch1_def)
  show ?thesis
  proof (cases "in_epoll ch")
    case True
    have "ch1\<lparr>in_epoll := True\<rparr> = ch1" using True same by simp
    then show ?thesis
      using UpdateChannel_mod [OF s1 _ ctl [unfolded op_def if_P [OF True]]] True same rk
      by (auto intro!: reactor.equality simp: step t_def s1_def op_def)
  next
    case False
    have "ch1\<lparr>in_epoll := False\<rparr> = ch1" using False same by simp
    then show ?thesis
      using UpdateChannel_add [OF s1 _ ctl [unfolded op_def if_not_P [OF False]]] False same rk
      by (auto intro!: reactor.equality simp: step t_def s1_def op_def)
  qed
qed

lemma add_flags_registered:
  assumes "epoll_ctl_contract os reg"
    and ch: "channels s p = Some ch" and el: "event_loops s (ch_loop ch) = Some el"
    and run: "add_flags os m p s = Some (Inr (), t)"
  shows "\<exists>ch'. channels t p = Some ch' \<and> in_epoll ch' \<and>
     ch' = ch\<lparr>listen_events := listen_events ch OR m, in_epoll := True\<rparr> \<and>
     reg (kern t) (epfd el) (ch_fd ch) = Some (chan_event p ch') \<and>
     (\<forall>ep fd. (ep, fd) \<noteq> (epfd el, ch_fd ch) \<longrightarrow> reg (kern t) ep fd = reg (kern s) ep fd) \<and>
     event_loops t = event_loops s"
proof -
  define ch1 where "ch1 = ch\<lparr>listen_events := listen_events ch OR m\<rparr>"
  define op where "op = (if in_epoll ch then EPOLL_CTL_MOD else EPOLL_CTL_ADD)"
  obtain r k where
    ctl: "sys_epoll_ctl os (epfd el) op (ch_fd ch) (chan_event p ch1) (kern s) = (r, k)" and
    eq: "add_flags os m p s =
       Some (if is_err r
             then Inl (RuntimeError
               (if in_epoll ch then ''epoll modify error'' else ''epoll add error''))
             else Inr (),
             s\<lparr>kern := k,
               calls := calls s @ [CEpollCtl (epfd el) op (ch_fd ch) (chan_event p ch1) r],
               channels := (channels s)(p \<mapsto> ch1\<lparr>in_epoll := in_epoll ch \<or> \<not> is_err r\<rparr>)\<rparr>)"
    using add_flags_cases [OF ch el, of os m] by (fold ch1_def op_def) blast
  from eq run have ok: "\<not> is_err r" by (auto split: if_splits)
  with epoll_ctl_contractD(2) [OF assms(1) ctl]
  have "reg k = (reg (kern s))(epfd el := (reg (kern s) (epfd el))(ch_fd ch := Some (chan_event p ch1)))"
    by simp
  moreover have "t = s\<lparr>kern := k,
      calls := calls s @ [CEpollCtl (epfd el) op (ch_fd ch) (chan_event p ch1) r],
      channels := (channels s)(p \<mapsto> ch1\<lparr>in_epoll := True\<rparr>)\<rparr>"
    using eq run ok by simp
  ultimately show ?thesis by (auto simp: ch1_def chan_event_def)
qed

text \<open>
  The loop returns only through a fault when the callbacks leave the \<open>quit_\<close> flag of the loop
  alone.
\<close>

definition quit_unset :: "nat \<Rightarrow> ('k, 'z) reactor_scheme \<Rightarrow> bool" where
  "quit_unset l s \<longleftrightarrow> (\<forall>el. event_loops s l = Some el \<longrightarrow> \<not> el_quit el)"

lemma preserves_the_loop [preserving]: "preserves P (the_loop l)"
  by (auto simp: preserves_def the_loop_def split: option.splits)

lemma preserves_Poll_channels:
  assumes "\<And>s p ch v. P s \<Longrightarrow> channels s p = Some ch \<Longrightarrow>
    P (s\<lparr>channels := (channels s)(p \<mapsto> ch\<lparr>ready_events := v\<rparr>)\<rparr>)"
  shows "preserves P (Poll_channels evs)"
proof (induction evs)
  case Nil
  show ?case unfolding Poll_channels.simps by (rule preserves_basic)
next
  case (Cons e evs)
  then show ?case
    unfolding Poll_channels.simps Channel_SetReadyEvents_def
    by (intro preserving preserves_set_channel assms)
qed

lemma preserves_Poll:
  assumes "\<And>s p ch v. P s \<Longrightarrow> channels s p = Some ch \<Longrightarrow>
      P (s\<lparr>channels := (channels s)(p \<mapsto> ch\<lparr>ready_events := v\<rparr>)\<rparr>)"
    and "\<And>s r t. P s \<Longrightarrow> do_epoll_wait os ep MAX_EVENTS timeout s = (r, t) \<Longrightarrow> P t"
  shows "preserves P (Epoll_Poll os ep timeout)"
proof -
  have "preserves P (case r of
       SysErr e \<Rightarrow> throw (RuntimeError ''epoll wait error'')
     | SysOk evs \<Rightarrow> Poll_channels evs)" for r
    by (cases r) (simp_all add: preserves_basic preserves_Poll_channels assms(1))
  then show ?thesis
    unfolding Epoll_Poll_def by (intro preserving) (erule (1) assms(2))
qed

lemma preserves_HandleEvents [preserving]:
  "(\<And>cb. preserves P (run cb)) \<Longrightarrow> preserves P (HandleEvents run ps)"
  by (induction ps) (simp_all add: preserving)

lemma preserves_Loop_round:
  assumes "\<And>cb. preserves P (run cb)"
    and "\<And>s p ch v. P s \<Longrightarrow> channels s p = Some ch \<Longrightarrow>
      P (s\<lparr>channels := (channels s)(p \<mapsto> ch\<lparr>ready_events := v\<rparr>)\<rparr>)"
    and "\<And>ep s r t. P s \<Longrightarrow> do_epoll_wait os ep MAX_EVENTS (-1) s = (r, t) \<Longrightarrow> P t"
  shows "preserves P (Loop_round os run l)"
  unfolding Loop_round_def
  by (intro preserving preserves_Poll; (rule assms(1) | erule (1) assms(2) | erule (1) assms(3)))

lemma preserves_Loop:
  assumes "preserves P (Loop_round os run l)"
  shows "preserves P (EventLoop_Loop os run l)"
proof (rule preservesI)
  fix s r t
  assume P: "P s" and run: "EventLoop_Loop os run l s = Some (r, t)"
  have "os = os \<longrightarrow> run = run \<longrightarrow> l = l \<longrightarrow> P s \<longrightarrow> P (snd (r, t))"
  proof (rule EventLoop_Loop.raw_induct
      [where P = "\<lambda>os' run' l' s y. os' = os \<longrightarrow> run' = run \<longrightarrow> l' = l \<longrightarrow> P s \<longrightarrow> P (snd y)",
       OF _ run])
  qed (use assms in \<open>auto dest: preservesD split: option.splits if_splits sum.splits prod.splits\<close>)
  with P show "P t" by simp
qed

lemma quit_unset_round:
  assumes "\<And>cb. preserves (quit_unset l) (run cb)"
  shows "preserves (quit_unset l) (Loop_round os run l)"
  by (rule preserves_Loop_round [OF assms])
    (auto simp: quit_unset_def do_epoll_wait_def syscall_reactor_frame)

lemma Loop_never_returns:
  assumes run: "\<And>cb. preserves (quit_unset l) (run cb)"
    and loop: "EventLoop_Loop os run l s = Some (r, t)" and "quit_unset l s"
  shows "\<exists>e. r = Inl e"
proof -
  have round: "preserves (quit_unset l) (Loop_round os run l)"
    by (rule quit_unset_round) (rule run)
  have "os = os \<longrightarrow> run = run \<longrightarrow> l = l \<longrightarrow> quit_unset l s \<longrightarrow> (\<exists>e. fst (r, t) = Inl e)"
  proof (rule EventLoop_Loop.raw_induct
      [where P = "\<lambda>os' run' l' s y. os' = os \<longrightarrow> run' = run \<longrightarrow> l' = l \<longrightarrow> quit_unset l s \<longrightarrow>
         (\<exists>e. fst y = Inl e)", OF _ loop], intro impI)
    fix loop os' run' l' s y
    assume IH: "\<And>os' run' l' s y. loop os' run' l' s = Some y \<Longrightarrow> os' = os \<longrightarrow> run' = run \<longrightarrow>
        l' = l \<longrightarrow> quit_unset l s \<longrightarrow> (\<exists>e. fst y = Inl e)"
      and eq: "(case event_loops s l' of
        None \<Rightarrow> Some (Inl (Undefined UseAfterFree), s)
      | Some el \<Rightarrow>
          if el_quit el then Some (Inr (), s)
          else (case Loop_round os' run' l' s of
                  None \<Rightarrow> None
                | Some (r, t) \<Rightarrow>
                    (case r of
                       Inl e \<Rightarrow> Some (Inl e, t)
                     | Inr u \<Rightarrow> loop os' run' l' t))) = Some y"
      and same: "os' = os" "run' = run" "l' = l" and q: "quit_unset l s"
    show "\<exists>e. fst y = Inl e"
    proof (cases "event_loops s l")
      case None
      with eq same show ?thesis by auto
    next
      case (Some el)
      with q have "\<not> el_quit el" by (simp add: quit_unset_def)
      with eq same Some obtain x u where xu: "Loop_round os run l s = Some (x, u)"
        by (auto split: option.splits)
      then have "quit_unset l u" using round q by (blast dest: preservesD)
      with eq same Some \<open>\<not> el_quit el\<close> xu IH show ?thesis by (cases x) auto
    qed
  qed
  with assms(3) show ?thesis by simp
qed

end
