(* ===== verification/SocketClass.thy ===== *)
theory SocketClass
  imports Syscalls
begin

text \<open>
  \<open>InetAddress\<close> (\<open>inet_address.h\<close>, \<open>inet_address.cpp\<close>) and \<open>Socket\<close> (\<open>socket_class.h\<close>,
  \<open>socket_class.cpp\<close>). A socket is its descriptor; an operation makes its system calls on the
  world. The C library's \<open>inet_addr\<close> is a parameter; \<open>htons\<close> is that of a little-endian machine.
\<close>

unbundle bit_operations_syntax

section \<open>InetAddress\<close>

record inet_address =
  addr :: sockaddr_in
  addr_len :: "32 word"

definition AF_INET :: "16 word" where "AF_INET = 2"
definition sizeof_sockaddr_in :: "32 word" where "sizeof_sockaddr_in = 16"

definition htons :: "16 word \<Rightarrow> 16 word" where
  "htons p = push_bit 8 p OR drop_bit 8 p"

definition zero_addr :: sockaddr_in where
  "zero_addr = \<lparr>sin_family = 0, sin_port = 0, s_addr = 0\<rparr>"

definition InetAddress_init :: inet_address where
  "InetAddress_init = \<lparr>addr = zero_addr, addr_len = sizeof_sockaddr_in\<rparr>"

definition InetAddress_make :: "(string \<Rightarrow> 32 word) \<Rightarrow> string \<Rightarrow> 16 word \<Rightarrow> inet_address" where
  "InetAddress_make inet_addr ip port =
     \<lparr>addr = zero_addr\<lparr>sin_family := AF_INET, s_addr := inet_addr ip, sin_port := htons port\<rparr>,
      addr_len = sizeof_sockaddr_in\<rparr>"

definition InetAddress_SetAddr :: "sockaddr_in \<Rightarrow> 32 word \<Rightarrow> inet_address \<Rightarrow> inet_address" where
  "InetAddress_SetAddr a len ia = ia\<lparr>addr := a, addr_len := len\<rparr>"

definition InetAddress_GetAddr :: "inet_address \<Rightarrow> sockaddr_in" where
  "InetAddress_GetAddr ia = addr ia"

definition InetAddress_GetAddrLen :: "inet_address \<Rightarrow> 32 word" where
  "InetAddress_GetAddrLen ia = addr_len ia"

section \<open>Socket\<close>

definition O_NONBLOCK :: "32 word" where "O_NONBLOCK = 0x800"

definition new_Socket :: "'k os \<Rightarrow> (('k, 'z) world_scheme, int) cpp" where
  "new_Socket os =
     bindC (total (do_socket os)) (\<lambda>r.
     case r of
       SysErr e \<Rightarrow> throw (RuntimeError ''socket create error'')
     | SysOk fd \<Rightarrow> ret fd)"

definition Socket_of_fd :: "int \<Rightarrow> (('k, 'z) world_scheme, int) cpp" where
  "Socket_of_fd fd = seqC (Errif (fd = -1) ''socket create error'') (ret fd)"

definition delete_Socket :: "'k os \<Rightarrow> int \<Rightarrow> (('k, 'z) world_scheme, unit) cpp" where
  "delete_Socket os fd = (if fd \<noteq> -1 then modify (do_close os fd) else ret ())"

definition Socket_Bind :: "'k os \<Rightarrow> int \<Rightarrow> inet_address \<Rightarrow>
    (('k, 'z) world_scheme, inet_address) cpp" where
  "Socket_Bind os fd ia =
     bindC (total (do_bind os fd (InetAddress_GetAddr ia) (InetAddress_GetAddrLen ia))) (\<lambda>r.
     case r of
       SysErr e \<Rightarrow> throw (RuntimeError ''socket bind error'')
     | SysOk u \<Rightarrow> ret (InetAddress_SetAddr (InetAddress_GetAddr ia) (InetAddress_GetAddrLen ia) ia))"

definition Socket_Listen :: "'k os \<Rightarrow> int \<Rightarrow> (('k, 'z) world_scheme, unit) cpp" where
  "Socket_Listen os fd =
     bindC (total (do_listen os fd)) (\<lambda>r.
     case r of
       SysErr e \<Rightarrow> throw (RuntimeError ''socket listen error'')
     | SysOk u \<Rightarrow> ret ())"

definition Socket_Setnonblocking :: "'k os \<Rightarrow> int \<Rightarrow> (('k, 'z) world_scheme, unit) cpp" where
  "Socket_Setnonblocking os fd =
     modify (\<lambda>w. do_setfl os fd (sys_getfl os fd (kern w) OR O_NONBLOCK) w)"

definition Socket_IsNonBlocking :: "'k os \<Rightarrow> int \<Rightarrow> ('k, 'z) world_scheme \<Rightarrow> bool" where
  "Socket_IsNonBlocking os fd w \<longleftrightarrow> sys_getfl os fd (kern w) AND O_NONBLOCK \<noteq> 0"

text \<open>The retry loops of a non-blocking \<open>Connect\<close> and \<open>Accept\<close>.\<close>

partial_function (option) Connect_loop :: "'k os \<Rightarrow> int \<Rightarrow> sockaddr_in \<Rightarrow>
    ('k, 'z) world_scheme \<Rightarrow> ((fault + unit) \<times> ('k, 'z) world_scheme) option" where
  "Connect_loop os fd a w =
     (case do_connect os fd a w of (r, w1) \<Rightarrow>
        (case r of
           SysOk u \<Rightarrow> Some (Inr (), w1)
         | SysErr e \<Rightarrow>
             if e = EINPROGRESS then Connect_loop os fd a w1
             else Some (Inl (RuntimeError ''socket connect error''), w1)))"

definition Socket_Connect :: "'k os \<Rightarrow> int \<Rightarrow> inet_address \<Rightarrow>
    (('k, 'z) world_scheme, unit) cpp" where
  "Socket_Connect os fd ia = (\<lambda>w.
     if Socket_IsNonBlocking os fd w then Connect_loop os fd (InetAddress_GetAddr ia) w
     else (case do_connect os fd (InetAddress_GetAddr ia) w of (r, w1) \<Rightarrow>
             (case r of
                SysOk u \<Rightarrow> Some (Inr (), w1)
              | SysErr e \<Rightarrow> Some (Inl (RuntimeError ''socket connect error''), w1))))"

partial_function (option) Accept_loop :: "'k os \<Rightarrow> int \<Rightarrow> ('k, 'z) world_scheme \<Rightarrow>
    ((fault + (int \<times> sockaddr_in \<times> 32 word)) \<times> ('k, 'z) world_scheme) option" where
  "Accept_loop os fd w =
     (case do_accept os fd w of (r, w1) \<Rightarrow>
        (case r of
           SysOk c \<Rightarrow> Some (Inr c, w1)
         | SysErr e \<Rightarrow>
             if e = EAGAIN \<or> e = EWOULDBLOCK then Accept_loop os fd w1
             else Some (Inl (RuntimeError ''socket accept error''), w1)))"

text \<open>\<open>Accept\<close> returns the client's descriptor and the address object it was given, filled in.\<close>

definition Socket_Accept :: "'k os \<Rightarrow> int \<Rightarrow> inet_address \<Rightarrow>
    (('k, 'z) world_scheme, int \<times> inet_address) cpp" where
  "Socket_Accept os fd ia =
     bindC (\<lambda>w.
       if Socket_IsNonBlocking os fd w then Accept_loop os fd w
       else (case do_accept os fd w of (r, w1) \<Rightarrow>
               (case r of
                  SysOk c \<Rightarrow> Some (Inr c, w1)
                | SysErr e \<Rightarrow> Some (Inl (RuntimeError ''socket accept error''), w1))))
     (\<lambda>(clnt_fd, a, len). ret (clnt_fd, InetAddress_SetAddr a len ia))"

text \<open>The overloads that take a textual address, and the accessors of the descriptor: after \<open>SetFd\<close> the
  socket has forgotten the one it had.\<close>

definition Socket_Bind_ip :: "'k os \<Rightarrow> (string \<Rightarrow> 32 word) \<Rightarrow> int \<Rightarrow> string \<Rightarrow> 16 word \<Rightarrow>
    (('k, 'z) world_scheme, inet_address) cpp" where
  "Socket_Bind_ip os inet_addr fd ip port = Socket_Bind os fd (InetAddress_make inet_addr ip port)"

definition Socket_Connect_ip :: "'k os \<Rightarrow> (string \<Rightarrow> 32 word) \<Rightarrow> int \<Rightarrow> string \<Rightarrow> 16 word \<Rightarrow>
    (('k, 'z) world_scheme, unit) cpp" where
  "Socket_Connect_ip os inet_addr fd ip port = Socket_Connect os fd (InetAddress_make inet_addr ip port)"

definition Socket_GetFd :: "int \<Rightarrow> int" where
  "Socket_GetFd fd = fd"

definition Socket_SetFd :: "int \<Rightarrow> int \<Rightarrow> int" where
  "Socket_SetFd new_fd fd = new_fd"

section \<open>Lemmas\<close>

lemma bit_htons: "bit (htons p) i \<longleftrightarrow> i < 16 \<and> bit p (if i < 8 then i + 8 else i - 8)"
proof (cases "i < 16")
  case True
  then show ?thesis
    by (auto simp: htons_def bit_or_iff bit_push_bit_iff bit_drop_bit_eq ac_simps
        dest: bit_imp_le_length)
next
  case False
  then show ?thesis using bit_imp_le_length [of "htons p" i] by auto
qed

lemma htons_htons: "htons (htons p) = p"
proof (rule bit_eqI)
  fix i
  show "bit (htons (htons p)) i \<longleftrightarrow> bit p i"
    using bit_imp_le_length [of p i] by (auto simp: bit_htons)
qed

text \<open>The calls of an accepting loop: refusals to retry, then the answer it returns.\<close>

definition retries :: "int \<Rightarrow> errno set \<Rightarrow> syscall list \<Rightarrow> bool" where
  "retries fd es cs \<longleftrightarrow> (\<forall>c \<in> set cs. \<exists>e \<in> es. c = CAccept fd (SysErr e))"

definition accept_post :: "int \<Rightarrow> ('k, 'z) world_scheme \<Rightarrow>
    (fault + (int \<times> sockaddr_in \<times> 32 word)) \<times> ('k, 'z) world_scheme \<Rightarrow> bool" where
  "accept_post fd w y \<longleftrightarrow>
     (\<exists>cs r. calls (snd y) = calls w @ cs @ [CAccept fd r] \<and> retries fd {EAGAIN, EWOULDBLOCK} cs \<and>
        (case r of
           SysOk c \<Rightarrow> fst y = Inr c
         | SysErr e \<Rightarrow> e \<notin> {EAGAIN, EWOULDBLOCK} \<and>
             fst y = Inl (RuntimeError ''socket accept error'')))"

lemma accept_post_retry:
  assumes "calls w1 = calls w @ [CAccept fd (SysErr e)]" and "e \<in> {EAGAIN, EWOULDBLOCK}"
    and "accept_post fd w1 y"
  shows "accept_post fd w y"
proof -
  from assms(3) obtain cs r where
    "calls (snd y) = calls w1 @ cs @ [CAccept fd r]" "retries fd {EAGAIN, EWOULDBLOCK} cs"
    "case r of SysOk c \<Rightarrow> fst y = Inr c
       | SysErr e \<Rightarrow> e \<notin> {EAGAIN, EWOULDBLOCK} \<and> fst y = Inl (RuntimeError ''socket accept error'')"
    unfolding accept_post_def by blast
  with assms(1,2) show ?thesis
    unfolding accept_post_def
    by (intro exI [of _ "CAccept fd (SysErr e) # cs"] exI [of _ r]) (auto simp: retries_def)
qed

lemma Accept_loop_calls:
  assumes "Accept_loop os fd w = Some y"
  shows "accept_post fd w y"
proof (rule Accept_loop.raw_induct [where P = "\<lambda>os fd w y. accept_post fd w y", OF _ assms])
  fix loop and os :: "'a os" and fd and w :: "('a, 'b) world_scheme" and y
  assume IH: "\<And>os fd w y. loop os fd w = Some y \<Longrightarrow> accept_post fd w y"
    and eq: "(case do_accept os fd w of (r, w1) \<Rightarrow>
      (case r of
         SysOk c \<Rightarrow> Some (Inr c, w1)
       | SysErr e \<Rightarrow>
           if e = EAGAIN \<or> e = EWOULDBLOCK then loop os fd w1
           else Some (Inl (RuntimeError ''socket accept error''), w1))) = Some y"
  obtain r w1 where acc: "do_accept os fd w = (r, w1)" by force
  then have c1: "calls w1 = calls w @ [CAccept fd r]"
    unfolding do_accept_def by (rule syscall_frame(2))
  show "accept_post fd w y"
  proof (cases "\<exists>e \<in> {EAGAIN, EWOULDBLOCK}. r = SysErr e")
    case True
    then obtain e where e: "e \<in> {EAGAIN, EWOULDBLOCK}" "r = SysErr e" by blast
    with eq acc have "accept_post fd w1 y" by (auto intro: IH)
    with accept_post_retry c1 e show ?thesis by blast
  next
    case False
    with eq acc c1 show ?thesis
      unfolding accept_post_def
      by (intro exI [of _ "[]"] exI [of _ r])
        (auto simp: retries_def split: sysres.splits if_splits)
  qed
qed

lemma Setnonblocking_sets:
  assumes "\<And>fd fl k. sys_getfl os fd (sys_setfl os fd fl k) = fl"
  shows "\<exists>w'. Socket_Setnonblocking os fd w = Some (Inr (), w') \<and> Socket_IsNonBlocking os fd w'"
proof -
  have "(x OR O_NONBLOCK) AND O_NONBLOCK = O_NONBLOCK" for x :: "32 word"
    by (rule bit_eqI) (auto simp: bit_and_iff bit_or_iff)
  then show ?thesis
    by (simp add: Socket_Setnonblocking_def Socket_IsNonBlocking_def do_setfl_def assms
        O_NONBLOCK_def)
qed

end
