(* ===== verification/Buffer.thy ===== *)
theory Buffer
  imports Prelude
begin

text \<open>
  \<open>Buffer\<close> (\<open>buffer.h\<close>, \<open>buffer.cpp\<close>): a string and an index. An operation that can run out of
  an array or overflow the index returns a fault.
\<close>

record buffer =
  buf :: string
  idx :: int

definition Buffer_init :: buffer where
  "Buffer_init = \<lparr>buf = [], idx = 0\<rparr>"

definition Buffer_GetIdx :: "buffer \<Rightarrow> int" where
  "Buffer_GetIdx b = idx b"

definition Buffer_SetIdx :: "int \<Rightarrow> buffer \<Rightarrow> buffer" where
  "Buffer_SetIdx i b = b\<lparr>idx := i\<rparr>"

definition Buffer_IncrementIdx :: "int \<Rightarrow> buffer \<Rightarrow> fault + buffer" where
  "Buffer_IncrementIdx step b =
     (let i = idx b + step
      in if - (2 ^ 31) \<le> i \<and> i < 2 ^ 31 then Inr (b\<lparr>idx := i\<rparr>)
         else Inl (Undefined SignedOverflow))"

definition Buffer_Size :: "buffer \<Rightarrow> int" where
  "Buffer_Size b = int (length (buf b))"

definition Buffer_GetBuf :: "buffer \<Rightarrow> string" where
  "Buffer_GetBuf b = buf b"

definition Buffer_Cstr :: "buffer \<Rightarrow> cptr" where
  "Buffer_Cstr b = buf b @ [NUL]"

text \<open>\<open>operator[]\<close>: the index of the string is unsigned, so a negative \<open>int\<close> is out of range.\<close>

definition Buffer_at :: "buffer \<Rightarrow> int \<Rightarrow> fault + char" where
  "Buffer_at b i =
     (if 0 \<le> i \<and> i < int (length (buf b)) then Inr (buf b ! nat i)
      else if i = int (length (buf b)) then Inr NUL
      else Inl (Undefined OutOfBounds))"

definition Buffer_Append :: "cptr \<Rightarrow> buffer \<Rightarrow> fault + buffer" where
  "Buffer_Append str b =
     (case read_cstr str of Inl e \<Rightarrow> Inl e | Inr s \<Rightarrow> Inr (b\<lparr>buf := buf b @ s\<rparr>))"

text \<open>The byte \<open>_str[i]\<close> of an array.\<close>

definition byte_at :: "cptr \<Rightarrow> int \<Rightarrow> fault + char" where
  "byte_at p i =
     (if 0 \<le> i \<and> i < int (length p) then Inr (p ! nat i) else Inl (Undefined OutOfBounds))"

function Append_loop :: "cptr \<Rightarrow> int \<Rightarrow> int \<Rightarrow> string \<Rightarrow> fault + string" where
  "Append_loop str sz i s =
     (if i < sz then
        (case byte_at str i of
           Inl e \<Rightarrow> Inl e
         | Inr c \<Rightarrow> if c = NUL then Inr s else Append_loop str sz (i + 1) (s @ [c]))
      else Inr s)"
  by pat_completeness auto
termination
  by (relation "measure (\<lambda>(str, sz, i, s). nat (sz - i))") auto

declare Append_loop.simps [simp del]

definition Buffer_Append_sized :: "cptr \<Rightarrow> int \<Rightarrow> buffer \<Rightarrow> fault + buffer" where
  "Buffer_Append_sized str sz b =
     (case Append_loop str sz 0 (buf b) of
        Inl e \<Rightarrow> Inl e
      | Inr s \<Rightarrow> Inr (b\<lparr>buf := s\<rparr>))"

definition Buffer_ClearBuffer :: "buffer \<Rightarrow> buffer" where
  "Buffer_ClearBuffer b = b\<lparr>buf := []\<rparr>"

definition Buffer_SetBuf :: "cptr \<Rightarrow> buffer \<Rightarrow> fault + buffer" where
  "Buffer_SetBuf str b = Buffer_Append str (Buffer_ClearBuffer b)"

text \<open>
  \<open>GetLine\<close> clears the buffer and reads a line of standard input into it: \<open>std::getline\<close> takes
  the characters up to the first newline, which it drops. The input is an argument; what is left
  of it is returned.
\<close>

definition Buffer_GetLine :: "string \<Rightarrow> buffer \<Rightarrow> buffer \<times> string" where
  "Buffer_GetLine input b =
     ((Buffer_ClearBuffer b)\<lparr>buf := takeWhile (\<lambda>c. c \<noteq> LF) input\<rparr>,
      drop 1 (dropWhile (\<lambda>c. c \<noteq> LF) input))"

section \<open>Lemmas\<close>

lemma byte_at_nth: "i < length p \<Longrightarrow> byte_at p (int i) = Inr (p ! i)"
  by (simp add: byte_at_def)

text \<open>The loop from position \<open>i\<close> appends what is left before a NUL.\<close>

lemma Append_loop_eq:
  assumes "i \<le> n" and "n \<le> length str"
  shows "Append_loop str (int n) (int i) s = Inr (s @ before_nul (drop i (take n str)))"
  using assms
proof (induction "n - i" arbitrary: i s)
  case 0
  then have "i = n" by simp
  then show ?case by (simp add: Append_loop.simps [of str "int n" "int n"])
next
  case (Suc d)
  then have lt: "i < n" by simp
  then have hd: "drop i (take n str) = str ! i # drop (Suc i) (take n str)"
    using Suc.prems by (simp add: Cons_nth_drop_Suc [symmetric])
  have step: "Append_loop str (int n) (int (Suc i)) t =
      Inr (t @ before_nul (drop (Suc i) (take n str)))" for t
    using Suc.hyps(1) [of "Suc i" t] Suc.hyps(2) Suc.prems lt by simp
  show ?case
    using lt Suc.prems hd step [of "s @ [str ! i]"]
    by (simp add: Append_loop.simps [of str "int n" "int i"] byte_at_nth add.commute)
qed

lemma Append_loop_overrun:
  assumes "nul_free str" and "int (length str) < sz" and "i \<le> length str"
  shows "Append_loop str sz (int i) s = Inl (Undefined OutOfBounds)"
  using assms(3)
proof (induction "length str - i" arbitrary: i s)
  case 0
  then have "i = length str" by simp
  then show ?case
    using assms(2) by (simp add: Append_loop.simps [of str sz "int (length str)"] byte_at_def)
next
  case (Suc d)
  then have lt: "i < length str" by simp
  then have "str ! i \<noteq> NUL" using assms(1) nth_mem [of i str] by (metis nul_free_def)
  moreover have "Append_loop str sz (int (Suc i)) t = Inl (Undefined OutOfBounds)" for t
    using Suc.hyps(1) [of "Suc i" t] Suc.hyps(2) lt by simp
  ultimately show ?case
    using lt assms(2)
    by (simp add: Append_loop.simps [of str sz "int i"] byte_at_nth add.commute)
qed

lemma Append_loop_reads_all:
  assumes "int n \<le> sz" and "NUL \<in> set (take n str)" and "i \<le> n"
    and "nul_free (take i str)"
  shows "Append_loop str sz (int i) s = Inr (s @ before_nul (drop i str))"
  using assms(3,4)
proof (induction "n - i" arbitrary: i s)
  case 0
  then show ?case using assms(2) by (auto simp: nul_free_def)
next
  case (Suc d)
  then have lt: "i < n" by simp
  have len: "i < length str"
  proof (rule ccontr)
    assume "\<not> i < length str"
    then have "take n str = take i str" using lt by simp
    then show False using assms(2) Suc.prems by (auto simp: nul_free_def)
  qed
  then have hd: "drop i str = str ! i # drop (Suc i) str"
    by (simp add: Cons_nth_drop_Suc)
  show ?case
  proof (cases "str ! i = NUL")
    case True
    then show ?thesis
      using lt len assms(1) hd by (simp add: Append_loop.simps [of str sz "int i"] byte_at_nth)
  next
    case False
    then have "nul_free (take (Suc i) str)"
      using Suc.prems len by (simp add: take_Suc_conv_app_nth)
    then have "Append_loop str sz (int (Suc i)) t =
        Inr (t @ before_nul (drop (Suc i) str))" for t
      using Suc.hyps(1) [of "Suc i" t] Suc.hyps(2) lt by simp
    then show ?thesis
      using lt len assms(1) hd False
      by (simp add: Append_loop.simps [of str sz "int i"] byte_at_nth add.commute)
  qed
qed

lemma Buffer_Append_sized_eq:
  "n \<le> length str \<Longrightarrow>
   Buffer_Append_sized str (int n) b = Inr (b\<lparr>buf := buf b @ before_nul (take n str)\<rparr>)"
  using Append_loop_eq [of 0 n str] by (simp add: Buffer_Append_sized_def)

lemma before_nul_take:
  "NUL \<in> set (take n str) \<Longrightarrow> before_nul (take n str) = before_nul str"
  by (induction str arbitrary: n) (auto simp: take_Cons split: nat.splits)

lemma Buffer_Append_sized_NUL:
  assumes "NUL \<in> set (take (nat sz) str)"
  shows "Buffer_Append_sized str sz b = Inr (b\<lparr>buf := buf b @ before_nul (take (nat sz) str)\<rparr>)"
proof -
  have "0 < sz" using assms by (cases "0 < sz") auto
  then show ?thesis
    using Append_loop_reads_all [of "nat sz" sz str 0 "buf b"] assms
    by (simp add: Buffer_Append_sized_def before_nul_take)
qed

lemma Buffer_Append_Cstr:
  "Buffer_Append (Buffer_Cstr c) b = Inr (b\<lparr>buf := buf b @ before_nul (buf c)\<rparr>)"
  by (simp add: Buffer_Append_def Buffer_Cstr_def)

lemma Buffer_SetBuf_terminated [simp]:
  "Buffer_SetBuf (s @ [NUL]) b = Inr (b\<lparr>buf := before_nul s\<rparr>)"
  by (simp add: Buffer_SetBuf_def Buffer_Append_def Buffer_ClearBuffer_def)

lemma Buffer_SetBuf_Cstr [simp]:
  "Buffer_SetBuf (Buffer_Cstr c) b = Inr (b\<lparr>buf := before_nul (buf c)\<rparr>)"
  by (simp add: Buffer_Cstr_def)

end
