(* ===== verification/Connection.thy ===== *)
theory Connection
  imports SocketClass Buffer
begin

text \<open>
  \<open>Connection\<close> (\<open>connection.h\<close>, \<open>connection.cpp\<close>): the object and its own reading and writing.
  These methods touch the connection and the world and call nothing else back, so their state is
  the pair of the two; the methods that reach the server (\<open>BusinessLogic\<close>, \<open>Close\<close>, the
  destructor) are in the theory of the server. The callbacks are data: the deleter the server
  binds, and the callbacks of the application, by number.
\<close>

datatype conn_state = Invalid | HandShaking | Connected | Closed | Failed

text \<open>The values of the enumeration in the header.\<close>

fun conn_state_code :: "conn_state \<Rightarrow> int" where
  "conn_state_code Invalid = 1"
| "conn_state_code HandShaking = 2"
| "conn_state_code Connected = 3"
| "conn_state_code Closed = 4"
| "conn_state_code Failed = 5"

datatype delete_callback = DeleteConnectionCb

datatype user_callback = UserCb nat

record connection =
  read_buffer :: buffer
  write_buffer :: buffer
  sock :: int
  conn_channel :: "nat option"
  delete_connection_callback :: "delete_callback option"
  on_connect_callback :: "user_callback option"
  on_message_callback :: "user_callback option"
  cstate :: conn_state

type_synonym ('k, 'z) conn_world = "connection \<times> ('k, 'z) world_scheme"

definition BUFFER_SIZE :: nat where "BUFFER_SIZE = 1024"

definition endl :: string where "endl = [LF]"

text \<open>The 1024 byte array after a \<open>read\<close> of \<open>bs\<close> into it: \<open>memset\<close> has cleared the rest.\<close>

definition local_buf :: "string \<Rightarrow> cptr" where
  "local_buf bs = bs @ replicate (BUFFER_SIZE - length bs) NUL"

section \<open>Reading\<close>

partial_function (option) Connection_ReadNonBlocking ::
  "'k os \<Rightarrow> ('k, 'z) conn_world \<Rightarrow> ((fault + unit) \<times> ('k, 'z) conn_world) option" where
  "Connection_ReadNonBlocking os s =
     (case s of (c, w) \<Rightarrow>
       (case do_read os (sock c) BUFFER_SIZE w of (r, w1) \<Rightarrow>
         (case r of
            SysOk bs \<Rightarrow>
              if bs \<noteq> [] then
                (case Buffer_Append_sized (local_buf bs) (to_int32 (int (length bs)))
                        (read_buffer c) of
                   Inl e \<Rightarrow> Some (Inl e, (c, w1))
                 | Inr b \<Rightarrow> Connection_ReadNonBlocking os (c\<lparr>read_buffer := b\<rparr>, w1))
              else Some (Inr (), (c\<lparr>cstate := Closed\<rparr>, w1))
          | SysErr e \<Rightarrow>
              if e = EINTR then Connection_ReadNonBlocking os (c, w1)
              else if e = EAGAIN \<or> e = EWOULDBLOCK then Some (Inr (), (c, w1))
              else Some (Inr (), (c\<lparr>cstate := Closed\<rparr>, w1)))))"

definition Connection_ReadBlocking ::
  "'k os \<Rightarrow> ('k, 'z) conn_world \<Rightarrow> ((fault + unit) \<times> ('k, 'z) conn_world) option" where
  "Connection_ReadBlocking os s =
     (case s of (c, w) \<Rightarrow>
       (let read_size = sys_rcvbuf os (sock c) (kern w) in
        case do_read os (sock c) read_size w of (r, w1) \<Rightarrow>
          (case r of
             SysOk bs \<Rightarrow>
               if bs \<noteq> [] then
                 (case Buffer_Append_sized bs (to_int32 (int (length bs))) (read_buffer c) of
                    Inl e \<Rightarrow> Some (Inl e, (c, w1))
                  | Inr b \<Rightarrow> Some (Inr (), (c\<lparr>read_buffer := b\<rparr>, w1)))
               else Some (Inr (), (c, w1))
           | SysErr e \<Rightarrow>
               Some (Inr (), (c\<lparr>cstate := Closed\<rparr>,
                 print_out (''error during reading socket '' @ show_int (sock c) @ endl) w1)))))"

definition Connection_Read :: "'k os \<Rightarrow> (('k, 'z) conn_world, unit) cpp" where
  "Connection_Read os = (\<lambda>(c, w).
     if cstate c \<noteq> Connected
     then Some (Inr (), (c, print_out (''connection is disconnected'' @ endl) w))
     else
       (let c1 = c\<lparr>read_buffer := Buffer_ClearBuffer (read_buffer c)\<rparr> in
        if Socket_IsNonBlocking os (sock c1) w then Connection_ReadNonBlocking os (c1, w)
        else Connection_ReadBlocking os (c1, w)))"

section \<open>Writing\<close>

text \<open>
  The loop of \<open>WriteNonBlocking\<close>: \<open>bs\<close> is the copy of the buffer and \<open>left\<close> is \<open>bytes_left\<close>.
\<close>

partial_function (option) Write_loop ::
  "'k os \<Rightarrow> string \<Rightarrow> int \<Rightarrow> ('k, 'z) conn_world \<Rightarrow>
   ((fault + unit) \<times> ('k, 'z) conn_world) option" where
  "Write_loop os bs left s =
     (case s of (c, w) \<Rightarrow>
       if left > 0 then
         (case do_write os (sock c) (take (nat left) (drop (nat (int (length bs) - left)) bs)) w of
            (r, w1) \<Rightarrow>
              (case r of
                 SysOk n \<Rightarrow> Write_loop os bs (left - int n) (c, w1)
               | SysErr e \<Rightarrow>
                   if e = EINTR
                   then Write_loop os bs left (c, print_out (''continue writing'' @ endl) w1)
                   else if e = EAGAIN then Some (Inr (), (c, w1))
                   else Some (Inr (), (c\<lparr>cstate := Closed\<rparr>,
                     print_out (''error during writing to socket '' @ show_int (sock c) @ endl) w1))))
       else Some (Inr (), (c, w)))"

definition Connection_WriteNonBlocking :: "'k os \<Rightarrow> (('k, 'z) conn_world, unit) cpp" where
  "Connection_WriteNonBlocking os = (\<lambda>(c, w).
     let bytes_to_write = to_int32 (Buffer_Size (write_buffer c)) in
     if bytes_to_write < 0 then Some (Inl (Undefined BadVlaSize), (c, w))
     else Write_loop os (take (nat bytes_to_write) (Buffer_Cstr (write_buffer c)))
            bytes_to_write (c, w))"

definition Connection_WriteBlocking :: "'k os \<Rightarrow> (('k, 'z) conn_world, unit) cpp" where
  "Connection_WriteBlocking os = (\<lambda>(c, w).
     case do_write os (sock c) (take (nat (Buffer_Size (write_buffer c)))
            (Buffer_Cstr (write_buffer c))) w of
       (r, w1) \<Rightarrow>
         (case r of
            SysOk n \<Rightarrow> Some (Inr (), (c, w1))
          | SysErr e \<Rightarrow> Some (Inr (), (c\<lparr>cstate := Closed\<rparr>,
              print_out (''error during writing to socket '' @ show_int (sock c) @ endl) w1))))"

definition Connection_Write :: "'k os \<Rightarrow> (('k, 'z) conn_world, unit) cpp" where
  "Connection_Write os = (\<lambda>(c, w).
     if cstate c \<noteq> Connected
     then Some (Inr (), (c, print_out (''connection is disconnected'' @ endl) w))
     else
       seqC (if Socket_IsNonBlocking os (sock c) w then Connection_WriteNonBlocking os
             else Connection_WriteBlocking os)
            (modify (\<lambda>(c, w). (c\<lparr>write_buffer := Buffer_ClearBuffer (write_buffer c)\<rparr>, w)))
            (c, w))"

section \<open>Accessors of the buffers\<close>

definition Connection_GetState :: "connection \<Rightarrow> conn_state" where
  "Connection_GetState c = cstate c"

definition Connection_GetReadBuffer :: "connection \<Rightarrow> buffer" where
  "Connection_GetReadBuffer c = read_buffer c"

definition Connection_GetWriteBuffer :: "connection \<Rightarrow> buffer" where
  "Connection_GetWriteBuffer c = write_buffer c"

definition Connection_GetSocket :: "connection \<Rightarrow> int" where
  "Connection_GetSocket c = sock c"

lemmas connection_getters [simp] = Connection_GetState_def Connection_GetReadBuffer_def
  Connection_GetWriteBuffer_def Connection_GetSocket_def

definition Connection_ReadBuffer :: "connection \<Rightarrow> cptr" where
  "Connection_ReadBuffer c = Buffer_Cstr (read_buffer c)"

definition Connection_WriteBuffer :: "connection \<Rightarrow> cptr" where
  "Connection_WriteBuffer c = Buffer_Cstr (write_buffer c)"

definition Connection_SetWriteBuffer :: "cptr \<Rightarrow> connection \<Rightarrow> fault + connection" where
  "Connection_SetWriteBuffer str c =
     (case Buffer_SetBuf str (write_buffer c) of
        Inl e \<Rightarrow> Inl e
      | Inr b \<Rightarrow> Inr (c\<lparr>write_buffer := b\<rparr>))"

definition Connection_GetLineWriteBuffer :: "string \<Rightarrow> connection \<Rightarrow> connection \<times> string" where
  "Connection_GetLineWriteBuffer input c =
     (case Buffer_GetLine input (write_buffer c) of (b, rest) \<Rightarrow> (c\<lparr>write_buffer := b\<rparr>, rest))"

end
