(* ===== verification/ConnectionIO.thy ===== *)
theory ConnectionIO
  imports Connection
begin

text \<open>
  What reading and writing do: which calls the loops make, what they leave in the buffers and the
  state, when they stop, and that a connection only ever goes from \<open>Connected\<close> to \<open>Closed\<close>.
\<close>

section \<open>The answers of read and write\<close>

fun read_continues :: "string sysres \<Rightarrow> bool" where
  "read_continues (SysOk bs) \<longleftrightarrow> bs \<noteq> []"
| "read_continues (SysErr e) \<longleftrightarrow> e = EINTR"

fun read_closes :: "string sysres \<Rightarrow> bool" where
  "read_closes (SysOk bs) \<longleftrightarrow> bs = []"
| "read_closes (SysErr e) \<longleftrightarrow> e \<notin> {EINTR, EAGAIN, EWOULDBLOCK}"

text \<open>What the loop keeps of the chunks it was given: each up to its first NUL.\<close>

fun kept :: "string sysres list \<Rightarrow> string" where
  "kept [] = []"
| "kept (SysOk bs # rs) = before_nul bs @ kept rs"
| "kept (SysErr e # rs) = kept rs"

fun received :: "string sysres list \<Rightarrow> string" where
  "received [] = []"
| "received (SysOk bs # rs) = bs @ received rs"
| "received (SysErr e # rs) = received rs"

lemma received_chunks: "received rs = concat (chunks_read fd (map (CRead fd n) rs))"
  by (induction rs rule: received.induct) simp_all

lemma kept_received: "nul_free (received rs) \<Longrightarrow> kept rs = received rs"
  by (induction rs rule: kept.induct) simp_all

section \<open>Non-blocking reads\<close>

lemma append_local_buf:
  assumes "length bs \<le> BUFFER_SIZE"
  shows "Buffer_Append_sized (local_buf bs) (to_int32 (int (length bs))) b =
    Inr (b\<lparr>buf := buf b @ before_nul bs\<rparr>)"
proof -
  have "to_int32 (int (length bs)) = int (length bs)"
    using assms by (simp add: to_int32_id BUFFER_SIZE_def)
  then show ?thesis by (simp add: Buffer_Append_sized_eq local_buf_def)
qed

definition read_post ::
  "('k, 'z) conn_world \<Rightarrow> (fault + unit) \<times> ('k, 'z) conn_world \<Rightarrow> bool" where
  "read_post s y \<longleftrightarrow>
     (case (s, y) of ((c, w), (x, (c', w'))) \<Rightarrow>
        x = Inr () \<and> cout w' = cout w \<and> world.more w' = world.more w \<and>
        (\<exists>rs r. (\<forall>q \<in> set rs. read_continues q) \<and> \<not> read_continues r \<and>
           calls w' = calls w @ map (CRead (sock c) BUFFER_SIZE) (rs @ [r]) \<and>
           c' = c\<lparr>read_buffer := (read_buffer c)\<lparr>buf := buf (read_buffer c) @ kept rs\<rparr>,
                  cstate := (if read_closes r then Closed else cstate c)\<rparr>))"

lemma read_postI:
  assumes "cout w' = cout w" and "world.more w' = world.more w"
    and "\<forall>q \<in> set rs. read_continues q" and "\<not> read_continues r"
    and "calls w' = calls w @ map (CRead (sock c) BUFFER_SIZE) (rs @ [r])"
    and "c' = c\<lparr>read_buffer := (read_buffer c)\<lparr>buf := buf (read_buffer c) @ kept rs\<rparr>,
                cstate := (if read_closes r then Closed else cstate c)\<rparr>"
  shows "read_post (c, w) (Inr (), c', w')"
  using assms unfolding read_post_def by auto

lemma read_post_step:
  assumes rd: "do_read os (sock c) BUFFER_SIZE w = (q, w1)" and "read_continues q"
    and post: "read_post (c\<lparr>read_buffer := (read_buffer c)\<lparr>buf := buf (read_buffer c) @ kept [q]\<rparr>\<rparr>, w1) y"
  shows "read_post (c, w) y"
proof -
  obtain x c' w' where y: "y = (x, c', w')" by (cases y) auto
  from post [unfolded y read_post_def] obtain rs r where
    facts: "x = Inr ()" "cout w' = cout w1" "world.more w' = world.more w1"
      "\<forall>q \<in> set rs. read_continues q" "\<not> read_continues r"
      "calls w' = calls w1 @ map (CRead (sock c) BUFFER_SIZE) (rs @ [r])" and
    c': "c' = c\<lparr>read_buffer := (read_buffer c)\<lparr>buf := (buf (read_buffer c) @ kept [q]) @ kept rs\<rparr>,
           cstate := (if read_closes r then Closed else cstate c)\<rparr>"
    by auto
  have "kept [q] @ kept rs = kept (q # rs)" by (cases q) simp_all
  then have "c' = c\<lparr>read_buffer := (read_buffer c)\<lparr>buf := buf (read_buffer c) @ kept (q # rs)\<rparr>,
           cstate := (if read_closes r then Closed else cstate c)\<rparr>"
    using c' by simp
  then show ?thesis
    using facts assms(2) syscall_frame [OF rd [unfolded do_read_def]] unfolding y facts(1)
    by (intro read_postI [where rs = "q # rs" and r = r]) auto
qed

text \<open>
  The runs of the loop that end, by their rounds. Everything about such runs is rule induction on
  \<open>reads\<close>.
\<close>

inductive reads ::
  "'k os \<Rightarrow> ('k, 'z) conn_world \<Rightarrow> (fault + unit) \<times> ('k, 'z) conn_world \<Rightarrow> bool" for os where
  reads_more: "do_read os (sock c) BUFFER_SIZE w = (q, w1) \<Longrightarrow> read_continues q \<Longrightarrow>
     reads os (c\<lparr>read_buffer := (read_buffer c)\<lparr>buf := buf (read_buffer c) @ kept [q]\<rparr>\<rparr>, w1) y \<Longrightarrow>
     reads os (c, w) y"
| reads_stop: "do_read os (sock c) BUFFER_SIZE w = (q, w1) \<Longrightarrow> \<not> read_continues q \<Longrightarrow>
     reads os (c, w) (Inr (), c\<lparr>cstate := (if read_closes q then Closed else cstate c)\<rparr>, w1)"

lemma ReadNonBlocking_unfold:
  assumes "read_bounded os" and rd: "do_read os (sock c) BUFFER_SIZE w = (q, w1)"
  shows "(case do_read os (sock c) BUFFER_SIZE w of (r, w1) \<Rightarrow>
         (case r of
            SysOk bs \<Rightarrow>
              if bs \<noteq> [] then
                (case Buffer_Append_sized (local_buf bs) (to_int32 (int (length bs)))
                        (read_buffer c) of
                   Inl e \<Rightarrow> Some (Inl e, (c, w1))
                 | Inr b \<Rightarrow> loop (c\<lparr>read_buffer := b\<rparr>, w1))
              else Some (Inr (), (c\<lparr>cstate := Closed\<rparr>, w1))
          | SysErr e \<Rightarrow>
              if e = EINTR then loop (c, w1)
              else if e = EAGAIN \<or> e = EWOULDBLOCK then Some (Inr (), (c, w1))
              else Some (Inr (), (c\<lparr>cstate := Closed\<rparr>, w1)))) =
    (if read_continues q
     then loop (c\<lparr>read_buffer := (read_buffer c)\<lparr>buf := buf (read_buffer c) @ kept [q]\<rparr>\<rparr>, w1)
     else Some (Inr (), (c\<lparr>cstate := (if read_closes q then Closed else cstate c)\<rparr>, w1)))"
proof (cases q)
  case (SysOk bs)
  with rd have "length bs \<le> BUFFER_SIZE" by (auto intro: do_read_bounded [OF assms(1)])
  with rd SysOk show ?thesis by (simp add: append_local_buf)
next
  case (SysErr e)
  with rd show ?thesis by simp
qed

lemma ReadNonBlocking_at:
  assumes "read_bounded os" and "do_read os (sock c) BUFFER_SIZE w = (q, w1)"
  shows "Connection_ReadNonBlocking os (c, w) =
    (if read_continues q
     then Connection_ReadNonBlocking os
            (c\<lparr>read_buffer := (read_buffer c)\<lparr>buf := buf (read_buffer c) @ kept [q]\<rparr>\<rparr>, w1)
     else Some (Inr (), (c\<lparr>cstate := (if read_closes q then Closed else cstate c)\<rparr>, w1)))"
  by (subst Connection_ReadNonBlocking.simps)
    (simp only: prod.case ReadNonBlocking_unfold [OF assms, unfolded prod.case])

lemma ReadNonBlocking_reads:
  assumes bounded: "read_bounded os" and ret: "Connection_ReadNonBlocking os s = Some y"
  shows "reads os s y"
proof -
  have "os = os \<longrightarrow> reads os s y"
  proof (rule Connection_ReadNonBlocking.raw_induct
      [where P = "\<lambda>os' s y. os' = os \<longrightarrow> reads os s y", OF _ ret], intro impI, goal_cases)
    case (1 loop os' s y)
    obtain c w where s: "s = (c, w)" by force
    obtain q w1 where rd: "do_read os (sock c) BUFFER_SIZE w = (q, w1)" by force
    note eq = 1(2) [unfolded s 1(3) prod.case
        ReadNonBlocking_unfold [where loop = "loop os", unfolded prod.case, OF bounded rd]]
    show ?case
    proof (cases "read_continues q")
      case True
      with eq 1(1) have "reads os (c\<lparr>read_buffer := (read_buffer c)
          \<lparr>buf := buf (read_buffer c) @ kept [q]\<rparr>\<rparr>, w1) y" by auto
      then show ?thesis unfolding s by (rule reads_more [OF rd True])
    next
      case False
      with eq have "y = (Inr (), c\<lparr>cstate := (if read_closes q then Closed else cstate c)\<rparr>, w1)"
        by simp
      with reads_stop [OF rd False] show ?thesis by (simp only: s)
    qed
  qed
  then show ?thesis by simp
qed

lemma ReadNonBlocking_post:
  assumes "read_bounded os" and "Connection_ReadNonBlocking os s = Some y"
  shows "read_post s y"
  using ReadNonBlocking_reads [OF assms]
proof induction
  case (reads_more c w q w1 y)
  then show ?case by (blast intro: read_post_step)
next
  case (reads_stop c w q w1)
  then show ?case
    using syscall_frame [OF reads_stop(1) [unfolded do_read_def]]
    by (auto intro!: read_postI [where rs = "[]" and r = q])
qed

text \<open>The answer the kernel gives to the \<open>i\<close>-th \<open>read\<close> in a row.\<close>

fun read_at :: "'k os \<Rightarrow> int \<Rightarrow> nat \<Rightarrow> 'k \<Rightarrow> nat \<Rightarrow> string sysres" where
  "read_at os fd n k 0 = fst (sys_read os fd n k)"
| "read_at os fd n k (Suc i) = read_at os fd n (snd (sys_read os fd n k)) i"

lemma do_read_kern: "fst (do_read os fd n w) = fst (sys_read os fd n (kern w))"
  "kern (snd (do_read os fd n w)) = snd (sys_read os fd n (kern w))"
  by (simp_all add: do_read_def syscall_def split: prod.splits)

lemma ReadNonBlocking_returns_if:
  assumes bounded: "read_bounded os"
    and "\<not> read_continues (read_at os (sock c) BUFFER_SIZE (kern w) i)"
  shows "Connection_ReadNonBlocking os (c, w) \<noteq> None"
  using assms(2)
proof (induction i arbitrary: c w)
  case 0
  obtain q w1 where rd: "do_read os (sock c) BUFFER_SIZE w = (q, w1)" by force
  with 0 show ?case
    using do_read_kern(1) [of os "sock c" BUFFER_SIZE w]
    by (simp add: ReadNonBlocking_at [OF bounded rd])
next
  case (Suc i)
  obtain q w1 where rd: "do_read os (sock c) BUFFER_SIZE w = (q, w1)" by force
  then have "kern w1 = snd (sys_read os (sock c) BUFFER_SIZE (kern w))"
    using do_read_kern(2) [of os "sock c" BUFFER_SIZE w] by simp
  with Suc.prems Suc.IH [of "c\<lparr>read_buffer := (read_buffer c)\<lparr>buf := buf (read_buffer c) @ kept [q]\<rparr>\<rparr>" w1]
  show ?case
    by (simp add: ReadNonBlocking_at [OF bounded rd])
qed

lemma ReadNonBlocking_returns_only_if:
  assumes "read_bounded os" and "Connection_ReadNonBlocking os (c, w) = Some y"
  shows "\<exists>i. \<not> read_continues (read_at os (sock c) BUFFER_SIZE (kern w) i)"
proof -
  have "\<exists>i. \<not> read_continues (read_at os (sock (fst s)) BUFFER_SIZE (kern (snd s)) i)"
    if "reads os s y" for s y
    using that
  proof induction
    case (reads_more c w q w1 y)
    then obtain i where i: "\<not> read_continues (read_at os (sock c) BUFFER_SIZE (kern w1) i)" by auto
    have "kern w1 = snd (sys_read os (sock c) BUFFER_SIZE (kern w))"
      using do_read_kern(2) [of os "sock c" BUFFER_SIZE w] reads_more(1) by simp
    with i have "\<not> read_continues (read_at os (sock c) BUFFER_SIZE (kern w) (Suc i))" by simp
    then show ?case by (auto simp del: read_at.simps)
  next
    case (reads_stop c w q w1)
    then have "\<not> read_continues (read_at os (sock c) BUFFER_SIZE (kern w) 0)"
      using do_read_kern(1) [of os "sock c" BUFFER_SIZE w] by simp
    then show ?case by (auto simp del: read_at.simps)
  qed
  from this [OF ReadNonBlocking_reads [OF assms]] show ?thesis by simp
qed

section \<open>Non-blocking writes\<close>

text \<open>
  The ends of the writing loop, by the last call: everything was accepted, the socket would block,
  or the connection failed.
\<close>

datatype write_end = AllSent | WouldBlock | Broken

definition write_end_state :: "write_end \<Rightarrow> connection \<Rightarrow> connection" where
  "write_end_state e c = (if e = Broken then c\<lparr>cstate := Closed\<rparr> else c)"

fun ends_with :: "int \<Rightarrow> write_end \<Rightarrow> syscall list \<Rightarrow> bool" where
  "ends_with fd AllSent cs = True"
| "ends_with fd WouldBlock cs = (\<exists>b ds. cs = ds @ [CWrite fd b (SysErr EAGAIN)])"
| "ends_with fd Broken cs =
     (\<exists>b ds e. cs = ds @ [CWrite fd b (SysErr e)] \<and> e \<noteq> EAGAIN \<and> e \<noteq> EINTR)"

lemma ends_with_Cons: "ends_with fd e cs \<Longrightarrow> ends_with fd e (c # cs)"
  by (cases e) (auto intro: exI [of _ "_ # _"])

definition write_post ::
  "string \<Rightarrow> int \<Rightarrow> ('k, 'z) conn_world \<Rightarrow> (fault + unit) \<times> ('k, 'z) conn_world \<Rightarrow> bool" where
  "write_post bs left s y \<longleftrightarrow>
     (case (s, y) of ((c, w), (x, (c', w'))) \<Rightarrow>
        x = Inr () \<and> world.more w' = world.more w \<and>
        (\<exists>cs sent e. calls w' = calls w @ cs \<and> sent \<le> nat left \<and>
           (\<forall>q \<in> set cs. \<exists>b r. q = CWrite (sock c) b r) \<and>
           bytes_written (sock c) cs = take sent (drop (length bs - nat left) bs) \<and>
           ends_with (sock c) e cs \<and> (e = AllSent \<longrightarrow> sent = nat left) \<and>
           c' = write_end_state e c))"

lemma write_postI:
  assumes "world.more w' = world.more w" and "calls w' = calls w @ cs" and "sent \<le> nat left"
    and "\<forall>q \<in> set cs. \<exists>b r. q = CWrite (sock c) b r"
    and "bytes_written (sock c) cs = take sent (drop (length bs - nat left) bs)"
    and "ends_with (sock c) e cs" and "e = AllSent \<longrightarrow> sent = nat left"
    and "c' = write_end_state e c"
  shows "write_post bs left (c, w) (Inr (), c', w')"
  using assms unfolding write_post_def by auto

text \<open>The bytes a round offers, and one accepted piece, then the rest.\<close>

definition piece_of :: "string \<Rightarrow> int \<Rightarrow> string" where
  "piece_of bs left = take (nat left) (drop (nat (int (length bs) - left)) bs)"

lemma piece_of_drop: "0 \<le> left \<Longrightarrow> piece_of bs left = take (nat left) (drop (length bs - nat left) bs)"
proof -
  assume "0 \<le> left"
  then have "nat (int (length bs) - left) = length bs - nat left" by linarith
  then show ?thesis by (simp add: piece_of_def)
qed

lemma write_post_step:
  assumes post: "write_post bs (left - int n) (c, w1) y"
    and "calls w1 = calls w @ [CWrite (sock c) (piece_of bs left) r]"
    and "world.more w1 = world.more w"
    and r: "r = SysOk n \<or> n = 0 \<and> r = SysErr EINTR"
    and n: "int n \<le> left" and left: "left \<le> int (length bs)"
  shows "write_post bs left (c, w) y"
proof -
  obtain x c' w' where y: "y = (x, c', w')" by (cases y) auto
  from post [unfolded y write_post_def] obtain cs sent e where
    facts: "x = Inr ()" "world.more w' = world.more w1" "calls w' = calls w1 @ cs"
      "sent \<le> nat (left - int n)" "\<forall>q \<in> set cs. \<exists>b r. q = CWrite (sock c) b r"
      "bytes_written (sock c) cs = take sent (drop (length bs - nat (left - int n)) bs)"
      "ends_with (sock c) e cs" "e = AllSent \<longrightarrow> sent = nat (left - int n)"
      "c' = write_end_state e c"
    by auto
  have piece: "piece_of bs left = take (nat left) (drop (length bs - nat left) bs)"
    using n by (intro piece_of_drop) linarith
  let ?call = "CWrite (sock c) (piece_of bs left) r"
  have pos: "length bs - nat (left - int n) = n + (length bs - nat left)"
    and mn: "min n (nat left) = n" and nat: "nat (left - int n) = nat left - n"
    using n left by linarith+
  have "bytes_written (sock c) (?call # cs) = take (n + sent) (drop (length bs - nat left) bs)"
    using r facts(6) pos mn by (auto simp: take_add add.commute piece)
  moreover have "n + sent \<le> nat left" using facts(4) nat n by linarith
  ultimately show ?thesis
    using facts assms(2,3) nat n unfolding y facts(1)
    by (intro write_postI [where cs = "?call # cs" and sent = "n + sent" and e = e])
      (auto intro: ends_with_Cons)
qed

text \<open>The runs of the loop that end, by their rounds.\<close>

inductive writes ::
  "'k os \<Rightarrow> string \<Rightarrow> int \<Rightarrow> ('k, 'z) conn_world \<Rightarrow> (fault + unit) \<times> ('k, 'z) conn_world \<Rightarrow> bool"
  for os bs where
  writes_done: "left \<le> 0 \<Longrightarrow> writes os bs left s (Inr (), s)"
| writes_more: "0 < left \<Longrightarrow> do_write os (sock c) (piece_of bs left) w = (SysOk n, w1) \<Longrightarrow>
     writes os bs (left - int n) (c, w1) y \<Longrightarrow> writes os bs left (c, w) y"
| writes_again: "0 < left \<Longrightarrow> do_write os (sock c) (piece_of bs left) w = (SysErr EINTR, w1) \<Longrightarrow>
     writes os bs left (c, print_out (''continue writing'' @ endl) w1) y \<Longrightarrow> writes os bs left (c, w) y"
| writes_full: "0 < left \<Longrightarrow> do_write os (sock c) (piece_of bs left) w = (SysErr EAGAIN, w1) \<Longrightarrow>
     writes os bs left (c, w) (Inr (), c, w1)"
| writes_fails: "0 < left \<Longrightarrow> do_write os (sock c) (piece_of bs left) w = (SysErr e, w1) \<Longrightarrow>
     e \<noteq> EINTR \<Longrightarrow> e \<noteq> EAGAIN \<Longrightarrow> writes os bs left (c, w) (Inr (), c\<lparr>cstate := Closed\<rparr>,
       print_out (''error during writing to socket '' @ show_int (sock c) @ endl) w1)"

lemma Write_loop_writes:
  assumes "Write_loop os bs left s = Some y"
  shows "writes os bs left s y"
  using assms
proof (rule Write_loop.raw_induct [where P = writes, rotated], goal_cases)
  case (1 loop os bs left s y)
  obtain c w where s: "s = (c, w)" by force
  obtain r w1 where wr: "do_write os (sock c) (piece_of bs left) w = (r, w1)" by force
  note IH = 1(1) and eq = 1(2) [unfolded s prod.case piece_of_def [symmetric] wr]
  show ?case
  proof (cases "0 < left")
    case False
    with eq show ?thesis by (auto simp: s intro: writes_done)
  next
    case left: True
    show ?thesis
    proof (cases r)
      case (SysOk n)
      have "writes os bs (left - int n) (c, w1) y" by (rule IH) (use eq left SysOk in simp)
      with wr SysOk left show ?thesis by (simp add: s writes_more)
    next
      case (SysErr e)
      note eq = eq [unfolded SysErr sysres.case if_P [OF left]]
      consider "e = EINTR" | "e = EAGAIN" | "e \<noteq> EINTR" "e \<noteq> EAGAIN" by blast
      then show ?thesis
      proof cases
        case 1
        have "writes os bs left (c, print_out (''continue writing'' @ endl) w1) y"
          by (rule IH) (use eq 1 in \<open>simp only: if_True simp_thms\<close>)
        with 1 wr SysErr left show ?thesis by (auto simp: s intro: writes_again)
      next
        case 2
        with eq have "y = (Inr (), c, w1)" by simp
        with 2 wr SysErr left show ?thesis by (auto simp: s intro: writes_full)
      next
        case 3
        with eq have "y = (Inr (), c\<lparr>cstate := Closed\<rparr>,
            print_out (''error during writing to socket '' @ show_int (sock c) @ endl) w1)"
          by (simp only: if_False option.inject)
        with 3 wr SysErr left show ?thesis by (auto simp only: s intro: writes_fails)
      qed
    qed
  qed
qed

lemma writes_post:
  assumes "writes os bs left s y" and bounded: "write_bounded os" and "left \<le> int (length bs)"
  shows "write_post bs left s y"
  using assms(1,3)
proof induction
  case (writes_done left s)
  then show ?case
    by (cases s) (auto intro!: write_postI [where cs = "[]" and sent = 0 and e = AllSent]
      simp: write_end_state_def)
next
  case (writes_more left c w n w1 y)
  have "length (piece_of bs left) = nat left" using writes_more(1,5) by (simp add: piece_of_def)
  then have "n \<le> nat left" using do_write_bounded [OF bounded writes_more(2)] by simp
  then have n: "int n \<le> left" using writes_more(1) by linarith
  note frame = syscall_frame [OF writes_more(2) [unfolded do_write_def]]
  have "write_post bs (left - int n) (c, w1) y" using writes_more by simp
  from write_post_step [OF this frame(2,3) _ n writes_more(5)] show ?case by simp
next
  case (writes_again left c w w1 y)
  then have "write_post bs (left - int 0) (c, print_out (''continue writing'' @ endl) w1) y" by simp
  from write_post_step [OF this, where r = "SysErr EINTR"] show ?case
    using writes_again syscall_frame [OF writes_again(2) [unfolded do_write_def]] by simp
next
  case (writes_full left c w w1)
  then show ?case
    using syscall_frame [OF writes_full(2) [unfolded do_write_def]]
    by (intro write_postI [where cs = "[CWrite (sock c) (piece_of bs left) (SysErr EAGAIN)]"
          and sent = 0 and e = WouldBlock]) (auto simp: write_end_state_def)
next
  case (writes_fails left c w e w1)
  then show ?case
    using syscall_frame [OF writes_fails(2) [unfolded do_write_def]]
    by (intro write_postI [where cs = "[CWrite (sock c) (piece_of bs left) (SysErr e)]"
          and sent = 0 and e = Broken]) (auto simp: write_end_state_def)
qed

lemma Write_loop_post:
  "write_bounded os \<Longrightarrow> Write_loop os bs left s = Some y \<Longrightarrow> left \<le> int (length bs) \<Longrightarrow>
   write_post bs left s y"
  using writes_post Write_loop_writes by blast

text \<open>
  The loop returns when the kernel cannot refuse for ever: \<open>patience\<close> bounds how often in a row a
  \<open>write\<close> may be interrupted or accept nothing.
\<close>

definition write_patience :: "'k os \<Rightarrow> int \<Rightarrow> ('k \<Rightarrow> nat) \<Rightarrow> bool" where
  "write_patience os fd patience \<longleftrightarrow>
     (\<forall>bs k r k'. sys_write os fd bs k = (r, k') \<longrightarrow> r = SysOk 0 \<or> r = SysErr EINTR \<longrightarrow>
        patience k' < patience k)"

lemma Write_loop_returns:
  assumes patience: "write_patience os (sock c) patience"
  shows "Write_loop os bs left (c, w) \<noteq> None"
proof (induction "(nat left, patience (kern w))" arbitrary: left w rule: wf_induct_rule
    [OF wf_lex_prod [OF wf_less_than wf_less_than]])
  case (1 left w)
  show ?case
  proof (cases "left > 0")
    case False
    then show ?thesis by (subst Write_loop.simps) simp
  next
    case True
    let ?piece = "take (nat left) (drop (nat (int (length bs) - left)) bs)"
    obtain r w1 where wr: "do_write os (sock c) ?piece w = (r, w1)" by force
    then have k: "sys_write os (sock c) ?piece (kern w) = (r, kern w1)"
      unfolding do_write_def by (rule syscall_frame(4))
    have less: "r = SysOk 0 \<or> r = SysErr EINTR \<Longrightarrow> patience (kern w1) < patience (kern w)"
      using patience k unfolding write_patience_def by blast
    show ?thesis
    proof (cases r)
      case (SysOk n)
      have "((nat (left - int n), patience (kern w1)), nat left, patience (kern w)) \<in> less_than <*lex*> less_than"
        using less SysOk True by (cases n) auto
      then have "Write_loop os bs (left - int n) (c, w1) \<noteq> None" by (rule 1)
      then show ?thesis using wr SysOk True by (subst Write_loop.simps) simp
    next
      case (SysErr e)
      then show ?thesis
        using 1 [of left "print_out (''continue writing'' @ endl) w1"] less wr True
        by (subst Write_loop.simps) auto
    qed
  qed
qed

section \<open>Read and Write\<close>

lemma world_more_print [simp]: "Socket_IsNonBlocking os fd (print_out m w) = Socket_IsNonBlocking os fd w"
  by (simp add: Socket_IsNonBlocking_def)

text \<open>
  C7: a non-blocking \<open>Read\<close> of a connected connection. It calls \<open>read\<close> with 1024 bytes until the
  kernel has no more, is at the end of the stream or fails; the read buffer then holds the chunks
  that came in, each up to its first NUL byte, and nothing else; it holds exactly the bytes received when
  none of them is NUL. The connection is closed exactly when the last answer was the end of the stream or an
  error other than "would block"; no other field changes.
\<close>

theorem Read_nonblocking_spec:
  assumes "read_bounded os" and "cstate c = Connected" and "Socket_IsNonBlocking os (sock c) w"
    and "Connection_Read os (c, w) = Some (x, (c', w'))"
  shows "\<exists>rs r. x = Inr () \<and> (\<forall>q \<in> set rs. read_continues q) \<and> \<not> read_continues r \<and>
     calls w' = calls w @ map (CRead (sock c) BUFFER_SIZE) (rs @ [r]) \<and>
     buf (read_buffer c') = kept rs \<and>
     (nul_free (received rs) \<longrightarrow> buf (read_buffer c') = received rs) \<and>
     (cstate c' = Closed \<longleftrightarrow> read_closes r) \<and>
     c' = c\<lparr>read_buffer := read_buffer c', cstate := cstate c'\<rparr> \<and>
     cout w' = cout w \<and> world.more w' = world.more w"
proof -
  let ?c1 = "c\<lparr>read_buffer := Buffer_ClearBuffer (read_buffer c)\<rparr>"
  from assms have "Connection_ReadNonBlocking os (?c1, w) = Some (x, (c', w'))"
    by (simp add: Connection_Read_def Let_def)
  from ReadNonBlocking_post [OF assms(1) this] obtain rs r where
    "x = Inr ()" "\<forall>q \<in> set rs. read_continues q" "\<not> read_continues r"
    "calls w' = calls w @ map (CRead (sock c) BUFFER_SIZE) (rs @ [r])"
    "c' = ?c1\<lparr>read_buffer := (read_buffer ?c1)\<lparr>buf := kept rs\<rparr>,
           cstate := (if read_closes r then Closed else cstate c)\<rparr>"
    "cout w' = cout w" "world.more w' = world.more w"
    unfolding read_post_def by (auto simp: Buffer_ClearBuffer_def)
  then show ?thesis
    using assms(2) kept_received by (intro exI [of _ rs] exI [of _ r]) auto
qed

text \<open>
  C26: when a non-blocking \<open>Read\<close> returns: exactly when the kernel, asked again and again, at some
  point gives an answer that is neither data nor an interruption. A peer that sends for ever keeps
  the handler in the loop for ever.
\<close>

theorem Read_nonblocking_returns_iff:
  assumes "read_bounded os" and "cstate c = Connected" and "Socket_IsNonBlocking os (sock c) w"
  shows "Connection_Read os (c, w) \<noteq> None \<longleftrightarrow>
    (\<exists>i. \<not> read_continues (read_at os (sock c) BUFFER_SIZE (kern w) i))"
proof -
  let ?c1 = "c\<lparr>read_buffer := Buffer_ClearBuffer (read_buffer c)\<rparr>"
  have "Connection_Read os (c, w) = Connection_ReadNonBlocking os (?c1, w)"
    using assms by (simp add: Connection_Read_def Let_def)
  then show ?thesis
    using ReadNonBlocking_returns_if [OF assms(1), of ?c1 w]
      ReadNonBlocking_returns_only_if [OF assms(1), of ?c1 w]
    by (cases "Connection_Read os (c, w)") auto
qed

lemma Write_loop_start:
  assumes "write_bounded os" and "length (buf (write_buffer c)) < 2 ^ 31"
    and "Connection_WriteNonBlocking os (c, w) = Some y"
  shows "write_post (buf (write_buffer c)) (int (length (buf (write_buffer c)))) (c, w) y"
proof -
  let ?b = "buf (write_buffer c)"
  have n: "to_int32 (Buffer_Size (write_buffer c)) = int (length ?b)"
    using assms(2) by (simp add: Buffer_Size_def to_int32_of_nat)
  have "Write_loop os ?b (int (length ?b)) (c, w) = Some y"
    using assms(3) by (simp add: Connection_WriteNonBlocking_def n Buffer_Cstr_def)
  from Write_loop_post [OF assms(1) this] show ?thesis by simp
qed

text \<open>
  C8: a non-blocking \<open>Write\<close>. What the kernel accepted is a prefix of the write buffer, in order and
  with nothing repeated; all of it when the loop ended by itself. When the socket would block,
  the connection stays connected; on another error it is closed. In every case the buffer is empty
  afterwards: the part that was not accepted is dropped.
\<close>

theorem Write_nonblocking_spec:
  assumes "write_bounded os" and "cstate c = Connected" and "Socket_IsNonBlocking os (sock c) w"
    and "length (buf (write_buffer c)) < 2 ^ 31"
    and "Connection_Write os (c, w) = Some (x, (c', w'))"
  shows "x = Inr () \<and> buf (write_buffer c') = [] \<and>
     (\<exists>cs sent e. calls w' = calls w @ cs \<and> sent \<le> length (buf (write_buffer c)) \<and>
        (\<forall>q \<in> set cs. \<exists>b r. q = CWrite (sock c) b r) \<and>
        bytes_written (sock c) cs = take sent (buf (write_buffer c)) \<and>
        ends_with (sock c) e cs \<and> (e = AllSent \<longrightarrow> sent = length (buf (write_buffer c))) \<and>
        cstate c' = (if e = Broken then Closed else Connected)) \<and>
     world.more w' = world.more w"
proof -
  let ?clear = "modify (\<lambda>(c, w). (c\<lparr>write_buffer := Buffer_ClearBuffer (write_buffer c)\<rparr>, w))"
  have "seqC (Connection_WriteNonBlocking os) ?clear (c, w) = Some (x, (c', w'))"
    using assms(2,3,5) by (simp add: Connection_Write_def)
  then obtain r c1 w1 where loop: "Connection_WriteNonBlocking os (c, w) = Some (r, (c1, w1))"
    and rest: "(\<exists>e. r = Inl e) \<or>
      r = Inr () \<and> x = Inr () \<and> c' = c1\<lparr>write_buffer := Buffer_ClearBuffer (write_buffer c1)\<rparr> \<and> w' = w1"
    by (auto elim!: seqC_Some_cases)
  from Write_loop_start [OF assms(1,4) loop] obtain cs sent e where
    post: "r = Inr ()" "world.more w1 = world.more w" "calls w1 = calls w @ cs"
      "sent \<le> length (buf (write_buffer c))" "\<forall>q \<in> set cs. \<exists>b r. q = CWrite (sock c) b r"
      "bytes_written (sock c) cs = take sent (buf (write_buffer c))"
      "ends_with (sock c) e cs" "e = AllSent \<longrightarrow> sent = length (buf (write_buffer c))"
      "c1 = write_end_state e c"
    unfolding write_post_def by auto
  with rest have fin: "x = Inr ()" "c' = c1\<lparr>write_buffer := Buffer_ClearBuffer (write_buffer c1)\<rparr>"
    "w' = w1" by simp_all
  then have "cstate c' = (if e = Broken then Closed else Connected)" "buf (write_buffer c') = []"
    using post(9) assms(2) by (simp_all add: write_end_state_def Buffer_ClearBuffer_def)
  with post fin show ?thesis by blast
qed

text \<open>
  A non-blocking \<open>Write\<close> returns under a kernel that does not interrupt or accept nothing for
  ever (\<open>patience\<close> bounds how long it does).
\<close>

theorem Write_nonblocking_returns:
  assumes "write_patience os (sock c) patience" and "Socket_IsNonBlocking os (sock c) w"
  shows "Connection_Write os (c, w) \<noteq> None"
proof -
  let ?n = "to_int32 (Buffer_Size (write_buffer c))"
  let ?clear = "modify (\<lambda>(c, w). (c\<lparr>write_buffer := Buffer_ClearBuffer (write_buffer c)\<rparr>, w))"
  have "Connection_WriteNonBlocking os (c, w) \<noteq> None"
    using Write_loop_returns [OF assms(1)] by (auto simp: Connection_WriteNonBlocking_def Let_def)
  then obtain r t where "Connection_WriteNonBlocking os (c, w) = Some (r, t)" by auto
  then have "seqC (Connection_WriteNonBlocking os) ?clear (c, w) \<noteq> None" by (cases r) auto
  then show ?thesis using assms(2) by (simp add: Connection_Write_def)
qed

text \<open>
  A blocking \<open>Write\<close> makes exactly one \<open>write\<close> call, so what a short write leaves over is
  dropped with the rest of the buffer; only an error closes the connection.
\<close>

theorem Write_blocking_spec:
  assumes "cstate c = Connected" and "\<not> Socket_IsNonBlocking os (sock c) w"
  shows "\<exists>r c' w'. Connection_Write os (c, w) = Some (Inr (), (c', w')) \<and>
     calls w' = calls w @ [CWrite (sock c) (buf (write_buffer c)) r] \<and>
     buf (write_buffer c') = [] \<and>
     cstate c' = (case r of SysOk n \<Rightarrow> Connected | SysErr e \<Rightarrow> Closed)"
proof -
  let ?b = "buf (write_buffer c)"
  obtain r w1 where wr: "do_write os (sock c) ?b w = (r, w1)" by force
  then have "calls w1 = calls w @ [CWrite (sock c) ?b r]"
    unfolding do_write_def by (rule syscall_frame(2))
  with wr assms show ?thesis
    by (cases r) (simp_all add: Connection_Write_def Connection_WriteBlocking_def Buffer_Cstr_def
        Buffer_Size_def Buffer_ClearBuffer_def)
qed

text \<open>
  A blocking \<open>Read\<close> makes one \<open>read\<close> call as large as the socket's receive buffer and keeps
  the bytes before the first NUL. At the end of the stream it keeps nothing and leaves the
  connection connected; only an error closes it.
\<close>

theorem Read_blocking_spec:
  assumes "read_bounded os" and "cstate c = Connected" and "\<not> Socket_IsNonBlocking os (sock c) w"
    and "sys_rcvbuf os (sock c) (kern w) < 2 ^ 31"
  shows "\<exists>r c' w'. Connection_Read os (c, w) = Some (Inr (), (c', w')) \<and>
     calls w' = calls w @ [CRead (sock c) (sys_rcvbuf os (sock c) (kern w)) r] \<and>
     buf (read_buffer c') = kept [r] \<and>
     cstate c' = (case r of SysOk bs \<Rightarrow> Connected | SysErr e \<Rightarrow> Closed)"
proof -
  let ?n = "sys_rcvbuf os (sock c) (kern w)"
  obtain r w1 where rd: "do_read os (sock c) ?n w = (r, w1)" by force
  then have calls: "calls w1 = calls w @ [CRead (sock c) ?n r]"
    unfolding do_read_def by (rule syscall_frame(2))
  show ?thesis
  proof (cases r)
    case (SysOk bs)
    with rd have "length bs \<le> ?n" by (auto intro: do_read_bounded [OF assms(1)])
    then have "to_int32 (int (length bs)) = int (length bs)"
      using assms(4) by (intro to_int32_of_nat) (rule le_less_trans)
    with SysOk rd calls assms(2,3) show ?thesis
      by (simp add: Connection_Read_def Connection_ReadBlocking_def Let_def
          Buffer_ClearBuffer_def Buffer_Append_sized_eq)
  next
    case (SysErr e)
    with rd calls assms(2,3) show ?thesis
      by (simp add: Connection_Read_def Connection_ReadBlocking_def Let_def Buffer_ClearBuffer_def)
  qed
qed

section \<open>The life of a connection\<close>

text \<open>
  What the application does to one connection object: the calls that reach its sockets and buffers, in any
  order.
\<close>

inductive conn_step :: "'k os \<Rightarrow> ('k, 'z) conn_world \<Rightarrow> ('k, 'z) conn_world \<Rightarrow> bool" for os where
  cs_read: "Connection_Read os s = Some (r, t) \<Longrightarrow> conn_step os s t"
| cs_write: "Connection_Write os s = Some (r, t) \<Longrightarrow> conn_step os s t"
| cs_set: "Connection_SetWriteBuffer str c = Inr c' \<Longrightarrow> conn_step os (c, w) (c', w)"
| cs_getline: "Connection_GetLineWriteBuffer input c = (c', rest) \<Longrightarrow> conn_step os (c, w) (c', w)"

inductive conn_steps :: "'k os \<Rightarrow> ('k, 'z) conn_world \<Rightarrow> ('k, 'z) conn_world \<Rightarrow> bool" for os where
  cs_refl: "conn_steps os s s"
| cs_step: "conn_steps os s t \<Longrightarrow> conn_step os t u \<Longrightarrow> conn_steps os s u"

lemma conn_step_disconnected:
  assumes "conn_step os s t" and "cstate (fst s) \<noteq> Connected"
  shows "cstate (fst t) = cstate (fst s) \<and> calls (snd t) = calls (snd s) \<and> kern (snd t) = kern (snd s)"
  using assms
  by (induction rule: conn_step.induct)
    (auto simp: Connection_Read_def Connection_Write_def Connection_SetWriteBuffer_def
      Connection_GetLineWriteBuffer_def split: sum.splits prod.splits if_splits)

text \<open>
  A connection that has left \<open>Connected\<close> stays where it is and never touches its socket again,
  whatever sequence of \<open>Read\<close>, \<open>Write\<close>, \<open>SetWriteBuffer\<close> and \<open>GetLineWriteBuffer\<close> follows.
\<close>

theorem disconnected_is_final:
  assumes "conn_steps os s t" and "cstate (fst s) \<noteq> Connected"
  shows "cstate (fst t) = cstate (fst s) \<and> calls (snd t) = calls (snd s)"
  using assms by (induction rule: conn_steps.induct) (auto dest: conn_step_disconnected)

end
