(* ===== verification/ScriptKernel.thy ===== *)
theory ScriptKernel
  imports EventLoop ConnectionIO
begin

text \<open>
  A concrete kernel, to evaluate the model on: it answers \<open>read\<close>, \<open>write\<close>, \<open>accept\<close> and
  \<open>epoll_wait\<close> from scripts (and with "would block" when a script has run out), keeps the flags of
  descriptors and the interest lists, and hands out fresh descriptors. It meets the documented
  behaviour the theorems assume, so their hypotheses can hold together.
\<close>

record script =
  sk_reads :: "string sysres list"
  sk_writes :: "nat sysres list"
  sk_accepts :: "int sysres list"
  sk_events :: "epoll_event list list"
  sk_flags :: "int \<Rightarrow> 32 word"
  sk_reg :: "int \<Rightarrow> int \<Rightarrow> epoll_event option"
  sk_next :: nat

definition script_read :: "int \<Rightarrow> nat \<Rightarrow> script \<Rightarrow> string sysres \<times> script" where
  "script_read fd n k = (case sk_reads k of
      [] \<Rightarrow> (SysErr EAGAIN, k)
    | SysOk bs # rs \<Rightarrow> (SysOk (take n bs), k\<lparr>sk_reads := rs\<rparr>)
    | SysErr e # rs \<Rightarrow> (SysErr e, k\<lparr>sk_reads := rs\<rparr>))"

definition script_write :: "int \<Rightarrow> string \<Rightarrow> script \<Rightarrow> nat sysres \<times> script" where
  "script_write fd bs k = (case sk_writes k of
      [] \<Rightarrow> (SysErr EAGAIN, k)
    | SysOk n # rs \<Rightarrow> (SysOk (min n (length bs)), k\<lparr>sk_writes := rs\<rparr>)
    | SysErr e # rs \<Rightarrow> (SysErr e, k\<lparr>sk_writes := rs\<rparr>))"

text \<open>A process has sixteen descriptors, and only an open one can be registered.\<close>

definition script_fds :: "int list" where
  "script_fds = [0, 1, 2, 3, 4, 5, 6, 7, 8, 9, 10, 11, 12, 13, 14, 15]"

definition script_lists :: "script \<Rightarrow> int \<Rightarrow> int \<Rightarrow> epoll_event option" where
  "script_lists k ep fd = (if ep \<in> set script_fds \<and> fd \<in> set script_fds then sk_reg k ep fd else None)"

definition script_accept :: "int \<Rightarrow> script \<Rightarrow> (int \<times> sockaddr_in \<times> 32 word) sysres \<times> script" where
  "script_accept fd k = (case sk_accepts k of
      [] \<Rightarrow> (SysErr EINTR, k)
    | SysOk c # rs \<Rightarrow>
        if list_all (\<lambda>ep. script_lists k ep c = None) script_fds
        then (SysOk (c, zero_addr, sizeof_sockaddr_in), k\<lparr>sk_accepts := rs\<rparr>)
        else (SysErr (EOTHER 24), k)
    | SysErr e # rs \<Rightarrow> (SysErr e, k\<lparr>sk_accepts := rs\<rparr>))"

definition script_wait :: "int \<Rightarrow> nat \<Rightarrow> int \<Rightarrow> script \<Rightarrow> epoll_event list sysres \<times> script" where
  "script_wait ep n timeout k = (case sk_events k of
      [] \<Rightarrow> (SysErr EINTR, k)
    | evs # es \<Rightarrow>
        (SysOk (take n (filter (\<lambda>e. list_ex
           (\<lambda>fd. map_option ev_ptr (script_lists k ep fd) = Some (ev_ptr e)) script_fds) evs)),
         k\<lparr>sk_events := es\<rparr>))"

definition script_ctl ::
  "int \<Rightarrow> ctl_op \<Rightarrow> int \<Rightarrow> epoll_event \<Rightarrow> script \<Rightarrow> unit sysres \<times> script" where
  "script_ctl ep op fd ev k =
     (if ep \<in> set script_fds \<and> fd \<in> set script_fds \<and> (op = EPOLL_CTL_ADD) = (sk_reg k ep fd = None)
      then (SysOk (), k\<lparr>sk_reg := (sk_reg k)(ep := (sk_reg k ep)(fd := Some ev))\<rparr>)
      else (SysErr (EOTHER 17), k))"

definition script_os :: "script os" where
  "script_os = \<lparr>
     sys_socket = (\<lambda>k. (SysOk (int (sk_next k)), k\<lparr>sk_next := sk_next k + 1\<rparr>)),
     sys_close = (\<lambda>fd k. k\<lparr>sk_reg := (\<lambda>ep. (sk_reg k ep)(fd := None))\<rparr>),
     sys_bind = (\<lambda>fd a n k. (SysOk (), k)),
     sys_listen = (\<lambda>fd k. (SysOk (), k)),
     sys_accept = script_accept,
     sys_connect = (\<lambda>fd a k. (SysOk (), k)),
     sys_getfl = (\<lambda>fd k. sk_flags k fd),
     sys_setfl = (\<lambda>fd fl k. k\<lparr>sk_flags := (sk_flags k)(fd := fl)\<rparr>),
     sys_rcvbuf = (\<lambda>fd k. 8192),
     sys_read = script_read,
     sys_write = script_write,
     sys_epoll_create = (\<lambda>k. (SysOk (int (sk_next k)), k\<lparr>sk_next := sk_next k + 1\<rparr>)),
     sys_epoll_ctl = script_ctl,
     sys_epoll_wait = script_wait\<rparr>"

definition script0 :: script where
  "script0 = \<lparr>sk_reads = [], sk_writes = [], sk_accepts = [], sk_events = [],
     sk_flags = (\<lambda>fd. 0), sk_reg = (\<lambda>ep fd. None), sk_next = 3\<rparr>"

definition nonblocking_script :: script where
  "nonblocking_script = script0\<lparr>sk_flags := (\<lambda>fd. O_NONBLOCK)\<rparr>"

definition world_of :: "script \<Rightarrow> script world" where
  "world_of k = \<lparr>kern = k, cout = [], calls = []\<rparr>"

definition conn0 :: connection where
  "conn0 = \<lparr>read_buffer = Buffer_init, write_buffer = Buffer_init, sock = 7, conn_channel = None,
     delete_connection_callback = None, on_connect_callback = None, on_message_callback = None,
     cstate = Connected\<rparr>"

lemma script_os_fields [simp]:
  "sys_socket script_os k = (SysOk (int (sk_next k)), k\<lparr>sk_next := sk_next k + 1\<rparr>)"
  "sys_close script_os fd k = k\<lparr>sk_reg := (\<lambda>ep. (sk_reg k ep)(fd := None))\<rparr>"
  "sys_bind script_os fd a n k = (SysOk (), k)"
  "sys_listen script_os fd k = (SysOk (), k)"
  "sys_accept script_os = script_accept"
  "sys_getfl script_os fd k = sk_flags k fd"
  "sys_setfl script_os fd fl k = k\<lparr>sk_flags := (sk_flags k)(fd := fl)\<rparr>"
  "sys_rcvbuf script_os fd k = 8192"
  "sys_read script_os = script_read"
  "sys_write script_os = script_write"
  "sys_epoll_create script_os k = (SysOk (int (sk_next k)), k\<lparr>sk_next := sk_next k + 1\<rparr>)"
  "sys_epoll_ctl script_os = script_ctl"
  "sys_epoll_wait script_os = script_wait"
  by (simp_all add: script_os_def)

lemmas script_defs = script_read_def script_write_def script_accept_def
  script_wait_def script_ctl_def script_lists_def script_fds_def

lemmas script_states = script0_def nonblocking_script_def world_of_def conn0_def

lemma script_read_bounded: "read_bounded script_os"
  by (auto simp: read_bounded_def script_defs split: list.splits sysres.splits)

lemma script_write_bounded: "write_bounded script_os"
  by (auto simp: write_bounded_def script_defs split: list.splits sysres.splits)

lemma script_write_patience: "write_patience script_os fd (\<lambda>k. length (sk_writes k))"
  by (auto simp: write_patience_def script_defs split: list.splits sysres.splits)

lemma script_epoll_contract: "epoll_ctl_contract script_os sk_reg"
  unfolding epoll_ctl_contract_def
  by (auto simp: script_ctl_def split: sysres.splits if_splits)

lemma nonblocking_script_flag [simp]:
  "Socket_IsNonBlocking script_os fd (world_of (nonblocking_script\<lparr>sk_reads := rs, sk_writes := ws\<rparr>))"
  by (simp add: Socket_IsNonBlocking_def script_states O_NONBLOCK_def)

section \<open>Witnesses of the reading and writing theorems\<close>

text \<open>Two chunks with an interruption between them, the second with a NUL, then the end of the stream.\<close>

definition read_script :: "string sysres list" where
  "read_script = [SysOk ''ab'', SysErr EINTR, SysOk [CHR ''c'', NUL, CHR ''d''], SysOk []]"

definition read_world :: "script world" where
  "read_world = world_of (nonblocking_script\<lparr>sk_reads := read_script, sk_writes := []\<rparr>)"

lemma append_local_lit:
  "int (length bs) = n \<Longrightarrow> length bs \<le> BUFFER_SIZE \<Longrightarrow>
   Buffer_Append_sized (local_buf bs) (to_int32 n) b = Inr (b\<lparr>buf := buf b @ before_nul bs\<rparr>)"
  using append_local_buf by blast

lemmas io_run = Connection_Read_def Connection_ReadNonBlocking.simps Connection_Write_def
  Connection_WriteNonBlocking_def Write_loop.simps do_read_def do_write_def syscall_def
  script_defs script_states Let_def append_local_lit Buffer_ClearBuffer_def Buffer_init_def
  Socket_IsNonBlocking_def O_NONBLOCK_def BUFFER_SIZE_def

lemma read_world_runs:
  "\<exists>c' w'. Connection_Read script_os (conn0, read_world) = Some (Inr (), (c', w'))"
  by (simp add: read_world_def read_script_def io_run)

end
