(* ===== verification/IOWitnesses.thy ===== *)
theory IOWitnesses
  imports ScriptKernel
begin

text \<open>
  The theorems on reading and writing, applied to runs under the scripted kernel.
\<close>

lemma scripted_flag [simp]:
  "Socket_IsNonBlocking script_os fd (world_of (nonblocking_script\<lparr>sk_reads := rs\<rparr>))"
  "Socket_IsNonBlocking script_os fd (world_of (nonblocking_script\<lparr>sk_writes := ws\<rparr>))"
  "\<not> Socket_IsNonBlocking script_os fd (world_of (script0\<lparr>sk_reads := rs\<rparr>))"
  "\<not> Socket_IsNonBlocking script_os fd (world_of (script0\<lparr>sk_writes := ws\<rparr>))"
  by (simp_all add: Socket_IsNonBlocking_def script_states O_NONBLOCK_def)

lemma conn0_fields [simp]: "cstate conn0 = Connected" "sock conn0 = 7"
  by (simp_all add: conn0_def)

definition hello_conn :: connection where
  "hello_conn = conn0\<lparr>write_buffer := Buffer_init\<lparr>buf := ''hello''\<rparr>\<rparr>"

lemma hello_conn_fields [simp]:
  "cstate hello_conn = Connected" "sock hello_conn = 7" "buf (write_buffer hello_conn) = ''hello''"
  by (simp_all add: hello_conn_def)

theorem Read_nonblocking_spec_witness:
  "\<exists>rs r c' w'. Connection_Read script_os (conn0, read_world) = Some (Inr (), (c', w')) \<and>
     buf (read_buffer c') = kept rs \<and> \<not> read_continues r \<and> (cstate c' = Closed \<longleftrightarrow> read_closes r)"
proof -
  obtain c' w' where run: "Connection_Read script_os (conn0, read_world) = Some (Inr (), (c', w'))"
    using read_world_runs by blast
  have "cstate conn0 = Connected" and "Socket_IsNonBlocking script_os (sock conn0) read_world"
    by (simp_all add: read_world_def)
  from Read_nonblocking_spec [OF script_read_bounded this run] run show ?thesis by blast
qed

theorem Read_nonblocking_returns_iff_witness:
  "Connection_Read script_os (conn0, read_world) \<noteq> None"
proof -
  have nb: "cstate conn0 = Connected" "Socket_IsNonBlocking script_os (sock conn0) read_world"
    by (simp_all add: read_world_def)
  have "read_at script_os 7 BUFFER_SIZE (kern read_world) (Suc (Suc (Suc 0))) = SysOk []"
    by (simp add: read_world_def script_states script_read_def read_script_def)
  then have "\<exists>i. \<not> read_continues (read_at script_os (sock conn0) BUFFER_SIZE (kern read_world) i)"
    by (intro exI [of _ "Suc (Suc (Suc 0))"]) simp
  with Read_nonblocking_returns_iff [OF script_read_bounded nb] show ?thesis by blast
qed

text \<open>The socket takes two bytes, is interrupted, takes one more and would then block.\<close>

definition write_world :: "script world" where
  "write_world = world_of (nonblocking_script\<lparr>sk_writes := [SysOk 2, SysErr EINTR, SysOk 1]\<rparr>)"

lemma write_world_runs:
  "\<exists>c' w'. Connection_Write script_os (hello_conn, write_world) = Some (Inr (), (c', w'))"
  by (simp add: write_world_def hello_conn_def io_run Buffer_Size_def Buffer_Cstr_def
      to_int32_of_nat [of 5, simplified])

theorem Write_nonblocking_spec_witness:
  "\<exists>c' w' cs sent e. Connection_Write script_os (hello_conn, write_world) = Some (Inr (), (c', w')) \<and>
     buf (write_buffer c') = [] \<and> calls w' = calls write_world @ cs \<and>
     bytes_written (sock hello_conn) cs = take sent (buf (write_buffer hello_conn)) \<and>
     (e = AllSent \<longrightarrow> sent = length (buf (write_buffer hello_conn))) \<and>
     cstate c' = (if e = Broken then Closed else Connected)"
proof -
  obtain c' w' where run: "Connection_Write script_os (hello_conn, write_world) = Some (Inr (), (c', w'))"
    using write_world_runs by blast
  have "cstate hello_conn = Connected" "Socket_IsNonBlocking script_os (sock hello_conn) write_world"
    "length (buf (write_buffer hello_conn)) < 2 ^ 31"
    by (simp_all add: write_world_def)
  from Write_nonblocking_spec [OF script_write_bounded this run] run show ?thesis by blast
qed

theorem Write_nonblocking_returns_witness:
  "Connection_Write script_os (hello_conn, write_world) \<noteq> None"
proof -
  have "Socket_IsNonBlocking script_os (sock hello_conn) write_world"
    by (simp add: write_world_def)
  with Write_nonblocking_returns [OF script_write_patience] show ?thesis by blast
qed

theorem Write_blocking_spec_witness:
  "\<exists>r c' w'. Connection_Write script_os (hello_conn, world_of (script0\<lparr>sk_writes := [SysOk 2]\<rparr>)) =
       Some (Inr (), (c', w')) \<and>
     calls w' = [CWrite 7 ''hello'' r] \<and> buf (write_buffer c') = []"
proof -
  let ?w = "world_of (script0\<lparr>sk_writes := [SysOk 2]\<rparr>)"
  have "cstate hello_conn = Connected" "\<not> Socket_IsNonBlocking script_os (sock hello_conn) ?w"
    by simp_all
  from Write_blocking_spec [OF this] show ?thesis by (simp add: world_of_def) blast
qed

theorem Read_blocking_spec_witness:
  "\<exists>r c' w'. Connection_Read script_os (conn0, world_of (script0\<lparr>sk_reads := [SysOk []]\<rparr>)) =
       Some (Inr (), (c', w')) \<and>
     buf (read_buffer c') = kept [r] \<and>
     cstate c' = (case r of SysOk bs \<Rightarrow> Connected | SysErr e \<Rightarrow> Closed)"
proof -
  let ?w = "world_of (script0\<lparr>sk_reads := [SysOk []]\<rparr>)"
  have "cstate conn0 = Connected" "\<not> Socket_IsNonBlocking script_os (sock conn0) ?w"
    "sys_rcvbuf script_os (sock conn0) (kern ?w) < 2 ^ 31"
    by simp_all
  from Read_blocking_spec [OF script_read_bounded this] show ?thesis by blast
qed

theorem disconnected_is_final_witness:
  "\<exists>t. conn_steps script_os (conn0\<lparr>cstate := Closed\<rparr>, read_world) t \<and>
     cstate (fst t) = Closed \<and> calls (snd t) = calls read_world \<and> cout (snd t) \<noteq> cout read_world"
proof -
  let ?s = "(conn0\<lparr>cstate := Closed\<rparr>, read_world)"
  let ?t = "(conn0\<lparr>cstate := Closed\<rparr>, print_out (''connection is disconnected'' @ endl) read_world)"
  have "Connection_Read script_os ?s = Some (Inr (), ?t)" by (simp add: Connection_Read_def)
  then have steps: "conn_steps script_os ?s ?t"
    by (intro cs_step [OF cs_refl] cs_read)
  from disconnected_is_final [OF this] steps show ?thesis
    by (intro exI [of _ ?t]) simp
qed

end
