(* ===== verification/Server.thy ===== *)
theory Server
  imports EventLoop Connection
begin

text \<open>
  \<open>Acceptor\<close> (\<open>acceptor.h\<close>, \<open>acceptor.cpp\<close>), the part of \<open>Connection\<close> that reaches the server, and
  \<open>Server\<close> (\<open>tcp_server.h\<close>, \<open>tcp_server.cpp\<close>). Connections are shared: they live in a heap
  \<open>conns\<close> with the use counts of their \<open>shared_ptr\<close>s, and the last owner to let go runs the
  destructor. The callbacks of the application are a parameter \<open>usr\<close>: they take the connection
  and may run any operation on the server's state. The handlers of the different reactors run one
  at a time: a state of the model is one between two handlers.
\<close>

section \<open>State\<close>

record acceptor =
  acc_sock :: int
  acc_channel :: nat
  has_new_connection_callback :: bool

record 'k server = "'k reactor" +
  conns :: "nat \<rightharpoonup> connection"
  use_count :: "nat \<Rightarrow> nat"
  connections :: "int \<rightharpoonup> nat"
  sub_reactors :: "nat list"
  main_reactor :: nat
  the_acceptor :: acceptor
  on_connection_cb :: "user_callback option"
  on_message_cb :: "user_callback option"
  pool_tasks :: "nat list"

type_synonym ('k, 'z) usr = "user_callback \<Rightarrow> nat \<Rightarrow> (('k, 'z) server_scheme, unit) cpp"

section \<open>Connections on the heap\<close>

text \<open>A method of \<open>Connection\<close> on the object at \<open>p\<close>, and a read of the object.\<close>

definition with_connection ::
  "nat \<Rightarrow> (connection \<times> ('k, 'z) server_scheme, unit) cpp \<Rightarrow> (('k, 'z) server_scheme, unit) cpp" where
  "with_connection p m = (\<lambda>s. case conns s p of
      None \<Rightarrow> Some (Inl (Undefined UseAfterFree), s)
    | Some c \<Rightarrow> (case m (c, s) of
        None \<Rightarrow> None
      | Some (r, (c', s')) \<Rightarrow> Some (r, s'\<lparr>conns := (conns s')(p \<mapsto> c')\<rparr>)))"

definition the_connection :: "nat \<Rightarrow> (('k, 'z) server_scheme, connection) cpp" where
  "the_connection p = (\<lambda>s. case conns s p of
      None \<Rightarrow> Some (Inl (Undefined UseAfterFree), s)
    | Some c \<Rightarrow> Some (Inr c, s))"

definition set_connection ::
  "nat \<Rightarrow> (connection \<Rightarrow> connection) \<Rightarrow> (('k, 'z) server_scheme, unit) cpp" where
  "set_connection p f = with_connection p (modify (\<lambda>(c, s). (f c, s)))"

text \<open>\<open>SetWriteBuffer\<close> on the object in the heap.\<close>

definition call_SetWriteBuffer :: "cptr \<Rightarrow> (connection \<times> ('k, 'z) world_scheme, unit) cpp" where
  "call_SetWriteBuffer str = (\<lambda>(c, w). case Connection_SetWriteBuffer str c of
      Inl e \<Rightarrow> Some (Inl e, (c, w))
    | Inr c' \<Rightarrow> Some (Inr (), (c', w)))"

text \<open>
  The destructor: the members go in the reverse order of their declaration, so \<open>channel_\<close> before
  \<open>sock_\<close>.
\<close>

definition delete_Connection :: "'k os \<Rightarrow> nat \<Rightarrow> (('k, 'z) server_scheme, unit) cpp" where
  "delete_Connection os p =
     bindC (the_connection p) (\<lambda>c.
     seqC (case conn_channel c of None \<Rightarrow> ret () | Some q \<Rightarrow> delete_Channel os q)
    (seqC (delete_Socket os (sock c))
          (modify (\<lambda>s. s\<lparr>conns := (conns s)(p := None)\<rparr>))))"

text \<open>Copying a \<open>shared_ptr\<close>, and dropping one.\<close>

definition share :: "nat \<Rightarrow> (('k, 'z) server_scheme, unit) cpp" where
  "share p = modify (\<lambda>s. s\<lparr>use_count := (use_count s)(p := Suc (use_count s p))\<rparr>)"

definition unshare :: "'k os \<Rightarrow> nat \<Rightarrow> (('k, 'z) server_scheme, unit) cpp" where
  "unshare os p =
     seqC (modify (\<lambda>s. s\<lparr>use_count := (use_count s)(p := use_count s p - 1)\<rparr>))
    (bindC (gets (\<lambda>s. use_count s p)) (\<lambda>n.
     if n = 0 then delete_Connection os p else ret ()))"

text \<open>\<open>shared_from_this\<close>: a new owner, if there is one already.\<close>

definition shared_from_this :: "nat \<Rightarrow> (('k, 'z) server_scheme, unit) cpp" where
  "shared_from_this p =
     bindC (gets (\<lambda>s. use_count s p)) (\<lambda>n. if n = 0 then throw BadWeakPtr else share p)"

text \<open>
  The constructor. It creates a socket of its own and then overwrites its descriptor. When
  registering the channel throws, the channel and the socket built so far are destroyed.
\<close>

definition new_Connection :: "'k os \<Rightarrow> nat option \<Rightarrow> int \<Rightarrow> (('k, 'z) server_scheme, nat) cpp" where
  "new_Connection os loop fd =
     bindC (new_Socket os) (\<lambda>own_fd.
     bindC (case loop of
              None \<Rightarrow> ret None
            | Some l \<Rightarrow>
                bindC (new_Channel l fd) (\<lambda>q.
                seqC (unwinding (seqC (Channel_EnableRead os q) (Channel_UseET os q))
                                (seqC (delete_Channel os q) (delete_Socket os fd)))
                     (ret (Some q)))) (\<lambda>ch s.
     Some (Inr (next_ptr s),
       s\<lparr>conns := (conns s)(next_ptr s \<mapsto>
           \<lparr>read_buffer = Buffer_init, write_buffer = Buffer_init, sock = fd, conn_channel = ch,
            delete_connection_callback = None, on_connect_callback = None,
            on_message_callback = None, cstate = Connected\<rparr>),
         next_ptr := Suc (next_ptr s)\<rparr>)))"

definition Connection_SetDeleteConnectionCallBack ::
  "nat \<Rightarrow> delete_callback option \<Rightarrow> (('k, 'z) server_scheme, unit) cpp" where
  "Connection_SetDeleteConnectionCallBack p func =
     set_connection p (\<lambda>c. c\<lparr>delete_connection_callback := func\<rparr>)"

definition Connection_SetOnConnectCallBack ::
  "nat \<Rightarrow> user_callback option \<Rightarrow> (('k, 'z) server_scheme, unit) cpp" where
  "Connection_SetOnConnectCallBack p func = set_connection p (\<lambda>c. c\<lparr>on_connect_callback := func\<rparr>)"

definition Connection_SetOnMessageCallBack ::
  "nat \<Rightarrow> user_callback option \<Rightarrow> (('k, 'z) server_scheme, unit) cpp" where
  "Connection_SetOnMessageCallBack p func =
     seqC (set_connection p (\<lambda>c. c\<lparr>on_message_callback := func\<rparr>))
    (bindC (the_connection p) (\<lambda>c.
     case conn_channel c of
       None \<Rightarrow> throw (Undefined NullDeref)
     | Some q \<Rightarrow> Channel_SetReadCallBack q (Some (BusinessLogicCb p))))"

section \<open>Handlers\<close>

definition Server_DeleteConnection :: "'k os \<Rightarrow> int \<Rightarrow> (('k, 'z) server_scheme, unit) cpp" where
  "Server_DeleteConnection os fd =
     seqC (modify (print_out (''delete registered connection instance'' @ endl)))
    (if fd \<noteq> -1 then
       bindC (gets (\<lambda>s. connections s fd)) (\<lambda>it.
       case it of
         None \<Rightarrow> ret ()
       | Some p \<Rightarrow>
           seqC (modify (\<lambda>s. s\<lparr>connections := (connections s)(fd := None)\<rparr>)) (unshare os p))
     else ret ())"

definition Connection_Close :: "'k os \<Rightarrow> nat \<Rightarrow> (('k, 'z) server_scheme, unit) cpp" where
  "Connection_Close os p =
     bindC (the_connection p) (\<lambda>c.
     case delete_connection_callback c of
       None \<Rightarrow> throw BadFunctionCall
     | Some DeleteConnectionCb \<Rightarrow> Server_DeleteConnection os (sock c))"

text \<open>\<open>BusinessLogic\<close>: the temporary \<open>shared_ptr\<close> lives until the callback is done.\<close>

definition Connection_BusinessLogic ::
  "'k os \<Rightarrow> ('k, 'z) usr \<Rightarrow> nat \<Rightarrow> (('k, 'z) server_scheme, unit) cpp" where
  "Connection_BusinessLogic os usr p =
     seqC (with_connection p (Connection_Read os))
    (bindC (the_connection p) (\<lambda>c.
     seqC (shared_from_this p)
          (scoped (case on_message_callback c of
                     None \<Rightarrow> throw BadFunctionCall
                   | Some u \<Rightarrow> usr u p)
                  (unshare os p))))"

text \<open>The reactor a descriptor is given to: \<open>fd % size\<close>, where \<open>fd\<close> becomes a \<open>size_t\<close>.\<close>

definition reactor_of :: "int \<Rightarrow> nat \<Rightarrow> nat" where
  "reactor_of fd n = nat ((fd mod 2 ^ 64) mod int n)"

definition Server_NewConnection ::
  "'k os \<Rightarrow> ('k, 'z) usr \<Rightarrow> int \<Rightarrow> (('k, 'z) server_scheme, unit) cpp" where
  "Server_NewConnection os usr fd =
     seqC (Errif (fd = -1) ''invalid socket fd'')
    (bindC (gets sub_reactors) (\<lambda>rs.
     if length rs = 0 then throw (Undefined DivByZero)
     else
       bindC (new_Connection os (Some (rs ! reactor_of fd (length rs))) fd) (\<lambda>p.
       seqC (Connection_SetDeleteConnectionCallBack p (Some DeleteConnectionCb))
      (bindC (gets on_message_cb) (\<lambda>func.
       seqC (Connection_SetOnMessageCallBack p func)
      (bindC (gets (\<lambda>s. connections s fd)) (\<lambda>old.
       seqC (modify (\<lambda>s. s\<lparr>connections := (connections s)(fd \<mapsto> p),
                           use_count := (use_count s)(p := 1)\<rparr>))
      (seqC (case old of None \<Rightarrow> ret () | Some q \<Rightarrow> unshare os q)
      (bindC (gets on_connection_cb) (\<lambda>cb.
       case cb of
         None \<Rightarrow> ret ()
       | Some u \<Rightarrow> seqC (share p) (scoped (usr u p) (unshare os p))))))))))))"

definition Acceptor_AcceptConnection ::
  "'k os \<Rightarrow> ('k, 'z) usr \<Rightarrow> (('k, 'z) server_scheme, unit) cpp" where
  "Acceptor_AcceptConnection os usr =
     bindC (gets the_acceptor) (\<lambda>acc.
     bindC (Socket_Accept os (acc_sock acc) InetAddress_init) (\<lambda>(fd, clnt_addr).
     bindC (Socket_of_fd fd) (\<lambda>clnt_sock.
     seqC (Socket_Setnonblocking os clnt_sock)
          (if has_new_connection_callback acc then Server_NewConnection os usr clnt_sock
           else throw BadFunctionCall))))"

text \<open>What the callbacks of channels run.\<close>

fun run_callback ::
  "'k os \<Rightarrow> ('k, 'z) usr \<Rightarrow> callback \<Rightarrow> (('k, 'z) server_scheme, unit) cpp" where
  "run_callback os usr AcceptConnectionCb = Acceptor_AcceptConnection os usr"
| "run_callback os usr (BusinessLogicCb p) = Connection_BusinessLogic os usr p"

section \<open>Setting up and starting\<close>

definition new_Acceptor :: "'k os \<Rightarrow> nat \<Rightarrow> inet_address \<Rightarrow>
    (('k, 'z) server_scheme, acceptor) cpp" where
  "new_Acceptor os loop ia =
     bindC (new_Socket os) (\<lambda>fd.
     bindC (unwinding (bindC (Socket_Bind os fd ia) (\<lambda>ia'. Socket_Listen os fd))
                      (delete_Socket os fd)) (\<lambda>_.
     bindC (new_Channel loop fd) (\<lambda>q.
     seqC (Channel_SetReadCallBack q (Some AcceptConnectionCb))
    (seqC (unwinding (Channel_EnableRead os q)
                     (seqC (delete_Channel os q) (delete_Socket os fd)))
          (ret \<lparr>acc_sock = fd, acc_channel = q, has_new_connection_callback = False\<rparr>)))))"

definition Acceptor_SetNewConnectionCallBack :: "acceptor \<Rightarrow> acceptor" where
  "Acceptor_SetNewConnectionCallBack a = a\<lparr>has_new_connection_callback := True\<rparr>"

fun new_EventLoops :: "'k os \<Rightarrow> nat \<Rightarrow> (('k, 'z) server_scheme, nat list) cpp" where
  "new_EventLoops os 0 = ret []"
| "new_EventLoops os (Suc n) =
     bindC (new_EventLoop os) (\<lambda>l. bindC (new_EventLoops os n) (\<lambda>ls. ret (l # ls)))"

text \<open>
  The constructor: \<open>hw\<close> is \<open>std::thread::hardware_concurrency()\<close>, which may be 0. A fault in it
  leaves the constructor and, in every program of the repository, \<open>main\<close>.
\<close>

definition Server_init :: "'k os \<Rightarrow> (string \<Rightarrow> 32 word) \<Rightarrow> nat \<Rightarrow> string \<Rightarrow> 16 word \<Rightarrow>
    (('k, 'z) server_scheme, unit) cpp" where
  "Server_init os inet_addr hw ip port =
     bindC (new_EventLoop os) (\<lambda>main.
     seqC (modify (\<lambda>s. s\<lparr>main_reactor := main\<rparr>))
    (bindC (new_Acceptor os main (InetAddress_make inet_addr ip port)) (\<lambda>a.
     seqC (modify (\<lambda>s. s\<lparr>the_acceptor := Acceptor_SetNewConnectionCallBack a\<rparr>))
    (seqC (modify (\<lambda>s. s\<lparr>pool_tasks := []\<rparr>))
    (bindC (new_EventLoops os hw) (\<lambda>ls.
     modify (\<lambda>s. s\<lparr>sub_reactors := ls\<rparr>)))))))"

definition Server_SetOnConnectCallback :: "user_callback option \<Rightarrow> (('k, 'z) server_scheme, unit) cpp" where
  "Server_SetOnConnectCallback func = modify (\<lambda>s. s\<lparr>on_connection_cb := func\<rparr>)"

definition Server_SetOnMessageCallback :: "user_callback option \<Rightarrow> (('k, 'z) server_scheme, unit) cpp" where
  "Server_SetOnMessageCallback func = modify (\<lambda>s. s\<lparr>on_message_cb := func\<rparr>)"

text \<open>
  \<open>Start\<close>: the loop of every sub reactor becomes a task of the thread pool, then the main reactor
  loops in the calling thread.
\<close>

fun add_loops :: "nat list \<Rightarrow> (('k, 'z) server_scheme, unit) cpp" where
  "add_loops [] = ret ()"
| "add_loops (l # ls) =
     seqC (modify (\<lambda>s. s\<lparr>pool_tasks := pool_tasks s @ [l]\<rparr>)) (add_loops ls)"

definition Server_Start :: "'k os \<Rightarrow> ('k, 'z) usr \<Rightarrow> (('k, 'z) server_scheme, unit) cpp" where
  "Server_Start os usr =
     seqC (bindC (gets sub_reactors) add_loops)
    (bindC (gets main_reactor) (\<lambda>l. EventLoop_Loop os (run_callback os usr) l))"

lemma add_loops_at: "add_loops ls s = Some (Inr (), s\<lparr>pool_tasks := pool_tasks s @ ls\<rparr>)"
  by (induction ls arbitrary: s) simp_all

section \<open>Destroying\<close>

text \<open>The acceptor's members go in the reverse order of their declaration: \<open>channel_\<close>, then \<open>sock_\<close>.\<close>

definition delete_Acceptor :: "'k os \<Rightarrow> acceptor \<Rightarrow> (('k, 'z) server_scheme, unit) cpp" where
  "delete_Acceptor os a = seqC (delete_Channel os (acc_channel a)) (delete_Socket os (acc_sock a))"

text \<open>The body of the server's destructor deletes the sub reactors; the loop over the vector.\<close>

fun delete_EventLoops :: "'k os \<Rightarrow> nat list \<Rightarrow> (('k, 'z) server_scheme, unit) cpp" where
  "delete_EventLoops os [] = ret ()"
| "delete_EventLoops os (l # ls) = seqC (delete_EventLoop os l) (delete_EventLoops os ls)"

definition Server_destroy_loops :: "'k os \<Rightarrow> (('k, 'z) server_scheme, unit) cpp" where
  "Server_destroy_loops os = bindC (gets sub_reactors) (delete_EventLoops os)"

text \<open>
  The map lets go of its connections, in an order the library chooses: \<open>fds\<close>, a list of its keys.
\<close>

fun clear_connections :: "'k os \<Rightarrow> int list \<Rightarrow> (('k, 'z) server_scheme, unit) cpp" where
  "clear_connections os [] = ret ()"
| "clear_connections os (fd # fds) =
     seqC (bindC (gets (\<lambda>s. connections s fd)) (\<lambda>it.
             case it of
               None \<Rightarrow> ret ()
             | Some p \<Rightarrow>
                 seqC (modify (\<lambda>s. s\<lparr>connections := (connections s)(fd := None)\<rparr>)) (unshare os p)))
          (clear_connections os fds)"

text \<open>
  The destructor of the pool joins its workers. The tasks of this pool are loops that never return,
  so it returns exactly when it was given none; that this is what the pool does is the subject of
  \<open>Reactors\<close>.
\<close>

definition join_pool :: "(('k, 'z) server_scheme, unit) cpp" where
  "join_pool = (\<lambda>s. if pool_tasks s = [] then Some (Inr (), s) else None)"

text \<open>
  The destructor: its body, then the members in the reverse order of their declaration, the
  callbacks and the address without effect: \<open>connections_\<close>, \<open>threadpool_\<close>, \<open>acceptor_\<close>,
  \<open>main_reactor_\<close>.
\<close>

definition delete_Server :: "'k os \<Rightarrow> int list \<Rightarrow> (('k, 'z) server_scheme, unit) cpp" where
  "delete_Server os fds =
     seqC (Server_destroy_loops os)
    (seqC (clear_connections os fds)
    (seqC join_pool
    (seqC (bindC (gets the_acceptor) (delete_Acceptor os))
          (bindC (gets main_reactor) (delete_EventLoop os)))))"

end
