(* ===== verification/ServerInvariant.thy ===== *)
theory ServerInvariant
  imports Server ConnectionIO
begin

text \<open>
  The invariant of the server between two handlers: which objects are alive, who owns them, and
  which callbacks point where; and that every handler keeps it, whatever the application's
  callbacks do as long as they keep it too.
\<close>

unbundle bit_operations_syntax

section \<open>The invariant\<close>

definition read_mask :: "32 word" where
  "read_mask = EPOLLIN OR EPOLLPRI OR EPOLLET"

text \<open>
  Every channel belongs to a loop that exists and never asks to be told about writing, so that the
  write callback, which nothing ever sets, is never needed; a channel that runs \<open>BusinessLogic\<close>
  of a connection is the channel of that connection, and the connection exists.
\<close>

definition chan_ok :: "('k, 'z) server_scheme \<Rightarrow> nat \<Rightarrow> channel \<Rightarrow> bool" where
  "chan_ok s q ch \<longleftrightarrow> q < next_ptr s \<and> write_callback ch = None \<and>
     listen_events ch AND NOT read_mask = 0 \<and> event_loops s (ch_loop ch) \<noteq> None \<and>
     (\<forall>p. read_callback ch = Some (BusinessLogicCb p) \<longrightarrow>
        (\<exists>c. conns s p = Some c \<and> conn_channel c = Some q))"

definition channels_ok :: "('k, 'z) server_scheme \<Rightarrow> bool" where
  "channels_ok s \<longleftrightarrow> (\<forall>q ch. channels s q = Some ch \<longrightarrow> chan_ok s q ch)"

text \<open>
  Every connection owns a channel on its own descriptor, shared neither with another connection
  nor with the acceptor.
\<close>

definition conn_ok :: "('k, 'z) server_scheme \<Rightarrow> nat \<Rightarrow> connection \<Rightarrow> bool" where
  "conn_ok s p c \<longleftrightarrow> p < next_ptr s \<and>
     (\<exists>q ch. conn_channel c = Some q \<and> channels s q = Some ch \<and> ch_fd ch = sock c \<and>
        q \<noteq> acc_channel (the_acceptor s)) \<and>
     (\<forall>p' c'. conns s p' = Some c' \<longrightarrow> conn_channel c' = conn_channel c \<longrightarrow> p' = p)"

definition conns_ok :: "('k, 'z) server_scheme \<Rightarrow> bool" where
  "conns_ok s \<longleftrightarrow> (\<forall>p c. conns s p = Some c \<longrightarrow> conn_ok s p c)"

text \<open>
  The use count of a connection counts the map of the server and the \<open>held\<close> references of running
  handlers; a connection without an owner does not exist, unless it is one of the \<open>fresh\<close> ones
  still under construction; the map files a connection under its descriptor.
\<close>

definition owners_ok :: "nat set \<Rightarrow> (nat \<Rightarrow> nat) \<Rightarrow> ('k, 'z) server_scheme \<Rightarrow> bool" where
  "owners_ok fresh held s \<longleftrightarrow>
     (\<forall>p. held p + (if p \<in> ran (connections s) then 1 else 0) \<le> use_count s p) \<and>
     (\<forall>p. 0 < use_count s p \<longrightarrow> conns s p \<noteq> None) \<and>
     (\<forall>p. conns s p \<noteq> None \<longrightarrow> p \<notin> fresh \<longrightarrow> 0 < use_count s p) \<and>
     (\<forall>fd p c. connections s fd = Some p \<longrightarrow> conns s p = Some c \<longrightarrow> sock c = fd)"

text \<open>The acceptor has its channel, the reactors' loops exist, and no loop has been told to stop.\<close>

definition reactors_ok :: "('k, 'z) server_scheme \<Rightarrow> bool" where
  "reactors_ok s \<longleftrightarrow> channels s (acc_channel (the_acceptor s)) \<noteq> None \<and> sub_reactors s \<noteq> [] \<and>
     (\<forall>l \<in> insert (main_reactor s) (set (sub_reactors s)). event_loops s l \<noteq> None) \<and>
     (\<forall>l el. event_loops s l = Some el \<longrightarrow> \<not> el_quit el)"

definition server_wf :: "nat set \<Rightarrow> (nat \<Rightarrow> nat) \<Rightarrow> ('k, 'z) server_scheme \<Rightarrow> bool" where
  "server_wf fresh held s \<longleftrightarrow> channels_ok s \<and> conns_ok s \<and> owners_ok fresh held s \<and> reactors_ok s"

lemmas wf_defs = server_wf_def channels_ok_def chan_ok_def conns_ok_def conn_ok_def owners_ok_def
  reactors_ok_def

subsection \<open>What the invariant says of one object\<close>

lemma wf_conn:
  assumes "server_wf fresh held s" and "conns s p = Some c"
  obtains q ch where "conn_channel c = Some q" "channels s q = Some ch" "ch_fd ch = sock c"
    "q \<noteq> acc_channel (the_acceptor s)" "p < next_ptr s"
  using assms unfolding server_wf_def conns_ok_def conn_ok_def by blast

lemma wf_conn_channel_inj:
  "server_wf fresh held s \<Longrightarrow> conns s p = Some c \<Longrightarrow> conns s p' = Some c' \<Longrightarrow>
   conn_channel c' = conn_channel c \<Longrightarrow> p' = p"
  unfolding server_wf_def conns_ok_def conn_ok_def by blast

lemma wf_chan: "server_wf fresh held s \<Longrightarrow> channels s q = Some ch \<Longrightarrow> chan_ok s q ch"
  unfolding server_wf_def channels_ok_def by blast

lemma wf_mapped:
  assumes "server_wf fresh held s" and "connections s fd = Some p"
  shows "0 < use_count s p" and "Suc (held p) \<le> use_count s p" and "conns s p \<noteq> None"
proof -
  have "p \<in> ran (connections s)" using assms(2) by (rule ranI)
  then have "held p + 1 \<le> use_count s p"
    using assms(1) unfolding server_wf_def owners_ok_def by (auto dest: spec [of _ p])
  then show "Suc (held p) \<le> use_count s p" and "0 < use_count s p" by simp_all
  then show "conns s p \<noteq> None" using assms(1) unfolding server_wf_def owners_ok_def by blast
qed

lemma wf_mapped_sock:
  "server_wf fresh held s \<Longrightarrow> connections s fd = Some p \<Longrightarrow> conns s p = Some c \<Longrightarrow> sock c = fd"
  unfolding server_wf_def owners_ok_def by blast

lemma wf_held: "server_wf fresh held s \<Longrightarrow> held p \<le> use_count s p"
  unfolding server_wf_def owners_ok_def by (auto dest: spec [of _ p] split: if_splits)

lemma wf_counted: "server_wf fresh held s \<Longrightarrow> 0 < use_count s p \<Longrightarrow> conns s p \<noteq> None"
  unfolding server_wf_def owners_ok_def by blast

lemma wf_owned: "server_wf {} held s \<Longrightarrow> conns s p \<noteq> None \<Longrightarrow> 0 < use_count s p"
  unfolding server_wf_def owners_ok_def by blast

lemma wf_loop:
  "server_wf fresh held s \<Longrightarrow> l \<in> insert (main_reactor s) (set (sub_reactors s)) \<Longrightarrow>
   \<exists>el. event_loops s l = Some el \<and> \<not> el_quit el"
  unfolding server_wf_def reactors_ok_def by (metis not_None_eq)

subsection \<open>System calls and output\<close>

text \<open>The invariant is about the heap of the program alone.\<close>

lemma world_more_eq:
  "world.more t = world.more s \<Longrightarrow> t = s\<lparr>kern := kern t, cout := cout t, calls := calls t\<rparr>"
  by (cases s; cases t) simp

lemma wf_world:
  fixes s t :: "('k, 'z) server_scheme"
  assumes "world.more t = world.more s"
  shows "server_wf fresh held t = server_wf fresh held s"
  by (subst world_more_eq [OF assms]) (simp add: wf_defs)

lemma world_more_fields:
  fixes s t :: "('k, 'z) server_scheme"
  assumes "world.more t = world.more s"
  shows "conns t = conns s" "channels t = channels s" "event_loops t = event_loops s"
    "connections t = connections s" "use_count t = use_count s" "next_ptr t = next_ptr s"
    "the_acceptor t = the_acceptor s" "sub_reactors t = sub_reactors s"
    "main_reactor t = main_reactor s"
  by (subst world_more_eq [OF assms], simp)+

text \<open>How a handler may end: with an exception other than \<open>bad_weak_ptr\<close>, the invariant kept.\<close>

definition tolerated :: "fault \<Rightarrow> bool" where
  "tolerated e \<longleftrightarrow> (is_exception e \<and> e \<noteq> BadWeakPtr) \<or> e = Undefined BadVlaSize"

definition fails :: "(nat \<Rightarrow> nat) \<Rightarrow> fault \<Rightarrow> ('k, 'z) server_scheme \<Rightarrow> bool" where
  "fails held e s \<longleftrightarrow> tolerated e \<and> (is_exception e \<longrightarrow> server_wf {} held s)"

lemma tolerated_simps [simp]:
  "tolerated (RuntimeError m)" "tolerated BadFunctionCall" "\<not> tolerated BadWeakPtr"
  "tolerated InvalidArgument" "tolerated OutOfRange"
  "tolerated (Undefined u) \<longleftrightarrow> u = BadVlaSize"
  by (simp_all add: tolerated_def)

definition world_only :: "('s \<Rightarrow> 't) \<Rightarrow> ('s, 'a) cpp \<Rightarrow> bool" where
  "world_only rest m \<longleftrightarrow> (\<forall>s r t. m s = Some (r, t) \<longrightarrow>
     rest t = rest s \<and> (\<forall>e. r = Inl e \<longrightarrow> (\<exists>msg. e = RuntimeError msg)))"

lemma world_onlyD:
  assumes "world_only rest m" and "m s = Some (r, t)"
  shows "rest t = rest s" and "r = Inl e \<Longrightarrow> \<exists>msg. e = RuntimeError msg"
  using assms unfolding world_only_def by blast+

lemma triple_world:
  assumes "world_only world.more m"
  shows "triple (server_wf {} held) m (\<lambda>x. server_wf {} held) (fails held)"
proof (rule tripleI)
  fix s x t
  assume "server_wf {} held s" and "m s = Some (Inr x, t)"
  then show "server_wf {} held t" using wf_world [OF world_onlyD(1) [OF assms]] by blast
next
  fix s e t
  assume wf: "server_wf {} held s" and run: "m s = Some (Inl e, t)"
  then have "server_wf {} held t" using wf_world [OF world_onlyD(1) [OF assms]] by blast
  then show "fails held e t"
    using world_onlyD(2) [OF assms run refl] by (auto simp: fails_def)
qed


text \<open>The operations on sockets only touch the world.\<close>

lemma world_only_rules:
  "world_only rest (ret x)"
  "world_only rest (throw (RuntimeError msg))"
  "world_only rest (Errif cond msg)"
  "(\<And>s. rest (h s) = rest s) \<Longrightarrow> world_only rest (modify h)"
  "(\<And>s r t. f s = (r, t) \<Longrightarrow> rest t = rest s) \<Longrightarrow> world_only rest (total f)"
  by (auto simp: world_only_def Errif_def total_def split: prod.splits)

lemma world_only_bindC:
  assumes "world_only rest m" and "\<And>x. world_only rest (f x)"
  shows "world_only rest (bindC m f)"
  unfolding world_only_def
proof (intro allI impI)
  fix s r u
  assume "bindC m f s = Some (r, u)"
  then show "rest u = rest s \<and> (\<forall>e. r = Inl e \<longrightarrow> (\<exists>msg. e = RuntimeError msg))"
  proof (cases rule: bindC_Some_cases)
    case (1 e)
    then show ?thesis using assms(1) unfolding world_only_def by fastforce
  next
    case (2 x t)
    then have "rest t = rest s" using world_onlyD(1) [OF assms(1)] by blast
    moreover have "rest u = rest t" using world_onlyD(1) [OF assms(2)] 2 by blast
    ultimately show ?thesis using world_onlyD(2) [OF assms(2) 2(2)] by simp
  qed
qed

lemma world_only_seqC:
  "world_only rest m \<Longrightarrow> world_only rest n \<Longrightarrow> world_only rest (seqC m n)"
  by (simp add: seqC_def world_only_bindC)

lemma world_only_new_Socket: "world_only world.more (new_Socket os)"
  unfolding new_Socket_def
  by (intro world_only_bindC world_only_rules)
    (auto simp: do_socket_def intro: syscall_frame world_only_rules split: sysres.splits)

lemma world_only_delete_Socket: "world_only world.more (delete_Socket os fd)"
  unfolding delete_Socket_def by (auto intro: world_only_rules)

lemma world_only_Socket_of_fd: "world_only world.more (Socket_of_fd fd)"
  unfolding Socket_of_fd_def by (intro world_only_seqC world_only_rules)

lemma world_only_Setnonblocking: "world_only world.more (Socket_Setnonblocking os fd)"
  unfolding Socket_Setnonblocking_def by (rule world_only_rules) simp

lemma world_only_Accept_loop:
  fixes rest :: "('k, 'z) world_scheme \<Rightarrow> 't"
  assumes "\<And>s r t. do_accept os fd s = (r, t) \<Longrightarrow> rest t = rest s"
  shows "world_only rest (Accept_loop os fd)"
  unfolding world_only_def
proof (intro allI impI)
  fix s :: "('k, 'z) world_scheme" and r t
  assume run: "Accept_loop os fd s = Some (r, t)"
  have "os = os \<longrightarrow> fd = fd \<longrightarrow> rest (snd (r, t)) = rest s \<and>
    (\<forall>e. fst (r, t) = Inl e \<longrightarrow> (\<exists>msg. e = RuntimeError msg))"
  proof (rule Accept_loop.raw_induct [where P = "\<lambda>os' fd' w y. os' = os \<longrightarrow> fd' = fd \<longrightarrow>
      rest (snd y) = rest w \<and> (\<forall>e. fst y = Inl e \<longrightarrow> (\<exists>msg. e = RuntimeError msg))", OF _ run],
      intro impI)
    fix loop os' fd' and w :: "('k, 'z) world_scheme" and y
    assume IH: "\<And>os' fd' w y. loop os' fd' w = Some y \<Longrightarrow> os' = os \<longrightarrow> fd' = fd \<longrightarrow>
        rest (snd y) = rest w \<and> (\<forall>e. fst y = Inl e \<longrightarrow> (\<exists>msg. e = RuntimeError msg))"
      and eq: "(case do_accept os' fd' w of (r, w1) \<Rightarrow>
        (case r of
           SysOk c \<Rightarrow> Some (Inr c, w1)
         | SysErr e \<Rightarrow>
             if e = EAGAIN \<or> e = EWOULDBLOCK then loop os' fd' w1
             else Some (Inl (RuntimeError ''socket accept error''), w1))) = Some y"
      and same: "os' = os" "fd' = fd"
    obtain r w1 where acc: "do_accept os fd w = (r, w1)" by force
    with assms have "rest w1 = rest w" by blast
    then show "rest (snd y) = rest w \<and> (\<forall>e. fst y = Inl e \<longrightarrow> (\<exists>msg. e = RuntimeError msg))"
      using eq acc same IH by (auto split: sysres.splits if_splits)
  qed
  then show "rest t = rest s \<and> (\<forall>e. r = Inl e \<longrightarrow> (\<exists>msg. e = RuntimeError msg))"
    by simp
qed

lemma world_only_Accept_rest:
  assumes "\<And>s r t. do_accept os fd s = (r, t) \<Longrightarrow> rest t = rest s"
  shows "world_only rest (Socket_Accept os fd ia)"
  unfolding Socket_Accept_def
proof (rule world_only_bindC)
  show "world_only rest (\<lambda>w.
     if Socket_IsNonBlocking os fd w then Accept_loop os fd w
     else (case do_accept os fd w of (r, w1) \<Rightarrow>
             (case r of
                SysOk c \<Rightarrow> Some (Inr c, w1)
              | SysErr e \<Rightarrow> Some (Inl (RuntimeError ''socket accept error''), w1))))"
    using world_only_Accept_loop [of os fd rest] assms
    by (auto simp: world_only_def split: if_splits sysres.splits prod.splits)
qed (auto intro: world_only_rules)

lemma world_only_Accept: "world_only world.more (Socket_Accept os fd ia)"
  by (rule world_only_Accept_rest) (auto simp: do_accept_def dest: syscall_frame)


section \<open>Reading inside a handler\<close>

text \<open>What the methods of one connection leave alone: its socket, channel and callbacks.\<close>

definition same_links :: "connection \<Rightarrow> connection \<Rightarrow> bool" where
  "same_links c c' \<longleftrightarrow> sock c' = sock c \<and> conn_channel c' = conn_channel c \<and>
     delete_connection_callback c' = delete_connection_callback c \<and>
     on_connect_callback c' = on_connect_callback c \<and>
     on_message_callback c' = on_message_callback c"

lemma same_links_simps [simp]:
  "same_links c c"
  "same_links c (c\<lparr>read_buffer := b\<rparr>)"
  "same_links c (c\<lparr>write_buffer := b\<rparr>)"
  "same_links c (c\<lparr>cstate := st\<rparr>)"
  "same_links c (c\<lparr>read_buffer := b, cstate := st\<rparr>)"
  by (simp_all add: same_links_def)

definition local_step ::
  "(connection \<times> ('k, 'z) world_scheme, unit) cpp \<Rightarrow> bool" where
  "local_step m \<longleftrightarrow> (\<forall>c w r c' w'. m (c, w) = Some (r, (c', w')) \<longrightarrow>
     same_links c c' \<and> world.more w' = world.more w \<and>
     (\<forall>e. r = Inl e \<longrightarrow> tolerated e \<and> \<not> is_exception e))"

lemma ReadBlocking_local:
  assumes "Connection_ReadBlocking os (c, w) = Some (r, (c', w'))"
  shows "same_links c c' \<and> world.more w' = world.more w \<and> (\<exists>u. r = Inr u)"
proof -
  let ?n = "sys_rcvbuf os (sock c) (kern w)"
  obtain q w1 where rd: "do_read os (sock c) ?n w = (q, w1)" by force
  then have more: "world.more w1 = world.more w"
    unfolding do_read_def by (rule syscall_frame(3))
  show ?thesis
  proof (cases q)
    case (SysOk bs)
    have "\<exists>b. Buffer_Append_sized bs (to_int32 (int (length bs))) (read_buffer c) = Inr b"
    proof (cases "0 \<le> to_int32 (int (length bs))")
      case True
      have "to_int32 (int (length bs)) \<le> int (length bs)"
        using True by (simp add: to_int32_def signed_take_bit_int_less_eq_self_iff)
      then show ?thesis
        using True Buffer_Append_sized_eq [of "nat (to_int32 (int (length bs)))" bs "read_buffer c"]
        by auto
    next
      case False
      then show ?thesis by (simp add: Buffer_Append_sized_def Append_loop.simps)
    qed
    then obtain b where
      "Buffer_Append_sized bs (to_int32 (int (length bs))) (read_buffer c) = Inr b" ..
    then show ?thesis
      using assms rd more SysOk by (auto simp: Connection_ReadBlocking_def Let_def split: if_splits)
  next
    case (SysErr e)
    then show ?thesis
      using assms rd more by (auto simp: Connection_ReadBlocking_def Let_def)
  qed
qed

lemma Read_local:
  assumes "read_bounded os"
  shows "local_step (Connection_Read os)"
  unfolding local_step_def
proof (intro allI impI)
  fix c and w :: "('a, 'b) world_scheme" and r c' w'
  assume run: "Connection_Read os (c, w) = Some (r, (c', w'))"
  let ?c1 = "c\<lparr>read_buffer := Buffer_ClearBuffer (read_buffer c)\<rparr>"
  have links: "same_links ?c1 c' \<Longrightarrow> same_links c c'" by (simp add: same_links_def)
  consider "cstate c \<noteq> Connected"
    | "Connection_ReadNonBlocking os (?c1, w) = Some (r, (c', w'))"
    | "Connection_ReadBlocking os (?c1, w) = Some (r, (c', w'))"
    using run by (auto simp: Connection_Read_def Let_def split: if_splits)
  then have "same_links c c' \<and> world.more w' = world.more w \<and> (\<exists>u. r = Inr u)"
  proof cases
    case 1
    with run show ?thesis by (auto simp: Connection_Read_def)
  next
    case 2
    from ReadNonBlocking_post [OF assms this] show ?thesis
      unfolding read_post_def by (auto simp: same_links_def)
  next
    case 3
    with ReadBlocking_local links show ?thesis by blast
  qed
  then show "same_links c c' \<and> world.more w' = world.more w \<and>
     (\<forall>e. r = Inl e \<longrightarrow> tolerated e \<and> \<not> is_exception e)" by auto
qed

lemma wf_set_connection:
  fixes s :: "('k, 'z) server_scheme"
  assumes wf: "server_wf fresh held s" and c: "conns s p = Some c"
    and ch: "conn_channel c' = conn_channel c" and fd: "sock c' = sock c"
  shows "server_wf fresh held (s\<lparr>conns := (conns s)(p \<mapsto> c')\<rparr>)"
proof -
  have "chan_ok (s\<lparr>conns := (conns s)(p \<mapsto> c')\<rparr>) q k" if "chan_ok s q k" for q k
    using that c ch unfolding chan_ok_def by auto
  moreover have "conn_ok (s\<lparr>conns := (conns s)(p \<mapsto> c')\<rparr>) p' d"
    if "(if p' = p then d = c' else conns s p' = Some d)" for p' d
  proof -
    define d0 where "d0 = (if p' = p then c else d)"
    have d0: "conns s p' = Some d0" "conn_channel d0 = conn_channel d" "sock d0 = sock d"
      using that c ch fd by (auto simp: d0_def split: if_splits)
    then have "conn_ok s p' d0" using wf unfolding server_wf_def conns_ok_def by blast
    then show ?thesis
      using c ch d0(2,3) unfolding conn_ok_def by (auto split: if_splits)
  qed
  ultimately show ?thesis
    using wf c fd unfolding server_wf_def channels_ok_def conns_ok_def owners_ok_def reactors_ok_def
    by (auto split: if_splits)
qed

lemma triple_with_connection:
  assumes "local_step m"
  shows "triple (\<lambda>s. server_wf {} held s \<and> conns s p \<noteq> None) (with_connection p m)
    (\<lambda>u s. server_wf {} held s \<and> conns s p \<noteq> None) (fails held)"
proof -
  have "server_wf {} held t \<and> conns t p \<noteq> None \<and> (\<forall>e. x = Inl e \<longrightarrow> fails held e t)"
    if pre: "server_wf {} held s" "conns s p = Some c" and run: "with_connection p m s = Some (x, t)"
    for s t x c
  proof -
    from run pre(2) obtain c' s' where m: "m (c, s) = Some (x, (c', s'))"
      and t: "t = s'\<lparr>conns := (conns s')(p \<mapsto> c')\<rparr>"
      by (auto simp: with_connection_def split: option.splits)
    from assms m have links: "same_links c c'" and more: "world.more s' = world.more s"
      and err: "\<forall>e. x = Inl e \<longrightarrow> tolerated e \<and> \<not> is_exception e"
      unfolding local_step_def by blast+
    have "conns s' p = Some c" using pre(2) world_more_fields(1) [OF more] by simp
    with wf_world [OF more] pre(1) links have "server_wf {} held t"
      unfolding t by (auto intro: wf_set_connection simp: same_links_def)
    with err show ?thesis unfolding t fails_def by auto
  qed
  then show ?thesis by (auto simp: triple_def split: sum.splits)
qed


section \<open>Owners\<close>

lemma wf_share:
  assumes "server_wf fresh held s" and "0 < use_count s p"
  shows "server_wf fresh (held(p := Suc (held p))) (s\<lparr>use_count := (use_count s)(p := Suc (use_count s p))\<rparr>)"
  using assms unfolding server_wf_def owners_ok_def channels_ok_def chan_ok_def conns_ok_def conn_ok_def
    reactors_ok_def by auto

lemma triple_share:
  "triple (\<lambda>s. server_wf {} held s \<and> 0 < use_count s p) (share p)
     (\<lambda>u. server_wf {} (held(p := Suc (held p)))) (fails held)"
  unfolding share_def by (rule triple_modify) (simp add: wf_share)

lemma triple_shared_from_this:
  "triple (\<lambda>s. server_wf {} held s \<and> conns s p \<noteq> None) (shared_from_this p)
     (\<lambda>u. server_wf {} (held(p := Suc (held p)))) (fails held)"
  unfolding shared_from_this_def
proof (rule triple_bindC)
  show "triple (\<lambda>s. server_wf {} held s \<and> conns s p \<noteq> None) (gets (\<lambda>s. use_count s p))
      (\<lambda>n s. server_wf {} held s \<and> 0 < use_count s p \<and> n = use_count s p) (fails held)"
    by (rule triple_gets) (auto dest: wf_owned)
next
  fix n
  show "triple (\<lambda>s. server_wf {} held s \<and> 0 < use_count s p \<and> n = use_count s p)
      (if n = 0 then throw BadWeakPtr else share p)
      (\<lambda>u. server_wf {} (held(p := Suc (held p)))) (fails held)"
    by (rule triple_if) (auto intro: triple_throw triple_pre [OF triple_share])
qed

text \<open>The destructor of a connection that nobody owns any more, as one step on the state.\<close>

lemma delete_Connection_run:
  assumes "server_wf fresh held s" and "conns s p = Some c"
  shows "\<exists>q t. conn_channel c = Some q \<and> channels s q \<noteq> None \<and>
    delete_Connection os p s = Some (Inr (), t\<lparr>conns := (conns s)(p := None)\<rparr>) \<and>
    t = s\<lparr>kern := kern t, calls := calls t, channels := (channels s)(q := None)\<rparr> \<and>
    calls t = calls s @ (if sock c = -1 then [] else [CClose (sock c), CClose (sock c)])"
proof -
  from assms obtain q ch where q: "conn_channel c = Some q" "channels s q = Some ch"
    "ch_fd ch = sock c" by (rule wf_conn)
  show ?thesis
  proof (cases "sock c = -1")
    case True
    then show ?thesis
      using q assms(2)
      by (intro exI [of _ q] exI [of _ "s\<lparr>channels := (channels s)(q := None)\<rparr>"])
        (simp add: delete_Connection_def the_connection_def delete_Channel_def delete_Socket_def)
  next
    case False
    then show ?thesis
      using q assms(2)
      by (intro exI [of _ q] exI [of _ "do_close os (sock c)
            ((do_close os (sock c) s)\<lparr>channels := (channels s)(q := None)\<rparr>)"])
        (simp add: delete_Connection_def the_connection_def delete_Channel_def delete_Socket_def
          do_close_def)
  qed
qed


lemma wf_delete:
  assumes wf: "server_wf {p} held s" and none: "use_count s p = 0"
    and c: "conns s p = Some c" and q: "conn_channel c = Some q"
  shows "server_wf {} held (s\<lparr>channels := (channels s)(q := None), conns := (conns s)(p := None)\<rparr>)"
proof -
  let ?t = "s\<lparr>channels := (channels s)(q := None), conns := (conns s)(p := None)\<rparr>"
  have other: "conn_channel d \<noteq> Some q" if "conns s p' = Some d" "p' \<noteq> p" for p' d
    using wf_conn_channel_inj [OF wf c that(1)] q that(2) by auto
  have "chan_ok ?t r ch" if r: "channels s r = Some ch" "r \<noteq> q" for r ch
    using wf_chan [OF wf r(1)] r(2) c q unfolding chan_ok_def by fastforce
  moreover have "conn_ok ?t p' d" if d: "conns s p' = Some d" "p' \<noteq> p" for p' d
  proof -
    have "conn_ok s p' d" using wf d(1) unfolding server_wf_def conns_ok_def by blast
    then show ?thesis using other [OF d] unfolding conn_ok_def by auto
  qed
  moreover have "q \<noteq> acc_channel (the_acceptor s)" using wf_conn [OF wf c] q by auto
  moreover have "p \<notin> ran (connections s)"
    using wf_mapped(1) [OF wf, of _ p] none by (auto simp: ran_def)
  ultimately show ?thesis
    using wf none unfolding server_wf_def channels_ok_def conns_ok_def owners_ok_def reactors_ok_def
    by (auto simp: ran_def)
qed

lemma wf_drop:
  assumes "server_wf {} (held(p := Suc (held p))) s"
  shows "server_wf {p} held (s\<lparr>use_count := (use_count s)(p := use_count s p - 1)\<rparr>)"
    and "0 < use_count s p - 1 \<Longrightarrow>
      server_wf {} held (s\<lparr>use_count := (use_count s)(p := use_count s p - 1)\<rparr>)"
proof -
  have count: "Suc (held p) + (if p \<in> ran (connections s) then 1 else 0) \<le> use_count s p"
    and rest: "\<And>p'. p' \<noteq> p \<Longrightarrow>
      held p' + (if p' \<in> ran (connections s) then 1 else 0) \<le> use_count s p'"
  proof -
    have all: "\<And>p'. (held(p := Suc (held p))) p' + (if p' \<in> ran (connections s) then 1 else 0)
        \<le> use_count s p'"
      using assms unfolding server_wf_def owners_ok_def by blast
    show "Suc (held p) + (if p \<in> ran (connections s) then 1 else 0) \<le> use_count s p"
      using all [of p] by simp
    show "held p' + (if p' \<in> ran (connections s) then 1 else 0) \<le> use_count s p'"
      if "p' \<noteq> p" for p' using all [of p'] that by simp
  qed
  let ?t = "s\<lparr>use_count := (use_count s)(p := use_count s p - 1)\<rparr>"
  have other: "channels_ok ?t" "conns_ok ?t" "reactors_ok ?t"
    using assms unfolding wf_defs by simp_all
  have own: "\<And>p'. held p' + (if p' \<in> ran (connections s) then 1 else 0) \<le> use_count ?t p'"
    using count rest by (auto split: if_splits)
  have old: "owners_ok {} (held(p := Suc (held p))) s" using assms unfolding server_wf_def by blast
  show "server_wf {p} held ?t"
    using other own old unfolding server_wf_def owners_ok_def by auto
  show "server_wf {} held ?t" if "0 < use_count s p - 1"
    using other own old that unfolding server_wf_def owners_ok_def by auto
qed

lemma unshare_run:
  fixes s :: "('k, 'z) server_scheme"
  assumes wf: "server_wf {} (held(p := Suc (held p))) s" and run: "unshare os p s = Some (x, t)"
  shows "x = Inr () \<and> server_wf {} held t \<and> connections t = connections s"
proof -
  define s1 where "s1 = s\<lparr>use_count := (use_count s)(p := use_count s p - 1)\<rparr>"
  have live: "conns s p \<noteq> None"
    using wf_held [OF wf, of p] by (intro wf_counted [OF wf]) simp
  show ?thesis
  proof (cases "use_count s p - 1 = 0")
    case False
    with run have "x = Inr () \<and> t = s1" by (simp add: unshare_def s1_def)
    with wf_drop(2) [OF wf] False show ?thesis by (simp add: s1_def)
  next
    case True
    have wf1: "server_wf {p} held s1" unfolding s1_def by (rule wf_drop(1) [OF wf])
    from live obtain c where c: "conns s1 p = Some c" by (auto simp: s1_def)
    from delete_Connection_run [OF wf1 c, of os] obtain q u where q: "conn_channel c = Some q"
      and del: "delete_Connection os p s1 = Some (Inr (), u\<lparr>conns := (conns s1)(p := None)\<rparr>)"
      and u: "u = s1\<lparr>kern := kern u, calls := calls u, channels := (channels s1)(q := None)\<rparr>"
      by blast
    have res: "x = Inr ()" "t = u\<lparr>conns := (conns s1)(p := None)\<rparr>"
      using run True del by (simp_all add: unshare_def s1_def)
    define v where "v = s1\<lparr>channels := (channels s1)(q := None), conns := (conns s1)(p := None)\<rparr>"
    have "server_wf {} held v"
      unfolding v_def by (rule wf_delete [OF wf1 _ c q]) (use True in \<open>simp add: s1_def\<close>)
    moreover have t: "t = v\<lparr>kern := kern u, calls := calls u\<rparr>"
      unfolding res(2) v_def by (subst u) simp
    ultimately have "server_wf {} held t" using wf_world [of t v] by simp
    moreover have "connections t = connections s" using t by (simp add: v_def s1_def)
    ultimately show ?thesis using res(1) by blast
  qed
qed

lemma triple_unshare:
  "triple (\<lambda>s. server_wf {} (held(p := Suc (held p))) s \<and> connections s = m) (unshare os p)
     (\<lambda>u s. server_wf {} held s \<and> connections s = m) E"
  by (rule tripleI) (auto dest: unshare_run)


section \<open>Closing and business logic\<close>

text \<open>Taking a connection out of the map moves the map's reference to the handler.\<close>

lemma wf_unmap:
  assumes wf: "server_wf {} held s" and it: "connections s fd = Some p"
  shows "server_wf {} (held(p := Suc (held p))) (s\<lparr>connections := (connections s)(fd := None)\<rparr>)"
proof -
  let ?t = "s\<lparr>connections := (connections s)(fd := None)\<rparr>"
  obtain c where c: "conns s p = Some c" using wf_mapped(3) [OF wf it] by auto
  have gone: "p \<notin> ran (connections ?t)"
  proof
    assume "p \<in> ran (connections ?t)"
    then obtain fd' where "connections s fd' = Some p" "fd' \<noteq> fd"
      by (auto simp: ran_def split: if_splits)
    with wf_mapped_sock [OF wf _ c] it show False by metis
  qed
  have sub: "ran (connections ?t) \<subseteq> ran (connections s)"
    by (auto simp: ran_def split: if_splits)
  have all: "\<And>p'. held p' + (if p' \<in> ran (connections s) then 1 else 0) \<le> use_count s p'"
    using wf unfolding server_wf_def owners_ok_def by blast
  have "(held(p := Suc (held p))) p' + (if p' \<in> ran (connections ?t) then 1 else 0)
      \<le> use_count ?t p'" for p'
  proof (cases "p' = p")
    case True
    with gone wf_mapped(2) [OF wf it] show ?thesis by simp
  next
    case False
    with all [of p'] sub show ?thesis by (auto split: if_splits)
  qed
  then show ?thesis
    using wf unfolding server_wf_def channels_ok_def chan_ok_def conns_ok_def conn_ok_def owners_ok_def
      reactors_ok_def by (auto split: if_splits)
qed

lemma DeleteConnection_run:
  fixes s :: "('k, 'z) server_scheme"
  assumes wf: "server_wf {} held s" and run: "Server_DeleteConnection os fd s = Some (x, t)"
  shows "x = Inr () \<and> server_wf {} held t \<and>
    connections t = (if fd = -1 then connections s else (connections s)(fd := None))"
proof -
  define s1 where "s1 = print_out (''delete registered connection instance'' @ endl) s"
  have same: "connections s1 = connections s" "world.more s1 = world.more s"
    by (simp_all add: s1_def print_out_def)
  have wf1: "server_wf {} held s1" using wf wf_world [OF same(2)] by blast
  have step: "Server_DeleteConnection os fd s =
    (case (if fd = -1 then None else connections s1 fd) of
       None \<Rightarrow> Some (Inr (), s1)
     | Some p \<Rightarrow> unshare os p (s1\<lparr>connections := (connections s1)(fd := None)\<rparr>))"
    unfolding Server_DeleteConnection_def seqC_at(3) [OF basic_at(4)] s1_def [symmetric]
    by (cases "connections s1 fd") auto
  show ?thesis
  proof (cases "fd \<noteq> -1 \<and> connections s fd \<noteq> None")
    case False
    then have "(connections s)(fd := None) = connections s \<or> fd = -1" by auto
    with False run wf1 same show ?thesis
      by (auto simp: step)
  next
    case True
    then obtain p where p: "connections s1 fd = Some p" using same by auto
    define s2 where "s2 = s1\<lparr>connections := (connections s1)(fd := None)\<rparr>"
    have "unshare os p s2 = Some (x, t)"
      using run True p by (simp add: step s2_def)
    from unshare_run [OF wf_unmap [OF wf1 p, folded s2_def] this] True same show ?thesis
      by (simp add: s2_def)
  qed
qed

lemma triple_DeleteConnection:
  "triple (server_wf {} held) (Server_DeleteConnection os fd) (\<lambda>u. server_wf {} held) (fails held)"
  by (rule tripleI) (auto dest: DeleteConnection_run)

lemma triple_the_connection:
  "triple (\<lambda>s. server_wf {} held s \<and> conns s p \<noteq> None) (the_connection p)
     (\<lambda>c s. server_wf {} held s \<and> conns s p = Some c) (fails held)"
  by (auto simp: triple_def the_connection_def split: option.splits)

lemma triple_Close:
  "triple (\<lambda>s. server_wf {} held s \<and> conns s p \<noteq> None) (Connection_Close os p)
     (\<lambda>u. server_wf {} held) (fails held)"
  unfolding Connection_Close_def
proof (rule triple_bindC [OF triple_the_connection])
  fix c
  show "triple (\<lambda>s. server_wf {} held s \<and> conns s p = Some c)
     (case delete_connection_callback c of
        None \<Rightarrow> throw BadFunctionCall
      | Some DeleteConnectionCb \<Rightarrow> Server_DeleteConnection os (sock c)) (\<lambda>u. server_wf {} held) (fails held)"
    by (cases "delete_connection_callback c")
      (auto intro!: triple_throw triple_pre [OF triple_DeleteConnection] simp: fails_def
        split: delete_callback.split)
qed

text \<open>
  What is asked of the application: started in a good state while the caller owns the connection,
  a callback leaves a good state, and if it fails, it does so in a tolerated way.
\<close>

definition usr_ok :: "('k, 'z) usr \<Rightarrow> bool" where
  "usr_ok usr \<longleftrightarrow> (\<forall>u p held. 0 < held p \<longrightarrow> triple (server_wf {} held) (usr u p) (\<lambda>x. server_wf {} held) (fails held))"

lemma triple_usr:
  assumes "usr_ok usr"
  shows "triple (server_wf {} (held(p := Suc (held p)))) (usr u p) (\<lambda>x. server_wf {} (held(p := Suc (held p))))
    (fails (held(p := Suc (held p))))"
  using assms unfolding usr_ok_def by simp

lemma unshare_after:
  "triple (server_wf {} (held(p := Suc (held p)))) (unshare os p) (\<lambda>u. server_wf {} held) E"
  by (rule tripleI) (auto dest: unshare_run)

lemma triple_owned_call:
  assumes "triple (server_wf {} (held(p := Suc (held p)))) m (\<lambda>u. server_wf {} (held(p := Suc (held p))))
    (fails (held(p := Suc (held p))))"
  shows "triple (server_wf {} (held(p := Suc (held p)))) (scoped m (unshare os p)) (\<lambda>u. server_wf {} held) (fails held)"
proof (rule triple_scoped [OF assms])
  fix e :: fault
  assume exn: "is_exception e"
  show "triple (fails (held(p := Suc (held p))) e) (unshare os p) (\<lambda>u. fails held e) (fails held)"
    by (rule tripleI) (use exn in \<open>auto simp: fails_def dest: unshare_run\<close>)
next
  fix e :: fault and s :: "('a, 'b) server_scheme"
  assume "\<not> is_exception e" and "fails (held(p := Suc (held p))) e s"
  then show "fails held e s" by (simp add: fails_def)
qed (rule unshare_after)

lemma triple_BusinessLogic:
  assumes "read_bounded os" and "usr_ok usr"
  shows "triple (\<lambda>s. server_wf {} held s \<and> conns s p \<noteq> None) (Connection_BusinessLogic os usr p)
    (\<lambda>u. server_wf {} held) (fails held)"
  unfolding Connection_BusinessLogic_def
proof (rule triple_seqC [OF triple_with_connection [OF Read_local [OF assms(1)]]],
    rule triple_bindC [OF triple_the_connection], rule triple_seqC)
  fix c
  show "triple (\<lambda>s. server_wf {} held s \<and> conns s p = Some c) (shared_from_this p)
      (\<lambda>u. server_wf {} (held(p := Suc (held p)))) (fails held)"
    by (rule triple_pre [OF triple_shared_from_this]) simp
  have "triple (server_wf {} (held(p := Suc (held p))))
      (case on_message_callback c of None \<Rightarrow> throw BadFunctionCall | Some u \<Rightarrow> usr u p)
      (\<lambda>u. server_wf {} (held(p := Suc (held p)))) (fails (held(p := Suc (held p))))"
    using triple_usr [OF assms(2)]
    by (cases "on_message_callback c") (auto intro: triple_throw simp: fails_def)
  then show "triple (server_wf {} (held(p := Suc (held p))))
      (scoped (case on_message_callback c of None \<Rightarrow> throw BadFunctionCall | Some u \<Rightarrow> usr u p)
        (unshare os p)) (\<lambda>u. server_wf {} held) (fails held)"
    by (rule triple_owned_call)
qed

end
