(* ===== verification/ServerAccept.thy ===== *)
theory ServerAccept
  imports ServerInvariant
begin

text \<open>
  Accepting a connection: building the object, its callbacks, filing it, and handing it to the
  application keep the invariant of the server, also when registering the channel fails half way.
\<close>

unbundle bit_operations_syntax

section \<open>A channel under construction\<close>

text \<open>The channel at \<open>q\<close> is on \<open>fd\<close>, runs nothing yet and belongs to nobody yet.\<close>

definition fresh_chan :: "int \<Rightarrow> nat \<Rightarrow> ('k, 'z) server_scheme \<Rightarrow> bool" where
  "fresh_chan fd q s \<longleftrightarrow> q \<noteq> acc_channel (the_acceptor s) \<and>
     (\<exists>ch. channels s q = Some ch \<and> ch_fd ch = fd \<and> read_callback ch = None) \<and>
     (\<forall>p c. conns s p = Some c \<longrightarrow> conn_channel c \<noteq> Some q)"

lemma wf_set_fresh:
  assumes wf: "server_wf {} held s" and fresh: "fresh_chan fd q s"
    and ch: "chan_ok s q ch"
  shows "server_wf {} held (s\<lparr>channels := (channels s)(q \<mapsto> ch)\<rparr>)"
proof -
  let ?t = "s\<lparr>channels := (channels s)(q \<mapsto> ch)\<rparr>"
  have "chan_ok ?t r k = chan_ok s r k" for r k by (simp add: chan_ok_def)
  moreover have "conn_ok ?t p c" if "conns s p = Some c" for p c
  proof -
    have "conn_ok s p c" using wf that unfolding server_wf_def conns_ok_def by blast
    moreover have "conn_channel c \<noteq> Some q" using fresh that unfolding fresh_chan_def by blast
    ultimately show ?thesis unfolding conn_ok_def by auto
  qed
  ultimately show ?thesis
    using wf ch unfolding server_wf_def channels_ok_def conns_ok_def owners_ok_def reactors_ok_def by auto
qed

lemma wf_new_channel:
  fixes s :: "('k, 'z) server_scheme" and fd :: int
  assumes wf: "server_wf {} held s" and l: "event_loops s l \<noteq> None"
  defines "t \<equiv> s\<lparr>channels := (channels s)(next_ptr s \<mapsto> Channel_init l fd),
    next_ptr := Suc (next_ptr s)\<rparr>"
  shows "server_wf {} held t" and "fresh_chan fd (next_ptr s) t"
proof -
  have none: "channels s (next_ptr s) = None"
    using wf_chan [OF wf, of "next_ptr s"] by (cases "channels s (next_ptr s)") (auto simp: chan_ok_def)
  have "chan_ok t r k" if "channels t r = Some k" for r k
  proof (cases "r = next_ptr s")
    case True
    with that l show ?thesis by (auto simp: t_def chan_ok_def Channel_init_def)
  next
    case False
    with that have "channels s r = Some k" by (simp add: t_def)
    from wf_chan [OF wf this] show ?thesis by (auto simp: t_def chan_ok_def)
  qed
  moreover have "conn_ok t p c" if c: "conns s p = Some c" for p c
  proof -
    have "conn_ok s p c" using wf c unfolding server_wf_def conns_ok_def by blast
    with none show ?thesis unfolding conn_ok_def t_def by fastforce
  qed
  ultimately show "server_wf {} held t"
    using wf unfolding server_wf_def channels_ok_def conns_ok_def owners_ok_def reactors_ok_def
    by (simp add: t_def)
  have "acc_channel (the_acceptor s) \<noteq> next_ptr s"
    using wf none unfolding server_wf_def reactors_ok_def by auto
  moreover have "conn_channel c \<noteq> Some (next_ptr s)" if "conns s p = Some c" for p c
    using wf_conn [OF wf that] none by force
  ultimately show "fresh_chan fd (next_ptr s) t"
    by (auto simp: fresh_chan_def t_def Channel_init_def)
qed

lemma triple_new_Channel:
  "triple (\<lambda>s. server_wf {} held s \<and> event_loops s l \<noteq> None) (new_Channel l fd)
    (\<lambda>q s. server_wf {} held s \<and> fresh_chan fd q s) E"
proof (rule tripleI)
  fix s :: "('a, 'b) server_scheme" and q t
  assume pre: "server_wf {} held s \<and> event_loops s l \<noteq> None" and run: "new_Channel l fd s = Some (Inr q, t)"
  show "server_wf {} held t \<and> fresh_chan fd q t"
    using wf_new_channel [of held s l fd] pre run by (auto simp: new_Channel_def)
qed (simp add: new_Channel_def)

text \<open>Registering it: both steps, whether the kernel agrees or not.\<close>

lemma fresh_chan_world:
  fixes s t :: "('k, 'z) server_scheme"
  assumes "world.more t = world.more s"
  shows "fresh_chan fd q t = fresh_chan fd q s"
  using world_more_fields [OF assms] by (simp add: fresh_chan_def)

lemma add_flags_keeps:
  assumes mask: "m AND NOT read_mask = 0"
    and wf: "server_wf {} held s" and fresh: "fresh_chan fd q s" and run: "add_flags os m q s = Some (x, t)"
  shows "server_wf {} held t \<and> fresh_chan fd q t \<and> (\<forall>e. x = Inl e \<longrightarrow> (\<exists>msg. e = RuntimeError msg))"
proof -
  from fresh obtain ch where ch: "channels s q = Some ch" "ch_fd ch = fd" "read_callback ch = None"
    unfolding fresh_chan_def by blast
  with wf_chan [OF wf] have ok: "chan_ok s q ch" by blast
  then obtain el where el: "event_loops s (ch_loop ch) = Some el" by (auto simp: chan_ok_def)
  define ch2 where "ch2 b = ch\<lparr>listen_events := listen_events ch OR m, in_epoll := b\<rparr>" for b
  define ch1 where "ch1 = ch\<lparr>listen_events := listen_events ch OR m\<rparr>"
  define op where "op = (if in_epoll ch then EPOLL_CTL_MOD else EPOLL_CTL_ADD)"
  obtain r k where
    eq: "add_flags os m q s = Some (if is_err r
           then Inl (RuntimeError
             (if in_epoll ch then ''epoll modify error'' else ''epoll add error''))
           else Inr (),
           s\<lparr>kern := k,
             calls := calls s @ [CEpollCtl (epfd el) op (ch_fd ch) (chan_event q ch1) r],
             channels := (channels s)(q \<mapsto> ch1\<lparr>in_epoll := in_epoll ch \<or> \<not> is_err r\<rparr>)\<rparr>)"
    using add_flags_cases [OF ch(1) el, of os m] by (fold ch1_def op_def) blast
  define cs where "cs = calls s @ [CEpollCtl (epfd el) op (ch_fd ch) (chan_event q ch1) r]"
  define b where "b = (in_epoll ch \<or> \<not> is_err r)"
  have "(listen_events ch OR m) AND NOT read_mask = 0"
    using ok mask by (simp add: chan_ok_def bit.conj_disj_distrib2)
  then have "chan_ok s q (ch2 b)"
    using ok ch(3) by (simp add: chan_ok_def ch2_def)
  then have wf1: "server_wf {} held (s\<lparr>channels := (channels s)(q \<mapsto> ch2 b)\<rparr>)"
    by (rule wf_set_fresh [OF wf fresh])
  have fresh1: "fresh_chan fd q (s\<lparr>channels := (channels s)(q \<mapsto> ch2 b)\<rparr>)"
    using fresh ch by (simp add: fresh_chan_def ch2_def)
  have t: "t = (s\<lparr>channels := (channels s)(q \<mapsto> ch2 b)\<rparr>)\<lparr>kern := k, calls := cs\<rparr>"
    using eq run by (simp add: b_def cs_def ch1_def ch2_def)
  then have more: "world.more t = world.more (s\<lparr>channels := (channels s)(q \<mapsto> ch2 b)\<rparr>)" by simp
  have "server_wf {} held t" using wf1 wf_world [OF more] by blast
  moreover have "fresh_chan fd q t" using fresh1 fresh_chan_world [OF more] by blast
  moreover have "x = (if is_err r
      then Inl (RuntimeError
        (if in_epoll ch then ''epoll modify error'' else ''epoll add error''))
      else Inr ())" using eq run by simp
  then have "x = Inl e \<Longrightarrow> \<exists>msg. e = RuntimeError msg" for e
    by (cases "is_err r") (auto simp only: if_True if_False sum.inject sum.distinct)
  ultimately show ?thesis by blast
qed

lemma triple_add_flags:
  assumes "m AND NOT read_mask = 0"
  shows "triple (\<lambda>s. server_wf {} held s \<and> fresh_chan fd q s) (add_flags os m q)
    (\<lambda>u s. server_wf {} held s \<and> fresh_chan fd q s)
    (\<lambda>e s. server_wf {} held s \<and> fresh_chan fd q s \<and> (\<exists>msg. e = RuntimeError msg))"
  using add_flags_keeps [OF assms] by (intro tripleI) blast+


text \<open>The clean-up when it throws: the channel goes, and its descriptor is closed twice.\<close>

lemma wf_delete_fresh:
  assumes wf: "server_wf {} held s" and fresh: "fresh_chan fd q s"
  shows "server_wf {} held (s\<lparr>channels := (channels s)(q := None)\<rparr>)"
proof -
  let ?t = "s\<lparr>channels := (channels s)(q := None)\<rparr>"
  have "chan_ok ?t r k = chan_ok s r k" for r k by (simp add: chan_ok_def)
  moreover have "conn_ok ?t p c" if "conns s p = Some c" for p c
  proof -
    have "conn_ok s p c" using wf that unfolding server_wf_def conns_ok_def by blast
    moreover have "conn_channel c \<noteq> Some q" using fresh that unfolding fresh_chan_def by blast
    ultimately show ?thesis unfolding conn_ok_def by auto
  qed
  ultimately show ?thesis
    using wf fresh
    unfolding server_wf_def channels_ok_def conns_ok_def owners_ok_def reactors_ok_def fresh_chan_def
    by (auto split: if_splits)
qed

lemma triple_delete_fresh:
  "triple (\<lambda>s. server_wf {} held s \<and> fresh_chan fd q s) (delete_Channel os q) (\<lambda>u. server_wf {} held) E"
proof (rule tripleI)
  fix s :: "('a, 'b) server_scheme" and u t
  assume pre: "server_wf {} held s \<and> fresh_chan fd q s" and run: "delete_Channel os q s = Some (Inr u, t)"
  then obtain ch where ch: "channels s q = Some ch" unfolding fresh_chan_def by blast
  have "world.more t = world.more (s\<lparr>channels := (channels s)(q := None)\<rparr>)"
    using run ch by (cases s) (auto simp: delete_Channel_def do_close_def split: if_splits)
  from wf_world [OF this] wf_delete_fresh pre show "server_wf {} held t" by blast
next
  fix s :: "('a, 'b) server_scheme" and e t
  assume pre: "server_wf {} held s \<and> fresh_chan fd q s" and run: "delete_Channel os q s = Some (Inl e, t)"
  then obtain ch where "channels s q = Some ch" unfolding fresh_chan_def by blast
  with run show "E e t" by (auto simp: delete_Channel_def split: if_splits)
qed

lemma triple_cleanup:
  assumes "tolerated e"
  shows "triple (\<lambda>s. server_wf {} held s \<and> fresh_chan fd q s)
    (seqC (delete_Channel os q) (delete_Socket os fd)) (\<lambda>u. fails held e) (fails held)"
  using assms
  by (intro triple_seqC [OF triple_delete_fresh]
      triple_post [OF triple_world [OF world_only_delete_Socket]]) (auto simp: fails_def)

lemma read_mask_parts:
  "(EPOLLIN OR EPOLLPRI) AND NOT read_mask = 0" "EPOLLET AND NOT read_mask = 0"
  by (simp_all add: read_mask_def epoll_flag_defs)

lemma triple_register:
  "triple (\<lambda>s. server_wf {} held s \<and> fresh_chan fd q s)
     (unwinding (seqC (Channel_EnableRead os q) (Channel_UseET os q))
        (seqC (delete_Channel os q) (delete_Socket os fd)))
     (\<lambda>u s. server_wf {} held s \<and> fresh_chan fd q s) (fails held)"
  unfolding EnableRead_add_flags UseET_add_flags
proof (rule triple_unwinding)
  show "triple (\<lambda>s. server_wf {} held s \<and> fresh_chan fd q s)
      (seqC (add_flags os (EPOLLIN OR EPOLLPRI) q) (add_flags os EPOLLET q))
      (\<lambda>u s. server_wf {} held s \<and> fresh_chan fd q s)
      (\<lambda>e s. server_wf {} held s \<and> fresh_chan fd q s \<and> (\<exists>msg. e = RuntimeError msg))"
    by (rule triple_seqC) (rule triple_add_flags read_mask_parts)+
next
  fix e :: fault
  show "triple (\<lambda>s. server_wf {} held s \<and> fresh_chan fd q s \<and> (\<exists>msg. e = RuntimeError msg))
      (seqC (delete_Channel os q) (delete_Socket os fd)) (\<lambda>u. fails held e) (fails held)"
  proof (cases "\<exists>msg. e = RuntimeError msg")
    case True
    then have "tolerated e" by auto
    from triple_cleanup [OF this] show ?thesis by (rule triple_pre) simp
  next
    case False
    then show ?thesis by (simp add: triple_def)
  qed
qed auto

section \<open>The connection under construction\<close>

definition building :: "int \<Rightarrow> nat \<Rightarrow> ('k, 'z) server_scheme \<Rightarrow> bool" where
  "building fd p s \<longleftrightarrow> use_count s p = 0 \<and>
     (\<exists>c q. conns s p = Some c \<and> conn_channel c = Some q \<and> sock c = fd)"

lemma wf_new_connection:
  fixes s :: "('k, 'z) server_scheme"
  assumes wf: "server_wf {} held s" and fresh: "fresh_chan (sock c) q s" and q: "conn_channel c = Some q"
  defines "t \<equiv> s\<lparr>conns := (conns s)(next_ptr s \<mapsto> c), next_ptr := Suc (next_ptr s)\<rparr>"
  shows "server_wf {next_ptr s} held t" and "building (sock c) (next_ptr s) t"
proof -
  let ?p = "next_ptr s"
  have dead: "conns s ?p = None"
  proof (cases "conns s ?p")
    case (Some d)
    from wf_conn [OF wf this] show ?thesis by blast
  qed
  then have count: "use_count s ?p = 0" using wf_counted [OF wf, of ?p] by auto
  have "chan_ok t r k" if "channels s r = Some k" for r k
    using wf_chan [OF wf that] dead unfolding chan_ok_def t_def by fastforce
  moreover have "conn_ok t p d" if d: "conns t p = Some d" for p d
  proof (cases "p = ?p")
    case True
    with d have "d = c" by (simp add: t_def)
    with True fresh q show ?thesis
      unfolding conn_ok_def fresh_chan_def by (auto simp: t_def split: if_splits)
  next
    case False
    with d have "conns s p = Some d" by (simp add: t_def)
    then have old: "conn_ok s p d" using wf unfolding server_wf_def conns_ok_def by blast
    have "conn_channel c \<noteq> conn_channel d"
      using fresh q \<open>conns s p = Some d\<close> unfolding fresh_chan_def by metis
    then have "p' = p" if "conns t p' = Some d'" "conn_channel d' = conn_channel d" for p' d'
      using that old unfolding conn_ok_def by (cases "p' = ?p") (auto simp: t_def)
    moreover have "p < next_ptr t" using old by (simp add: conn_ok_def t_def)
    moreover have "channels t = channels s" "the_acceptor t = the_acceptor s" by (simp_all add: t_def)
    ultimately show ?thesis using old unfolding conn_ok_def by metis
  qed
  moreover have "owners_ok {?p} held t"
  proof -
    have own: "owners_ok {} held s" using wf unfolding server_wf_def by blast
    have "?p \<noteq> p" if "connections s fd = Some p" for fd p
      using wf_mapped(1) [OF wf that] count by auto
    then have "sock d = fd" if "connections t fd = Some p" "conns t p = Some d" for fd p d
      using that wf_mapped_sock [OF wf, of fd p d] by (auto simp: t_def split: if_splits)
    moreover have "0 < use_count t p" if "conns t p \<noteq> None" "p \<noteq> ?p" for p
      using that wf_owned [OF wf, of p] by (simp add: t_def)
    moreover have "conns t p \<noteq> None" if "0 < use_count t p" for p
      using that wf_counted [OF wf, of p] by (simp add: t_def)
    moreover have "held p + (if p \<in> ran (connections t) then 1 else 0) \<le> use_count t p" for p
      using own unfolding owners_ok_def t_def by simp
    ultimately show ?thesis unfolding owners_ok_def by blast
  qed
  ultimately show "server_wf {?p} held t"
    using wf unfolding server_wf_def channels_ok_def conns_ok_def reactors_ok_def by (simp add: t_def)
  show "building (sock c) ?p t" using count q by (simp add: building_def t_def)
qed

lemma triple_new_Connection:
  "triple (\<lambda>s. server_wf {} held s \<and> event_loops s l \<noteq> None) (new_Connection os (Some l) fd)
    (\<lambda>p s. server_wf {p} held s \<and> building fd p s) (fails held)"
proof -
  have sock: "triple (\<lambda>s. server_wf {} held s \<and> event_loops s l \<noteq> None) (new_Socket os)
      (\<lambda>own s. server_wf {} held s \<and> event_loops s l \<noteq> None) (fails held)"
  proof (rule tripleI)
    fix s x t
    assume pre: "server_wf {} held s \<and> event_loops s l \<noteq> None" and run: "new_Socket os s = Some (Inr x, t)"
    have more: "world.more t = world.more s" by (rule world_onlyD(1) [OF world_only_new_Socket run])
    from wf_world [OF more] world_more_fields(3) [OF more] pre
    show "server_wf {} held t \<and> event_loops t l \<noteq> None" by simp
  next
    fix s e t
    assume "server_wf {} held s \<and> event_loops s l \<noteq> None" and "new_Socket os s = Some (Inl e, t)"
    then show "fails held e t" using tripleD(2) [OF triple_world [OF world_only_new_Socket]] by blast
  qed
  have fin: "triple (\<lambda>s. server_wf {} held s \<and> (\<exists>q. ch = Some q \<and> fresh_chan fd q s))
      (\<lambda>s. Some (Inr (next_ptr s),
         s\<lparr>conns := (conns s)(next_ptr s \<mapsto> c), next_ptr := Suc (next_ptr s)\<rparr>))
      (\<lambda>p s. server_wf {p} held s \<and> building fd p s) (fails held)"
    if "conn_channel c = ch" "sock c = fd" for ch c
    using that wf_new_connection [of held _ c] by (auto simp: triple_def)
  have chan: "triple (\<lambda>s. server_wf {} held s \<and> event_loops s l \<noteq> None)
      (bindC (new_Channel l fd) (\<lambda>q.
        seqC (unwinding (seqC (Channel_EnableRead os q) (Channel_UseET os q))
                        (seqC (delete_Channel os q) (delete_Socket os fd)))
             (ret (Some q))))
      (\<lambda>ch s. server_wf {} held s \<and> (\<exists>q. ch = Some q \<and> fresh_chan fd q s)) (fails held)"
    by (rule triple_bindC [OF triple_new_Channel], rule triple_seqC [OF triple_register])
      (simp add: triple_ret)
  show ?thesis
    unfolding new_Connection_def option.case
    by (rule triple_bindC [OF sock], rule triple_bindC [OF chan], rule fin) simp_all
qed


text \<open>Its callbacks.\<close>

lemma set_connection_run:
  "conns s p = Some c \<Longrightarrow>
   set_connection p f s = Some (Inr (), s\<lparr>conns := (conns s)(p \<mapsto> f c)\<rparr>)"
  by (simp add: set_connection_def with_connection_def)

lemma the_connection_run:
  "conns s p = Some c \<Longrightarrow> the_connection p s = Some (Inr c, s)"
  by (simp add: the_connection_def)

lemma triple_set_callback:
  fixes E :: "fault \<Rightarrow> ('k, 'z) server_scheme \<Rightarrow> bool"
  assumes "\<And>c. conn_channel (f c) = conn_channel c" and "\<And>c. sock (f c) = sock c"
  shows "triple (\<lambda>s. server_wf {p} held s \<and> building fd p s) (set_connection p f)
    (\<lambda>u s. server_wf {p} held s \<and> building fd p s) E"
proof (rule tripleI)
  fix s t :: "('k, 'z) server_scheme" and u
  assume pre: "server_wf {p} held s \<and> building fd p s" and run: "set_connection p f s = Some (Inr u, t)"
  then obtain c where c: "conns s p = Some c" unfolding building_def by blast
  with run have t: "t = s\<lparr>conns := (conns s)(p \<mapsto> f c)\<rparr>" by (simp add: set_connection_run)
  show "server_wf {p} held t \<and> building fd p t"
    using pre c wf_set_connection [of "{p}" held s p c "f c"] assms [of c]
    by (auto simp: t building_def)
next
  fix s t :: "('k, 'z) server_scheme" and e
  assume "server_wf {p} held s \<and> building fd p s" and "set_connection p f s = Some (Inl e, t)"
  then show "E e t" unfolding building_def by (auto simp: set_connection_run)
qed

lemma wf_bind_callback:
  fixes s :: "('k, 'z) server_scheme"
  assumes wf: "server_wf fresh held s" and c: "conns s p = Some c" "conn_channel c = Some q"
    and ch: "channels s q = Some ch" "ch_fd ch = sock c" "q \<noteq> acc_channel (the_acceptor s)"
  defines "ch' \<equiv> ch\<lparr>read_callback := Some (BusinessLogicCb p)\<rparr>"
  shows "server_wf fresh held (s\<lparr>channels := (channels s)(q \<mapsto> ch')\<rparr>)" (is "server_wf fresh held ?t")
proof -
  have "chan_ok ?t r k = chan_ok s r k" for r k by (simp add: chan_ok_def)
  moreover have "chan_ok s q ch'"
    using wf_chan [OF wf ch(1)] c by (simp add: chan_ok_def ch'_def)
  ultimately have "channels_ok ?t"
    using wf unfolding server_wf_def channels_ok_def by auto
  moreover have "conn_ok ?t p' d" if "conns s p' = Some d" for p' d
  proof -
    have "conn_ok s p' d" using wf that unfolding server_wf_def conns_ok_def by blast
    then show ?thesis using ch unfolding conn_ok_def ch'_def by fastforce
  qed
  ultimately show ?thesis
    using wf unfolding server_wf_def conns_ok_def owners_ok_def reactors_ok_def by simp
qed

lemma triple_SetOnMessageCallBack:
  fixes E :: "fault \<Rightarrow> ('k, 'z) server_scheme \<Rightarrow> bool"
  shows "triple (\<lambda>s. server_wf {p} held s \<and> building fd p s) (Connection_SetOnMessageCallBack p func)
    (\<lambda>u s. server_wf {p} held s \<and> building fd p s) E"
  unfolding Connection_SetOnMessageCallBack_def
proof (rule triple_seqC [OF triple_set_callback])
  show "triple (\<lambda>s. server_wf {p} held s \<and> building fd p s)
    (bindC (the_connection p) (\<lambda>c.
       case conn_channel c of
         None \<Rightarrow> throw (Undefined NullDeref)
       | Some q \<Rightarrow> Channel_SetReadCallBack q (Some (BusinessLogicCb p))))
    (\<lambda>u s. server_wf {p} held s \<and> building fd p s) E"
  proof (rule tripleI)
    fix s t :: "('k, 'z) server_scheme" and u
    assume pre: "server_wf {p} held s \<and> building fd p s"
      and run: "bindC (the_connection p) (\<lambda>c.
         case conn_channel c of
           None \<Rightarrow> throw (Undefined NullDeref)
         | Some q \<Rightarrow> Channel_SetReadCallBack q (Some (BusinessLogicCb p))) s = Some (Inr u, t)"
    then have wf: "server_wf {p} held s" by simp
    from pre obtain c q where c: "conns s p = Some c" "conn_channel c = Some q" "sock c = fd"
      "use_count s p = 0" unfolding building_def by blast
    from wf_conn [OF wf c(1)] c(2) obtain ch where ch: "channels s q = Some ch" "ch_fd ch = fd"
      "q \<noteq> acc_channel (the_acceptor s)" using c(3) by auto
    have "t = s\<lparr>channels := (channels s)(q \<mapsto> ch\<lparr>read_callback := Some (BusinessLogicCb p)\<rparr>)\<rparr>"
      using run c ch by (simp add: the_connection_def Channel_SetReadCallBack_def)
    with c show "server_wf {p} held t \<and> building fd p t"
      using wf_bind_callback [OF wf c(1,2) ch(1) _ ch(3)] ch(2) by (simp add: building_def)
  next
    fix s t :: "('k, 'z) server_scheme" and e
    assume pre: "server_wf {p} held s \<and> building fd p s"
      and run: "bindC (the_connection p) (\<lambda>c.
         case conn_channel c of
           None \<Rightarrow> throw (Undefined NullDeref)
         | Some q \<Rightarrow> Channel_SetReadCallBack q (Some (BusinessLogicCb p))) s = Some (Inl e, t)"
    from pre obtain c q where c: "conns s p = Some c" "conn_channel c = Some q"
      unfolding building_def by blast
    with pre wf_conn [of "{p}" held s p c] obtain ch where "channels s q = Some ch" by auto
    with run c show "E e t" by (simp add: the_connection_def Channel_SetReadCallBack_def)
  qed
qed simp_all


section \<open>Filing the connection\<close>

text \<open>
  The new connection replaces what the map held for its descriptor; the reference to what was
  there before becomes the handler's.
\<close>

definition also_held :: "nat option \<Rightarrow> (nat \<Rightarrow> nat) \<Rightarrow> nat \<Rightarrow> nat" where
  "also_held old held = (case old of None \<Rightarrow> held | Some q \<Rightarrow> held(q := Suc (held q)))"

lemma also_held_simps [simp]:
  "also_held None held = held"
  "also_held (Some q) held p = (if p = q then Suc (held p) else held p)"
  by (simp_all add: also_held_def)

text \<open>Overwriting an entry whose value no other key has.\<close>

lemma ran_overwrite:
  assumes "\<And>r x. m r = Some x \<Longrightarrow> m k = Some x \<Longrightarrow> r = k"
  shows "x \<in> ran (m(k \<mapsto> v)) \<longleftrightarrow> x = v \<or> x \<in> ran m \<and> m k \<noteq> Some x"
proof (cases "x = v")
  case False
  have "x \<in> ran (m(k \<mapsto> v)) \<longleftrightarrow> (\<exists>r. r \<noteq> k \<and> m r = Some x)"
    using False by (auto simp: ran_def)
  moreover have "(\<exists>r. r \<noteq> k \<and> m r = Some x) \<longleftrightarrow> x \<in> ran m \<and> m k \<noteq> Some x"
    unfolding ran_def mem_Collect_eq using assms by metis
  ultimately show ?thesis using False by simp
qed (auto simp: ran_def)

lemma wf_map_insert:
  fixes s :: "('k, 'z) server_scheme"
  assumes wf: "server_wf {p} held s" and new: "building fd p s"
  defines "t \<equiv> s\<lparr>connections := (connections s)(fd \<mapsto> p), use_count := (use_count s)(p := 1)\<rparr>"
  shows "server_wf {} (also_held (connections s fd) held) t"
proof -
  from new obtain c where c: "conns s p = Some c" "sock c = fd" and zero: "use_count s p = 0"
    unfolding building_def by blast
  have own: "\<And>p'. held p' + (if p' \<in> ran (connections s) then 1 else 0) \<le> use_count s p'"
    using wf unfolding server_wf_def owners_ok_def by blast
  have away: "connections s r \<noteq> Some p" for r using own [of p] zero ranI [of "connections s" r p] by auto
  have still: "r = fd" if "connections s r = Some p'" "connections s fd = Some p'" for r p'
  proof -
    from wf_mapped(3) [OF wf that(1)] obtain c' where "conns s p' = Some c'" by auto
    with wf_mapped_sock [OF wf that(1)] wf_mapped_sock [OF wf that(2)] show ?thesis by metis
  qed
  have ran: "p' \<in> ran (connections t) \<longleftrightarrow> p' = p \<or> p' \<in> ran (connections s) \<and> connections s fd \<noteq> Some p'" for p'
    unfolding t_def by simp (rule ran_overwrite, rule still)
  have "also_held (connections s fd) held p' + (if p' \<in> ran (connections t) then 1 else 0)
      \<le> use_count t p'" for p'
    using own [of p'] zero away [of fd] ranI [of "connections s" fd] unfolding ran
    by (cases "connections s fd") (auto simp: t_def split: if_splits)
  moreover have "sock d = r" if "connections t r = Some p'" "conns t p' = Some d" for r p' d
    using that c wf_mapped_sock [OF wf, of r p' d] by (auto simp: t_def split: if_splits)
  moreover have "conns t p' \<noteq> None" if "0 < use_count t p'" for p'
    using that c wf_counted [OF wf, of p'] by (auto simp: t_def split: if_splits)
  moreover have "0 < use_count t p'" if "conns t p' \<noteq> None" for p'
    using that wf unfolding server_wf_def owners_ok_def by (auto simp: t_def)
  ultimately have "owners_ok {} (also_held (connections s fd) held) t"
    unfolding owners_ok_def by blast
  then show ?thesis
    using wf unfolding server_wf_def channels_ok_def chan_ok_def conns_ok_def conn_ok_def reactors_ok_def
    by (simp add: t_def)
qed

text \<open>The rest of \<open>NewConnection\<close>, once the object is built.\<close>

lemma triple_file_connection:
  fixes usr :: "('k, 'z) usr"
  assumes "usr_ok usr"
  shows "triple (\<lambda>s. server_wf {p} held s \<and> building fd p s)
    (bindC (gets (\<lambda>s. connections s fd)) (\<lambda>old.
       seqC (modify (\<lambda>s. s\<lparr>connections := (connections s)(fd \<mapsto> p),
                           use_count := (use_count s)(p := 1)\<rparr>))
      (seqC (case old of None \<Rightarrow> ret () | Some q \<Rightarrow> unshare os q)
      (bindC (gets on_connection_cb) (\<lambda>cb.
       case cb of
         None \<Rightarrow> ret ()
       | Some u \<Rightarrow> seqC (share p) (scoped (usr u p) (unshare os p)))))))
    (\<lambda>u. server_wf {} held) (fails held)"
proof (rule triple_bindC)
  show "triple (\<lambda>s. server_wf {p} held s \<and> building fd p s) (gets (\<lambda>s. connections s fd))
      (\<lambda>old s. server_wf {p} held s \<and> building fd p s \<and> connections s fd = old) (fails held)"
    by (rule triple_gets) simp
next
  fix old
  let ?filed = "\<lambda>s. server_wf {} (also_held old held) s \<and> connections s fd = Some p"
  have filing: "triple (\<lambda>s. server_wf {p} held s \<and> building fd p s \<and> connections s fd = old)
      (modify (\<lambda>s. s\<lparr>connections := (connections s)(fd \<mapsto> p), use_count := (use_count s)(p := 1)\<rparr>))
      (\<lambda>u. ?filed) (fails held)"
    by (rule triple_modify) (auto dest: wf_map_insert)
  have old: "triple ?filed (case old of None \<Rightarrow> ret () | Some q \<Rightarrow> unshare os q)
      (\<lambda>u s. server_wf {} held s \<and> connections s fd = Some p) (fails held)"
    by (cases old) (auto simp: also_held_def triple_def dest: unshare_run)
  have cb: "triple (\<lambda>s. server_wf {} held s \<and> connections s fd = Some p)
      (case cb of None \<Rightarrow> ret ()
       | Some u \<Rightarrow> seqC (share p) (scoped (usr u p) (unshare os p)))
      (\<lambda>u. server_wf {} held) (fails held)" for cb
  proof (cases cb)
    case None
    then show ?thesis by (simp add: triple_def)
  next
    case (Some u)
    have "triple (\<lambda>s. server_wf {} held s \<and> connections s fd = Some p)
        (seqC (share p) (scoped (usr u p) (unshare os p))) (\<lambda>u. server_wf {} held) (fails held)"
      by (rule triple_seqC [OF triple_pre [OF triple_share] triple_owned_call [OF triple_usr [OF assms]]])
        (auto dest: wf_mapped(1))
    with Some show ?thesis by simp
  qed
  show "triple (\<lambda>s. server_wf {p} held s \<and> building fd p s \<and> connections s fd = old)
    (seqC (modify (\<lambda>s. s\<lparr>connections := (connections s)(fd \<mapsto> p), use_count := (use_count s)(p := 1)\<rparr>))
      (seqC (case old of None \<Rightarrow> ret () | Some q \<Rightarrow> unshare os q)
      (bindC (gets on_connection_cb) (\<lambda>cb.
       case cb of
         None \<Rightarrow> ret ()
       | Some u \<Rightarrow> seqC (share p) (scoped (usr u p) (unshare os p))))))
    (\<lambda>u. server_wf {} held) (fails held)"
    by (rule triple_seqC [OF filing], rule triple_seqC [OF old], rule triple_bindC [OF triple_gets cb])
qed

end
