(* ===== verification/ServerLife.thy ===== *)
theory ServerLife
  imports ServerAccept
begin

text \<open>
  The server from its construction on: every handler of every reactor, in any order, keeps the
  invariant; the constructor establishes it; and no handler touches an object that is gone.
\<close>

unbundle bit_operations_syntax

section \<open>Handlers\<close>

lemma reactor_of_less: "0 < n \<Longrightarrow> reactor_of fd n < n"
  unfolding reactor_of_def by (simp add: nat_less_iff)

lemma triple_NewConnection:
  fixes usr :: "('k, 'z) usr"
  assumes "usr_ok usr"
  shows "triple (server_wf {} held) (Server_NewConnection os usr fd)
    (\<lambda>u. server_wf {} held) (fails held)"
  unfolding Server_NewConnection_def
proof (rule triple_seqC [OF triple_Errif], simp add: fails_def, assumption, rule triple_bindC)
  show "triple (server_wf {} held) (gets sub_reactors)
      (\<lambda>rs s. server_wf {} held s \<and> rs = sub_reactors s) (fails held)"
    by (rule triple_gets) simp
next
  fix rs :: "nat list"
  show "triple (\<lambda>s. server_wf {} held s \<and> rs = sub_reactors s)
    (if length rs = 0 then throw (Undefined DivByZero)
     else
       bindC (new_Connection os (Some (rs ! reactor_of fd (length rs))) fd) (\<lambda>p.
       seqC (Connection_SetDeleteConnectionCallBack p (Some DeleteConnectionCb))
      (bindC (gets on_message_cb) (\<lambda>func.
       seqC (Connection_SetOnMessageCallBack p func)
      (bindC (gets (\<lambda>s. connections s fd)) (\<lambda>old.
       seqC (modify (\<lambda>s. s\<lparr>connections := (connections s)(fd \<mapsto> p),
                           use_count := (use_count s)(p := 1)\<rparr>))
      (seqC (case old of None \<Rightarrow> ret () | Some q \<Rightarrow> unshare os q)
      (bindC (gets on_connection_cb) (\<lambda>cb.
       case cb of
         None \<Rightarrow> ret ()
       | Some u \<Rightarrow> seqC (share p) (scoped (usr u p) (unshare os p)))))))))))
    (\<lambda>u. server_wf {} held) (fails held)"
  proof (cases "length rs = 0")
    case True
    then show ?thesis by (auto simp: triple_def server_wf_def reactors_ok_def)
  next
    case False
    let ?l = "rs ! reactor_of fd (length rs)"
    have "?l \<in> set rs" using False reactor_of_less [of "length rs" fd] by simp
    then have pre: "server_wf {} held s \<and> event_loops s ?l \<noteq> None"
      if "server_wf {} held s \<and> rs = sub_reactors s" for s :: "('k, 'z) server_scheme"
      using that wf_loop [of "{}" held s ?l] by auto
    have rest: "triple (\<lambda>s. server_wf {p} held s \<and> building fd p s)
      (seqC (Connection_SetDeleteConnectionCallBack p (Some DeleteConnectionCb))
      (bindC (gets on_message_cb) (\<lambda>func.
       seqC (Connection_SetOnMessageCallBack p func)
      (bindC (gets (\<lambda>s. connections s fd)) (\<lambda>old.
       seqC (modify (\<lambda>s. s\<lparr>connections := (connections s)(fd \<mapsto> p),
                           use_count := (use_count s)(p := 1)\<rparr>))
      (seqC (case old of None \<Rightarrow> ret () | Some q \<Rightarrow> unshare os q)
      (bindC (gets on_connection_cb) (\<lambda>cb.
       case cb of
         None \<Rightarrow> ret ()
       | Some u \<Rightarrow> seqC (share p) (scoped (usr u p) (unshare os p))))))))))
      (\<lambda>u. server_wf {} held) (fails held)" for p
      unfolding Connection_SetDeleteConnectionCallBack_def
      by (rule triple_seqC [OF triple_set_callback], simp, simp,
          rule triple_bindC [OF triple_gets], assumption,
          rule triple_seqC [OF triple_SetOnMessageCallBack], rule triple_file_connection [OF assms])
    show ?thesis
      unfolding if_not_P [OF False]
      by (rule triple_bindC [OF triple_pre [OF triple_new_Connection pre] rest])
  qed
qed

lemma triple_AcceptConnection:
  assumes "usr_ok usr"
  shows "triple (server_wf {} held) (Acceptor_AcceptConnection os usr)
    (\<lambda>u. server_wf {} held) (fails held)"
  unfolding Acceptor_AcceptConnection_def
proof (rule triple_bindC [OF triple_gets], assumption,
    rule triple_bindC [OF triple_world [OF world_only_Accept]])
  fix acc and x :: "int \<times> inet_address"
  have "triple (server_wf {} held)
      (if has_new_connection_callback acc then Server_NewConnection os usr sock
       else throw BadFunctionCall) (\<lambda>u. server_wf {} held) (fails held)" for sock
    using triple_NewConnection [OF assms] by (auto intro!: triple_throw simp: fails_def)
  then show "triple (server_wf {} held)
      (case x of (fd, clnt_addr) \<Rightarrow>
         bindC (Socket_of_fd fd) (\<lambda>clnt_sock.
         seqC (Socket_Setnonblocking os clnt_sock)
              (if has_new_connection_callback acc then Server_NewConnection os usr clnt_sock
               else throw BadFunctionCall)))
      (\<lambda>u. server_wf {} held) (fails held)"
    by (cases x) (auto intro!: triple_bindC [OF triple_world [OF world_only_Socket_of_fd]]
        triple_seqC [OF triple_world [OF world_only_Setnonblocking]])
qed

text \<open>What a channel of the server runs, in a state where the channel exists.\<close>

lemma triple_read_callback:
  assumes "read_bounded os" and "usr_ok usr"
  shows "triple (\<lambda>s. server_wf {} held s \<and> channels s q = Some ch)
    (call_back (run_callback os usr) (read_callback ch)) (\<lambda>u. server_wf {} held) (fails held)"
proof (cases "read_callback ch")
  case None
  then show ?thesis by (simp add: call_back_def triple_def fails_def)
next
  case (Some cb)
  show ?thesis
  proof (cases cb)
    case AcceptConnectionCb
    with Some show ?thesis
      by (auto simp: call_back_def intro: triple_pre [OF triple_AcceptConnection [OF assms(2)]])
  next
    case (BusinessLogicCb p)
    have pre: "server_wf {} held s \<and> conns s p \<noteq> None"
      if "server_wf {} held s \<and> channels s q = Some ch" for s :: "('a, 'b) server_scheme"
      using that wf_chan [of "{}" held s q ch] Some BusinessLogicCb by (auto simp: chan_ok_def)
    have "triple (\<lambda>s. server_wf {} held s \<and> channels s q = Some ch)
        (Connection_BusinessLogic os usr p) (\<lambda>u. server_wf {} held) (fails held)"
      by (rule triple_pre [OF triple_BusinessLogic [OF assms] pre])
    with Some BusinessLogicCb show ?thesis by (simp add: call_back_def)
  qed
qed

text \<open>
  Handling an event. Its only further way to end is following the pointer of a channel that is
  gone, before the callback has run or after it.
\<close>

definition stops :: "(nat \<Rightarrow> nat) \<Rightarrow> fault \<Rightarrow> ('k, 'z) server_scheme \<Rightarrow> bool" where
  "stops held e s \<longleftrightarrow> fails held e s \<or> e = Undefined UseAfterFree"

lemma triple_the_channel:
  "triple P (the_channel q) (\<lambda>ch s. P s \<and> channels s q = Some ch) (\<lambda>e s. e = Undefined UseAfterFree)"
  by (auto simp: triple_def the_channel_def split: option.splits)

lemma triple_HandleEvent:
  fixes usr :: "('k, 'z) usr"
  assumes "read_bounded os" and "usr_ok usr"
  shows "triple (server_wf {} held) (Channel_HandleEvent (run_callback os usr) q)
    (\<lambda>u. server_wf {} held) (stops held)"
  unfolding Channel_HandleEvent_def
proof (rule triple_bindC [OF triple_post [OF triple_the_channel]])
  show "\<And>ch s. server_wf {} held s \<and> channels s q = Some ch \<Longrightarrow>
      server_wf {} held s \<and> channels s q = Some ch" .
  show "\<And>e s. e = Undefined UseAfterFree \<Longrightarrow> stops held e s" by (simp add: stops_def)
next
  fix ch
  have rd: "triple (\<lambda>s. server_wf {} held s \<and> channels s q = Some ch)
      (if ready_events ch AND (EPOLLIN OR EPOLLPRI) \<noteq> 0
       then call_back (run_callback os usr) (read_callback ch) else ret ())
      (\<lambda>u. server_wf {} held) (stops held)"
    using triple_read_callback [OF assms, of held q ch]
    by (auto simp: triple_def stops_def split: sum.splits)
  have wr: "triple (server_wf {} held)
      (bindC (the_channel q) (\<lambda>ch'.
         if ready_events ch' AND EPOLLOUT \<noteq> 0
         then call_back (run_callback os usr) (write_callback ch') else ret ()))
      (\<lambda>u. server_wf {} held) (stops held)"
  proof (rule triple_bindC [OF triple_post [OF triple_the_channel]])
    show "\<And>ch s. server_wf {} held s \<and> channels s q = Some ch \<Longrightarrow>
        server_wf {} held s \<and> channels s q = Some ch" .
    show "\<And>e s. e = Undefined UseAfterFree \<Longrightarrow> stops held e s" by (simp add: stops_def)
    fix ch'
    have "write_callback ch' = None" if "server_wf {} held s \<and> channels s q = Some ch'"
      for s :: "('k, 'z) server_scheme"
      using that wf_chan [of "{}" held s q ch'] by (simp add: chan_ok_def)
    then show "triple (\<lambda>s. server_wf {} held s \<and> channels s q = Some ch')
      (if ready_events ch' AND EPOLLOUT \<noteq> 0
         then call_back (run_callback os usr) (write_callback ch') else ret ())
      (\<lambda>u. server_wf {} held) (stops held)"
      by (auto simp: triple_def call_back_def stops_def fails_def)
  qed
  show "triple (\<lambda>s. server_wf {} held s \<and> channels s q = Some ch)
     (seqC (if ready_events ch AND (EPOLLIN OR EPOLLPRI) \<noteq> 0
            then call_back (run_callback os usr) (read_callback ch) else ret ())
      (bindC (the_channel q) (\<lambda>ch'.
         if ready_events ch' AND EPOLLOUT \<noteq> 0
         then call_back (run_callback os usr) (write_callback ch') else ret ())))
     (\<lambda>u. server_wf {} held) (stops held)"
    by (rule triple_seqC [OF rd wr])
qed


text \<open>Waiting for events.\<close>

lemma wf_ready:
  assumes wf: "server_wf {} held s" and ch: "channels s q = Some ch"
  shows "server_wf {} held (s\<lparr>channels := (channels s)(q \<mapsto> ch\<lparr>ready_events := v\<rparr>)\<rparr>)"
proof -
  let ?t = "s\<lparr>channels := (channels s)(q \<mapsto> ch\<lparr>ready_events := v\<rparr>)\<rparr>"
  have "chan_ok ?t r k = chan_ok s r k" for r k by (simp add: chan_ok_def)
  moreover have "chan_ok s q (ch\<lparr>ready_events := v\<rparr>)"
    using wf_chan [OF wf ch] by (simp add: chan_ok_def)
  moreover have "conn_ok ?t p c" if "conns s p = Some c" for p c
  proof -
    have "conn_ok s p c" using wf that unfolding server_wf_def conns_ok_def by blast
    then show ?thesis using ch unfolding conn_ok_def by fastforce
  qed
  ultimately show ?thesis
    using wf unfolding server_wf_def channels_ok_def conns_ok_def owners_ok_def reactors_ok_def
    by auto
qed

lemma triple_Poll_channels:
  "triple (server_wf {} held) (Poll_channels evs) (\<lambda>ps. server_wf {} held) (stops held)"
proof (induction evs)
  case Nil
  show ?case by (simp add: triple_def)
next
  case (Cons e evs)
  have "triple (server_wf {} held) (Channel_SetReadyEvents (ev_ptr e) (ev_events e))
      (\<lambda>u. server_wf {} held) (stops held)"
    by (auto simp: triple_def Channel_SetReadyEvents_def set_channel_def stops_def wf_ready
        split: option.splits)
  then show ?case
    unfolding Poll_channels.simps by (rule triple_seqC [OF _ triple_bindC [OF Cons.IH triple_ret]])
qed

lemma triple_Poll:
  "triple (server_wf {} held) (Epoll_Poll os ep timeout) (\<lambda>ps. server_wf {} held) (stops held)"
  unfolding Epoll_Poll_def
proof (rule triple_bindC)
  have "world_only world.more (total (do_epoll_wait os ep MAX_EVENTS timeout))"
    unfolding do_epoll_wait_def by (intro world_only_rules) (rule syscall_frame(3))
  from triple_world [OF this] show "triple (server_wf {} held)
      (total (do_epoll_wait os ep MAX_EVENTS timeout)) (\<lambda>r. server_wf {} held) (stops held)"
    by (rule triple_post) (auto simp: stops_def)
next
  fix r :: "epoll_event list sysres"
  show "triple (server_wf {} held)
      (case r of SysErr e \<Rightarrow> throw (RuntimeError ''epoll wait error'') | SysOk evs \<Rightarrow> Poll_channels evs)
      (\<lambda>ps. server_wf {} held) (stops held)"
    by (cases r) (auto intro!: triple_throw triple_Poll_channels simp: stops_def fails_def)
qed

section \<open>The constructor\<close>

text \<open>
  \<open>booting\<close> holds while the constructor runs: no connection yet, every channel on a live loop with
  nothing but the acceptor's callback, no loop told to stop.
\<close>

definition booting :: "('k, 'z) server_scheme \<Rightarrow> bool" where
  "booting s \<longleftrightarrow> conns s = Map.empty \<and> connections s = Map.empty \<and> use_count s = (\<lambda>p. 0) \<and>
     (\<forall>q ch. channels s q = Some ch \<longrightarrow> q < next_ptr s \<and> write_callback ch = None \<and>
        listen_events ch AND NOT read_mask = 0 \<and> event_loops s (ch_loop ch) \<noteq> None \<and>
        (\<forall>p. read_callback ch \<noteq> Some (BusinessLogicCb p))) \<and>
     (\<forall>l el. event_loops s l = Some el \<longrightarrow> l < next_ptr s \<and> \<not> el_quit el)"

definition blank :: "('k, 'z) server_scheme \<Rightarrow> bool" where
  "blank s \<longleftrightarrow> conns s = Map.empty \<and> connections s = Map.empty \<and> use_count s = (\<lambda>p. 0) \<and>
     channels s = Map.empty \<and> event_loops s = Map.empty"

lemma booting_blank: "blank s \<Longrightarrow> booting s"
  by (simp add: blank_def booting_def)

lemma booting_world:
  fixes s t :: "('k, 'z) server_scheme"
  assumes "world.more t = world.more s"
  shows "booting t = booting s"
  using world_more_fields [OF assms] by (simp add: booting_def)

lemma booting_wf:
  assumes "booting s" and "channels s (acc_channel (the_acceptor s)) \<noteq> None"
    and "sub_reactors s \<noteq> []"
    and "\<forall>l \<in> insert (main_reactor s) (set (sub_reactors s)). event_loops s l \<noteq> None"
  shows "server_wf {} (\<lambda>p. 0) s"
  using assms unfolding booting_def server_wf_def channels_ok_def chan_ok_def conns_ok_def
    owners_ok_def reactors_ok_def by auto

lemma new_EventLoop_run:
  fixes s :: "('k, 'z) server_scheme"
  assumes run: "new_EventLoop os s = Some (Inr l, t)"
  shows "\<exists>ep. l = next_ptr s \<and>
    world.more t = world.more (s\<lparr>event_loops := (event_loops s)(next_ptr s \<mapsto> \<lparr>epfd = ep, el_quit = False\<rparr>),
      next_ptr := Suc (next_ptr s)\<rparr>)"
proof -
  obtain r u where ep: "do_epoll_create os s = (r, u)" by force
  then have more: "world.more u = world.more s"
    unfolding do_epoll_create_def by (rule syscall_frame(3))
  from run ep obtain e where "r = SysOk e"
    by (cases r) (auto simp: new_EventLoop_def new_Epoll_def)
  with run ep have t: "l = next_ptr u" "t = u\<lparr>event_loops := (event_loops u)(next_ptr u \<mapsto>
      \<lparr>epfd = e, el_quit = False\<rparr>), next_ptr := Suc (next_ptr u)\<rparr>"
    by (auto simp: new_EventLoop_def new_Epoll_def)
  note u = world_more_eq [OF more]
  show ?thesis
    unfolding t using world_more_fields(3,6) [OF more]
    by (intro exI [of _ e]) (simp, subst u, cases s, simp)
qed

definition grown :: "('k, 'z) server_scheme \<Rightarrow> ('k, 'z) server_scheme \<Rightarrow> bool" where
  "grown s t \<longleftrightarrow> booting t \<and> channels t = channels s \<and> the_acceptor t = the_acceptor s \<and>
     main_reactor t = main_reactor s \<and> event_loops s \<subseteq>\<^sub>m event_loops t"

lemma new_EventLoop_grown:
  assumes boot: "booting s" and run: "new_EventLoop os s = Some (Inr l, t)"
  shows "grown s t \<and> event_loops t l \<noteq> None"
proof -
  from new_EventLoop_run [OF run] obtain ep where l: "l = next_ptr s" and
    more: "world.more t = world.more (s\<lparr>event_loops := (event_loops s)(next_ptr s \<mapsto>
      \<lparr>epfd = ep, el_quit = False\<rparr>), next_ptr := Suc (next_ptr s)\<rparr>)" by blast
  have fresh: "event_loops s (next_ptr s) = None"
    using boot unfolding booting_def by (cases "event_loops s (next_ptr s)") auto
  show ?thesis
    using world_more_fields [OF more] boot fresh l
    by (auto simp: grown_def booting_def map_le_def intro: less_SucI)
qed

lemma grown_trans: "grown s t \<Longrightarrow> grown t u \<Longrightarrow> grown s u"
  by (auto simp: grown_def intro: map_le_trans)

lemma grown_live: "grown s t \<Longrightarrow> event_loops s l \<noteq> None \<Longrightarrow> event_loops t l \<noteq> None"
  by (auto simp: grown_def map_le_def dom_def)

lemma new_EventLoops_grown:
  assumes "booting s" and "new_EventLoops os n s = Some (Inr ls, t)"
  shows "grown s t \<and> length ls = n \<and> (\<forall>l \<in> set ls. event_loops t l \<noteq> None)"
  using assms
proof (induction n arbitrary: s ls)
  case 0
  then show ?case by (simp add: grown_def)
next
  case (Suc n)
  then obtain l u ls' where l: "new_EventLoop os s = Some (Inr l, u)"
    and ls: "new_EventLoops os n u = Some (Inr ls', t)" "ls = l # ls'"
    by (auto simp: bindC_returns)
  from new_EventLoop_grown [OF Suc.prems(1) l] have u: "grown s u" "event_loops u l \<noteq> None"
    by simp_all
  then have "booting u" by (simp add: grown_def)
  from Suc.IH [OF this ls(1)] u ls(2) show ?case
    by (auto intro: grown_trans dest: grown_live)
qed

subsection \<open>The acceptor\<close>

definition acceptor_stage :: "nat \<Rightarrow> ('k, 'z) server_scheme \<Rightarrow> bool" where
  "acceptor_stage main s \<longleftrightarrow> booting s \<and> event_loops s main \<noteq> None \<and> main_reactor s = main"

lemma triple_stage_world:
  assumes "world_only world.more m"
  shows "triple (acceptor_stage main) m (\<lambda>x. acceptor_stage main) (\<lambda>e s. True)"
proof (rule tripleI)
  fix s x t
  assume pre: "acceptor_stage main s" and run: "m s = Some (Inr x, t)"
  have more: "world.more t = world.more s" by (rule world_onlyD(1) [OF assms run])
  show "acceptor_stage main t"
    using pre booting_world [OF more] world_more_fields [OF more] by (simp add: acceptor_stage_def)
qed simp

definition chan_stage :: "nat \<Rightarrow> nat \<Rightarrow> ('k, 'z) server_scheme \<Rightarrow> bool" where
  "chan_stage main q s \<longleftrightarrow> acceptor_stage main s \<and> channels s q \<noteq> None"

lemma stage_set_channel:
  assumes "chan_stage main q s" and "channels s q = Some ch"
    and "write_callback ch' = None" and "listen_events ch' AND NOT read_mask = 0"
    and "ch_loop ch' = ch_loop ch" and "\<And>p. read_callback ch' \<noteq> Some (BusinessLogicCb p)"
  shows "chan_stage main q (s\<lparr>channels := (channels s)(q \<mapsto> ch')\<rparr>)"
  using assms unfolding chan_stage_def acceptor_stage_def booting_def by auto

lemma stage_chan:
  assumes "chan_stage main q s"
  obtains ch where "channels s q = Some ch" "write_callback ch = None"
    "listen_events ch AND NOT read_mask = 0" "event_loops s (ch_loop ch) \<noteq> None"
    "\<forall>p. read_callback ch \<noteq> Some (BusinessLogicCb p)"
  using assms unfolding chan_stage_def acceptor_stage_def booting_def by blast

lemma triple_stage_new_Channel:
  "triple (acceptor_stage main) (new_Channel main fd) (\<lambda>q. chan_stage main q) (\<lambda>e s. True)"
  by (auto simp: triple_def new_Channel_def chan_stage_def acceptor_stage_def booting_def
      Channel_init_def less_SucI)

lemma triple_stage_SetReadCallBack:
  "triple (chan_stage main q) (Channel_SetReadCallBack q (Some AcceptConnectionCb))
    (\<lambda>u. chan_stage main q) (\<lambda>e s. True)"
proof (rule tripleI)
  fix s u t
  assume st: "chan_stage main q s"
    and run: "Channel_SetReadCallBack q (Some AcceptConnectionCb) s = Some (Inr u, t)"
  from st obtain ch where ch: "channels s q = Some ch" "write_callback ch = None"
    "listen_events ch AND NOT read_mask = 0" by (rule stage_chan)
  with run have t: "t = s\<lparr>channels := (channels s)(q \<mapsto> ch\<lparr>read_callback := Some AcceptConnectionCb\<rparr>)\<rparr>"
    by (simp add: Channel_SetReadCallBack_def)
  show "chan_stage main q t"
    unfolding t by (rule stage_set_channel [OF st ch(1)]) (use ch in simp_all)
qed simp

lemma triple_stage_EnableRead:
  "triple (chan_stage main q) (Channel_EnableRead os q) (\<lambda>u. chan_stage main q) (\<lambda>e s. True)"
proof (rule tripleI)
  fix s u t
  assume st: "chan_stage main q s" and "Channel_EnableRead os q s = Some (Inr u, t)"
  then have run: "add_flags os (EPOLLIN OR EPOLLPRI) q s = Some (Inr u, t)"
    by (simp add: EnableRead_add_flags)
  from st obtain ch where ch: "channels s q = Some ch" "write_callback ch = None"
    "listen_events ch AND NOT read_mask = 0" "event_loops s (ch_loop ch) \<noteq> None"
    "\<forall>p. read_callback ch \<noteq> Some (BusinessLogicCb p)" by (rule stage_chan)
  then obtain el where el: "event_loops s (ch_loop ch) = Some el" by blast
  define ch2 where
    "ch2 b = ch\<lparr>listen_events := listen_events ch OR (EPOLLIN OR EPOLLPRI), in_epoll := b\<rparr>" for b
  obtain b where more: "world.more t = world.more (s\<lparr>channels := (channels s)(q \<mapsto> ch2 b)\<rparr>)"
    using add_flags_cases [OF ch(1) el, of os "EPOLLIN OR EPOLLPRI"] run
    by (cases s) (auto simp: ch2_def)
  have "(listen_events ch OR (EPOLLIN OR EPOLLPRI)) AND NOT read_mask = 0"
    using ch(3) read_mask_parts(1) by (simp add: bit.conj_disj_distrib2)
  then have "chan_stage main q (s\<lparr>channels := (channels s)(q \<mapsto> ch2 b)\<rparr>)"
    by (intro stage_set_channel [OF st ch(1)]) (use ch in \<open>simp_all add: ch2_def\<close>)
  with booting_world [OF more] world_more_fields [OF more] show "chan_stage main q t"
    by (simp add: chan_stage_def acceptor_stage_def)
qed simp


lemma triple_new_Acceptor:
  "triple (acceptor_stage main) (new_Acceptor os main ia)
    (\<lambda>a. chan_stage main (acc_channel a)) (\<lambda>e s. True)"
proof -
  have bind: "world_only world.more (bindC (Socket_Bind os fd ia) (\<lambda>ia'. Socket_Listen os fd))"
    for os :: "'k os" and fd
    unfolding Socket_Bind_def Socket_Listen_def
    by (intro world_only_bindC world_only_rules)
      (auto simp: do_bind_def do_listen_def intro: syscall_frame world_only_bindC world_only_rules
        split: sysres.splits)
  have unwind: "triple (acceptor_stage main)
      (unwinding (bindC (Socket_Bind os fd ia) (\<lambda>ia'. Socket_Listen os fd)) (delete_Socket os fd))
      (\<lambda>u. acceptor_stage main) (\<lambda>e s. True)" for fd
    by (rule triple_unwinding [OF triple_stage_world [OF bind]]) (simp_all add: triple_def split: sum.splits)
  have enable: "triple (chan_stage main q)
      (unwinding (Channel_EnableRead os q) (seqC (delete_Channel os q) (delete_Socket os fd)))
      (\<lambda>u. chan_stage main q) (\<lambda>e s. True)" for q fd
    by (rule triple_unwinding [OF triple_stage_EnableRead]) (simp_all add: triple_def split: sum.splits)
  show ?thesis
    unfolding new_Acceptor_def
    by (rule triple_bindC [OF triple_stage_world [OF world_only_new_Socket]],
        rule triple_bindC [OF unwind], rule triple_bindC [OF triple_stage_new_Channel],
        rule triple_seqC [OF triple_stage_SetReadCallBack], rule triple_seqC [OF enable])
      (simp add: triple_def)
qed

lemma Server_init_wf:
  fixes s :: "('k, 'z) server_scheme"
  assumes blank: "blank s" and hw: "0 < hw"
    and run: "Server_init os inet_addr hw ip port s = Some (Inr u, t)"
  shows "server_wf {} (\<lambda>p. 0) t \<and> length (sub_reactors t) = hw \<and> connections t = Map.empty"
proof -
  from run obtain m s1 where m: "new_EventLoop os s = Some (Inr m, s1)" and
    rest: "(bindC (new_Acceptor os m (InetAddress_make inet_addr ip port)) (\<lambda>a.
     seqC (modify (\<lambda>s. s\<lparr>the_acceptor := Acceptor_SetNewConnectionCallBack a\<rparr>))
    (seqC (modify (\<lambda>s. s\<lparr>pool_tasks := []\<rparr>))
    (bindC (new_EventLoops os hw) (\<lambda>ls. modify (\<lambda>s. s\<lparr>sub_reactors := ls\<rparr>))))))
      (s1\<lparr>main_reactor := m\<rparr>) = Some (Inr u, t)"
    unfolding Server_init_def by (auto simp: bindC_returns seqC_returns)
  define s2 where "s2 = s1\<lparr>main_reactor := m\<rparr>"
  from rest obtain a s3 ls s5 where
    a: "new_Acceptor os m (InetAddress_make inet_addr ip port) s2 = Some (Inr a, s3)" and
    ls: "new_EventLoops os hw (s3\<lparr>the_acceptor := Acceptor_SetNewConnectionCallBack a, pool_tasks := []\<rparr>) =
      Some (Inr ls, s5)"
    and t: "t = s5\<lparr>sub_reactors := ls\<rparr>"
    by (auto simp: bindC_returns seqC_returns s2_def)
  have "grown s s1 \<and> event_loops s1 m \<noteq> None"
    by (rule new_EventLoop_grown [OF booting_blank [OF blank] m])
  then have "acceptor_stage m s2" by (simp add: acceptor_stage_def grown_def booting_def s2_def)
  from tripleD(1) [OF triple_new_Acceptor this a] have st: "chan_stage m (acc_channel a) s3" .
  define s4 where "s4 = s3\<lparr>the_acceptor := Acceptor_SetNewConnectionCallBack a, pool_tasks := []\<rparr>"
  have "booting s4"
    using st by (simp add: s4_def chan_stage_def acceptor_stage_def booting_def)
  from new_EventLoops_grown [OF this ls [folded s4_def]]
  have g: "grown s4 s5" "length ls = hw" "\<forall>l \<in> set ls. event_loops s5 l \<noteq> None" by simp_all
  have "event_loops s4 m \<noteq> None" using st by (simp add: s4_def chan_stage_def acceptor_stage_def)
  with grown_live [OF g(1)] have main: "event_loops s5 m \<noteq> None" by blast
  have "server_wf {} (\<lambda>p. 0) t"
  proof (rule booting_wf)
    show "booting t" using g(1) by (simp add: t grown_def booting_def)
    show "channels t (acc_channel (the_acceptor t)) \<noteq> None"
      using g(1) st by (simp add: t grown_def s4_def chan_stage_def Acceptor_SetNewConnectionCallBack_def)
    show "sub_reactors t \<noteq> []" using g(2) hw by (auto simp: t)
    show "\<forall>l \<in> insert (main_reactor t) (set (sub_reactors t)). event_loops t l \<noteq> None"
      using g st main by (auto simp: t grown_def s4_def chan_stage_def acceptor_stage_def)
  qed
  moreover have "connections t = Map.empty" using g(1) by (simp add: t grown_def booting_def)
  ultimately show ?thesis using g(2) by (simp add: t)
qed

section \<open>The states the server reaches\<close>

text \<open>
  Between two steps of the server the kernel may do anything: peers send and hang up, timers fire.
  A step that did not run into undefined behaviour returned, or threw.
\<close>

definition ended :: "fault + 'a \<Rightarrow> bool" where
  "ended r \<longleftrightarrow> (\<forall>e. r = Inl e \<longrightarrow> is_exception e)"

inductive server_reach ::
  "'k os \<Rightarrow> ('k, 'z) usr \<Rightarrow> ('k, 'z) server_scheme \<Rightarrow> bool" for os usr where
  sr_init: "blank s \<Longrightarrow> 0 < hw \<Longrightarrow> Server_init os inet_addr hw ip port s = Some (Inr u, t) \<Longrightarrow>
     server_reach os usr t"
| sr_connect: "server_reach os usr s \<Longrightarrow> Server_SetOnConnectCallback func s = Some (r, t) \<Longrightarrow>
     server_reach os usr t"
| sr_message: "server_reach os usr s \<Longrightarrow> Server_SetOnMessageCallback func s = Some (r, t) \<Longrightarrow>
     server_reach os usr t"
| sr_kernel: "server_reach os usr s \<Longrightarrow> server_reach os usr (s\<lparr>kern := k\<rparr>)"
| sr_poll: "server_reach os usr s \<Longrightarrow> Epoll_Poll os ep timeout s = Some (ps, t) \<Longrightarrow> ended ps \<Longrightarrow>
     server_reach os usr t"
| sr_handle: "server_reach os usr s \<Longrightarrow>
     Channel_HandleEvent (run_callback os usr) q s = Some (r, t) \<Longrightarrow> ended r \<Longrightarrow>
     server_reach os usr t"

lemma stops_ended:
  assumes "triple (server_wf {} held) m (\<lambda>x. server_wf {} held) (stops held)"
    and "server_wf {} held s" and "m s = Some (r, t)" and "ended r"
  shows "server_wf {} held t"
proof (cases r)
  case (Inl e)
  with assms(4) have exn: "is_exception e" by (simp add: ended_def)
  from tripleD(2) [OF assms(1,2)] assms(3) Inl have "stops held e t" by blast
  with exn show ?thesis by (auto simp: stops_def fails_def)
next
  case (Inr x)
  with tripleD(1) [OF assms(1,2)] assms(3) show ?thesis by blast
qed

lemma wf_set_callbacks [simp]:
  "server_wf fresh held (s\<lparr>on_connection_cb := func\<rparr>) = server_wf fresh held s"
  "server_wf fresh held (s\<lparr>on_message_cb := func\<rparr>) = server_wf fresh held s"
  by (simp_all add: wf_defs)

lemma reach_wf:
  assumes "read_bounded os" and "usr_ok usr" and "server_reach os usr s"
  shows "server_wf {} (\<lambda>p. 0) s"
  using assms(3)
proof (induction rule: server_reach.induct)
  case (sr_init s hw inet_addr ip port u t)
  then show ?case using Server_init_wf by blast
next
  case (sr_connect s func r t)
  then show ?case by (auto simp: Server_SetOnConnectCallback_def)
next
  case (sr_message s func r t)
  then show ?case by (auto simp: Server_SetOnMessageCallback_def)
next
  case (sr_kernel s k)
  then show ?case by (simp add: wf_defs)
next
  case (sr_poll s ep timeout ps t)
  show ?case by (rule stops_ended [OF triple_Poll sr_poll.IH sr_poll.hyps(2,3)])
next
  case (sr_handle s q r t)
  show ?case
    by (rule stops_ended [OF triple_HandleEvent [OF assms(1,2)] sr_handle.IH sr_handle.hyps(2,3)])
qed

end
