(* ===== verification/ServerScript.thy ===== *)
theory ServerScript
  imports ServerLife ScriptKernel
begin

text \<open>
  A server under the scripted kernel: constructed, with the application's callbacks set, and with
  one client accepted. The witnesses of the theorems about the server start from these states.
\<close>

definition server_blank :: "script \<Rightarrow> script server" where
  "server_blank k = \<lparr>kern = k, cout = [], calls = [], event_loops = Map.empty, channels = Map.empty,
     next_ptr = 0, conns = Map.empty, use_count = (\<lambda>p. 0), connections = Map.empty,
     sub_reactors = [], main_reactor = 0,
     the_acceptor = \<lparr>acc_sock = -1, acc_channel = 0, has_new_connection_callback = False\<rparr>,
     on_connection_cb = None, on_message_cb = None, pool_tasks = []\<rparr>"

lemma blank_server_blank: "blank (server_blank k)"
  by (simp add: blank_def server_blank_def)

definition loopback :: "string \<Rightarrow> 32 word" where
  "loopback ip = 0x0100007F"

lemmas init_run = Server_init_def new_EventLoop_def new_Epoll_def new_Acceptor_def new_Socket_def
  Socket_Bind_def Socket_Listen_def InetAddress_GetAddr_def InetAddress_GetAddrLen_def new_Channel_def Channel_SetReadCallBack_def
  Channel_EnableRead_def EventLoop_UpdateChannel_def Epoll_UpdateChannel_def
  Channel_SetInEpoll_def Acceptor_SetNewConnectionCallBack_def Channel_init_def
  total_def do_defs script_ctl_def script_fds_def Let_def InetAddress_make_def InetAddress_SetAddr_def

text \<open>The script: one client on descriptor 9, which says hello and then closes.\<close>

definition hello_script :: script where
  "hello_script = script0\<lparr>sk_accepts := [SysOk 9], sk_reads := [SysOk ''hello'', SysErr EAGAIN, SysOk []],
     sk_writes := [SysOk 3, SysOk 2],
     sk_events := [[\<lparr>ev_events = EPOLLIN, ev_ptr = 1\<rparr>], [\<lparr>ev_events = EPOLLIN, ev_ptr = 4\<rparr>]]\<rparr>"

definition client_ready :: epoll_event where
  "client_ready = \<lparr>ev_events = EPOLLIN, ev_ptr = 4\<rparr>"

definition listen_event :: epoll_event where
  "listen_event = \<lparr>ev_events = EPOLLIN OR EPOLLPRI, ev_ptr = 1\<rparr>"

definition any_addr :: inet_address where
  "any_addr = InetAddress_make loopback ''0.0.0.0'' 8000"

definition up_kernel :: script where
  "up_kernel = hello_script\<lparr>sk_next := 7, sk_reg := (\<lambda>ep fd. None)(3 := [4 \<mapsto> listen_event])\<rparr>"

definition server_up :: "script server" where
  "server_up = \<lparr>kern = up_kernel, cout = [],
     calls = [CEpollCreate (SysOk 3), CSocket (SysOk 4), CBind 4 (addr any_addr) (SysOk ()),
       CListen 4 (SysOk ()), CEpollCtl 3 EPOLL_CTL_ADD 4 listen_event (SysOk ()),
       CEpollCreate (SysOk 5), CEpollCreate (SysOk 6)],
     event_loops = [0 \<mapsto> \<lparr>epfd = 3, el_quit = False\<rparr>, 2 \<mapsto> \<lparr>epfd = 5, el_quit = False\<rparr>,
       3 \<mapsto> \<lparr>epfd = 6, el_quit = False\<rparr>],
     channels = [1 \<mapsto> \<lparr>ch_loop = 0, ch_fd = 4, listen_events = EPOLLIN OR EPOLLPRI,
       ready_events = 0, in_epoll = True, read_callback = Some AcceptConnectionCb,
       write_callback = None\<rparr>],
     next_ptr = 4, conns = Map.empty, use_count = (\<lambda>p. 0), connections = Map.empty,
     sub_reactors = [2, 3], main_reactor = 0,
     the_acceptor = \<lparr>acc_sock = 4, acc_channel = 1, has_new_connection_callback = True\<rparr>,
     on_connection_cb = None, on_message_cb = None, pool_tasks = []\<rparr>"

definition server_ready :: "script server" where
  "server_ready = server_up\<lparr>on_message_cb := Some (UserCb 0)\<rparr>"

lemma new_EventLoops_2:
  "new_EventLoops os 2 = new_EventLoops os (Suc (Suc 0))"
  by (simp only: numeral_2_eq_2)

lemma server_up_run:
  "Server_init script_os loopback 2 ''0.0.0.0'' 8000 (server_blank hello_script)
    = Some (Inr (), server_up)"
  by (simp add: new_EventLoops_2 server_up_def init_run server_blank_def hello_script_def
      script0_def listen_event_def any_addr_def up_kernel_def) (simp add: numeral_eq_Suc)

lemma ready_reachable: "server_reach script_os usr server_ready"
proof -
  have "server_reach script_os usr server_up"
    by (rule sr_init [OF blank_server_blank _ server_up_run]) simp
  then show ?thesis
    by (rule sr_message [where r = "Inr ()" and func = "Some (UserCb 0)"])
      (simp add: server_ready_def Server_SetOnMessageCallback_def)
qed


text \<open>The main reactor is told of the client and accepts it.\<close>

definition client_conn :: connection where
  "client_conn = \<lparr>read_buffer = Buffer_init, write_buffer = Buffer_init, sock = 9,
     conn_channel = Some 4, delete_connection_callback = Some DeleteConnectionCb,
     on_connect_callback = None, on_message_callback = Some (UserCb 0), cstate = Connected\<rparr>"

definition client_channel :: channel where
  "client_channel = \<lparr>ch_loop = 3, ch_fd = 9, listen_events = EPOLLIN OR EPOLLPRI OR EPOLLET,
     ready_events = 0, in_epoll = True, read_callback = Some (BusinessLogicCb 5),
     write_callback = None\<rparr>"

definition ready_channel :: channel where
  "ready_channel = \<lparr>ch_loop = 0, ch_fd = 4, listen_events = EPOLLIN OR EPOLLPRI,
     ready_events = EPOLLIN, in_epoll = True, read_callback = Some AcceptConnectionCb,
     write_callback = None\<rparr>"

definition server_told :: "script server" where
  "server_told = server_ready\<lparr>kern := up_kernel\<lparr>sk_events := [[client_ready]]\<rparr>,
     calls := calls server_up @ [CEpollWait 3 1000 (-1) (SysOk [\<lparr>ev_events = EPOLLIN, ev_ptr = 1\<rparr>])],
     channels := [1 \<mapsto> ready_channel]\<rparr>"

definition accepted_kernel :: script where
  "accepted_kernel = up_kernel\<lparr>sk_accepts := [], sk_events := [[client_ready]], sk_flags := (\<lambda>fd. 0)(9 := O_NONBLOCK)\<rparr>"

definition conn_kernel :: script where
  "conn_kernel = accepted_kernel\<lparr>sk_next := 8,
     sk_reg := (\<lambda>ep fd. None)(3 := [4 \<mapsto> listen_event], 6 := [9 \<mapsto>
       \<lparr>ev_events = EPOLLIN OR EPOLLPRI OR EPOLLET, ev_ptr = 4\<rparr>])\<rparr>"

definition server_accepted :: "script server" where
  "server_accepted = server_told\<lparr>kern := accepted_kernel,
     calls := calls server_told @ [CAccept 4 (SysOk (9, zero_addr, sizeof_sockaddr_in)),
       CSetfl 9 O_NONBLOCK]\<rparr>"

definition built_channel :: channel where
  "built_channel = client_channel\<lparr>read_callback := None\<rparr>"

definition built_conn :: connection where
  "built_conn = client_conn\<lparr>delete_connection_callback := None, on_message_callback := None\<rparr>"

definition server_built :: "script server" where
  "server_built = server_accepted\<lparr>kern := conn_kernel,
     calls := calls server_accepted @ [CSocket (SysOk 7),
       CEpollCtl 6 EPOLL_CTL_ADD 9 \<lparr>ev_events = EPOLLIN OR EPOLLPRI, ev_ptr = 4\<rparr> (SysOk ()),
       CEpollCtl 6 EPOLL_CTL_MOD 9 \<lparr>ev_events = EPOLLIN OR EPOLLPRI OR EPOLLET, ev_ptr = 4\<rparr>
         (SysOk ())],
     channels := [1 \<mapsto> ready_channel, 4 \<mapsto> built_channel], next_ptr := 6,
     conns := [5 \<mapsto> built_conn]\<rparr>"

definition server_conn :: "script server" where
  "server_conn = server_built\<lparr>channels := [1 \<mapsto> ready_channel, 4 \<mapsto> client_channel],
     conns := [5 \<mapsto> client_conn], use_count := (\<lambda>p. 0)(5 := 1), connections := [9 \<mapsto> 5]\<rparr>"

lemmas poll_run = Epoll_Poll_def Channel_SetReadyEvents_def script_wait_def script_lists_def script_fds_def
  MAX_EVENTS_def

lemmas up_states = up_kernel_def hello_script_def script0_def server_ready_def server_up_def

lemma told_run:
  "Epoll_Poll script_os 3 (-1) server_ready = Some (Inr [1], server_told)"
  by (simp add: poll_run total_def do_defs server_told_def ready_channel_def up_states
      client_ready_def listen_event_def)

lemma told_fields [simp]:
  "kern server_told = up_kernel\<lparr>sk_events := [[client_ready]]\<rparr>"
  "channels server_told = [1 \<mapsto> ready_channel]" "next_ptr server_told = 4"
  "event_loops server_told = [0 \<mapsto> \<lparr>epfd = 3, el_quit = False\<rparr>, 2 \<mapsto> \<lparr>epfd = 5, el_quit = False\<rparr>,
     3 \<mapsto> \<lparr>epfd = 6, el_quit = False\<rparr>]"
  "conns server_told = Map.empty" "use_count server_told = (\<lambda>p. 0)"
  "connections server_told = Map.empty" "sub_reactors server_told = [2, 3]"
  "main_reactor server_told = 0"
  "the_acceptor server_told = \<lparr>acc_sock = 4, acc_channel = 1, has_new_connection_callback = True\<rparr>"
  "on_connection_cb server_told = None" "on_message_cb server_told = Some (UserCb 0)"
  by (simp_all add: server_told_def server_ready_def server_up_def)

lemma up_kernel_fields [simp]:
  "sk_accepts up_kernel = [SysOk 9]" "sk_flags up_kernel = (\<lambda>fd. 0)" "sk_next up_kernel = 7"
  "sk_reg up_kernel = (\<lambda>ep fd. None)(3 := [4 \<mapsto> listen_event])"
  "sk_reads up_kernel = [SysOk ''hello'', SysErr EAGAIN, SysOk []]"
  by (simp_all add: up_kernel_def hello_script_def script0_def)

lemma accept_step:
  "\<exists>ia t. Socket_Accept script_os 4 InetAddress_init server_told = Some (Inr (9, ia), t) \<and>
    Socket_Setnonblocking script_os 9 t = Some (Inr (), server_accepted)"
  by (simp add: Socket_Accept_def Socket_IsNonBlocking_def Socket_Setnonblocking_def do_setfl_def
      do_accept_def syscall_def script_accept_def script_lists_def script_fds_def server_accepted_def accepted_kernel_def)

lemma built_step:
  "new_Connection script_os (Some 3) 9 server_accepted = Some (Inr 5, server_built)"
  by (simp add: new_Connection_def new_Socket_def new_Channel_def Channel_EnableRead_def
      Channel_UseET_def EventLoop_UpdateChannel_def Epoll_UpdateChannel_def Channel_SetInEpoll_def
      Channel_init_def total_def do_socket_def do_epoll_ctl_def syscall_def script_ctl_def script_fds_def Let_def
      server_accepted_def server_built_def accepted_kernel_def conn_kernel_def built_conn_def
      client_conn_def built_channel_def client_channel_def numeral_eq_Suc or.assoc)


lemma filed_step:
  "Server_NewConnection script_os usr 9 server_accepted = Some (Inr (), server_conn)"
proof -
  have subs: "sub_reactors server_accepted = [2, 3]" by (simp add: server_accepted_def)
  have pick: "reactor_of 9 (Suc (Suc 0)) = 1" by (simp add: reactor_of_def)
  have built: "conns server_built = [5 \<mapsto> built_conn]" "channels server_built 4 = Some built_channel"
    "on_message_cb server_built = Some (UserCb 0)" "connections server_built = Map.empty"
    "on_connection_cb server_built = None" "use_count server_built = (\<lambda>p. 0)"
    "channels server_built = [1 \<mapsto> ready_channel, 4 \<mapsto> built_channel]"
    by (simp_all add: server_built_def server_accepted_def)
  show ?thesis
    using built_step subs pick
    by (simp add: Server_NewConnection_def Connection_SetDeleteConnectionCallBack_def
        Connection_SetOnMessageCallBack_def set_connection_run the_connection_run
        Channel_SetReadCallBack_def built server_conn_def built_conn_def client_conn_def
        built_channel_def client_channel_def)
qed

lemma accepted_run:
  "Channel_HandleEvent (run_callback script_os usr) 1 server_told = Some (Inr (), server_conn)"
proof -
  obtain ia t where "Socket_Accept script_os 4 InetAddress_init server_told = Some (Inr (9, ia), t)"
    "Socket_Setnonblocking script_os 9 t = Some (Inr (), server_accepted)"
    using accept_step by blast
  then have "run_callback script_os usr AcceptConnectionCb server_told = Some (Inr (), server_conn)"
    by (simp add: Acceptor_AcceptConnection_def Socket_of_fd_def filed_step)
  moreover have "channels server_told 1 = Some ready_channel"
    "channels server_conn 1 = Some ready_channel"
    by (simp_all add: server_conn_def)
  moreover have "ready_events ready_channel AND (EPOLLIN OR EPOLLPRI) \<noteq> 0"
    "ready_events ready_channel AND EPOLLOUT = 0" "read_callback ready_channel = Some AcceptConnectionCb"
    by (simp_all add: ready_channel_def epoll_flag_defs)
  ultimately show ?thesis by (blast intro: HandleEvent_read)
qed

lemma conn_reachable: "server_reach script_os usr server_conn"
proof -
  have "server_reach script_os usr server_told"
    by (rule sr_poll [OF ready_reachable told_run]) (simp add: ended_def)
  from sr_handle [OF this accepted_run] show ?thesis by (simp add: ended_def)
qed


text \<open>The reactor of the client is told of its message.\<close>

definition client_channel_ready :: channel where
  "client_channel_ready = client_channel\<lparr>ready_events := EPOLLIN\<rparr>"

definition server_hello :: "script server" where
  "server_hello = server_conn\<lparr>kern := conn_kernel\<lparr>sk_events := []\<rparr>,
     calls := calls server_conn @ [CEpollWait 6 1000 (-1) (SysOk [client_ready])],
     channels := [1 \<mapsto> ready_channel, 4 \<mapsto> client_channel_ready]\<rparr>"

lemma hello_run:
  "Epoll_Poll script_os 6 (-1) server_conn = Some (Inr [4], server_hello)"
proof -
  have "kern server_conn = conn_kernel" "sk_events conn_kernel = [[client_ready]]"
    "sk_reg conn_kernel 6 9 = Some \<lparr>ev_events = EPOLLIN OR EPOLLPRI OR EPOLLET, ev_ptr = 4\<rparr>"
    "channels server_conn = [1 \<mapsto> ready_channel, 4 \<mapsto> client_channel]"
    by (simp_all add: server_conn_def server_built_def server_accepted_def conn_kernel_def accepted_kernel_def)
  then show ?thesis
    by (simp add: poll_run total_def do_defs server_hello_def client_channel_ready_def client_ready_def)
qed

lemma hello_reachable: "server_reach script_os usr server_hello"
  by (rule sr_poll [OF conn_reachable hello_run]) (simp add: ended_def)

lemma conn_kernel_fields [simp]:
  "sk_reads conn_kernel = [SysOk ''hello'', SysErr EAGAIN, SysOk []]"
  "sk_writes conn_kernel = [SysOk 3, SysOk 2]" "sk_accepts conn_kernel = []"
  "sk_flags conn_kernel = (\<lambda>fd. 0)(9 := O_NONBLOCK)"
  by (simp_all add: conn_kernel_def accepted_kernel_def up_kernel_def hello_script_def)

lemma hello_fields [simp]:
  "kern server_hello = conn_kernel\<lparr>sk_events := []\<rparr>"
  "channels server_hello = [1 \<mapsto> ready_channel, 4 \<mapsto> client_channel_ready]"
  "conns server_hello = [5 \<mapsto> client_conn]" "use_count server_hello = (\<lambda>p. 0)(5 := 1)"
  "connections server_hello = [9 \<mapsto> 5]" "sub_reactors server_hello = [2, 3]"
  "main_reactor server_hello = 0"
  "the_acceptor server_hello = \<lparr>acc_sock = 4, acc_channel = 1, has_new_connection_callback = True\<rparr>"
  "event_loops server_hello = [0 \<mapsto> \<lparr>epfd = 3, el_quit = False\<rparr>, 2 \<mapsto> \<lparr>epfd = 5, el_quit = False\<rparr>,
     3 \<mapsto> \<lparr>epfd = 6, el_quit = False\<rparr>]"
  by (simp_all add: server_hello_def server_conn_def server_built_def server_accepted_def)

end
