(* ===== verification/ServerBuild.thy ===== *)
theory ServerBuild
  imports ServerLife
begin

text \<open>
  Building, filing and destroying a connection as functions: the exact calls and the exact objects
  each step leaves.
\<close>

unbundle bit_operations_syntax

lemma not_is_err_unit: "\<not> is_err r \<Longrightarrow> r = SysOk ()" for r :: "unit sysres"
  by (cases r) simp_all

lemma add_flags_ok:
  fixes s :: "('k, 'z) reactor_scheme"
  assumes ch: "channels s q = Some ch" and el: "event_loops s (ch_loop ch) = Some el"
    and run: "add_flags os m q s = Some (Inr u, t)"
  shows "\<exists>k. sys_epoll_ctl os (epfd el) (if in_epoll ch then EPOLL_CTL_MOD else EPOLL_CTL_ADD)
      (ch_fd ch) (chan_event q (ch\<lparr>listen_events := listen_events ch OR m\<rparr>)) (kern s) = (SysOk (), k) \<and>
    t = s\<lparr>kern := k,
      calls := calls s @ [CEpollCtl (epfd el) (if in_epoll ch then EPOLL_CTL_MOD else EPOLL_CTL_ADD)
        (ch_fd ch) (chan_event q (ch\<lparr>listen_events := listen_events ch OR m\<rparr>)) (SysOk ())],
      channels := (channels s)(q \<mapsto> ch\<lparr>listen_events := listen_events ch OR m, in_epoll := True\<rparr>)\<rparr>"
proof -
  define ch1 where "ch1 = ch\<lparr>listen_events := listen_events ch OR m\<rparr>"
  define op where "op = (if in_epoll ch then EPOLL_CTL_MOD else EPOLL_CTL_ADD)"
  obtain r k where ctl: "sys_epoll_ctl os (epfd el) op (ch_fd ch) (chan_event q ch1) (kern s) = (r, k)"
    and eq: "add_flags os m q s = Some (if is_err r
             then Inl (RuntimeError
               (if in_epoll ch then ''epoll modify error'' else ''epoll add error''))
             else Inr (),
             s\<lparr>kern := k,
               calls := calls s @ [CEpollCtl (epfd el) op (ch_fd ch) (chan_event q ch1) r],
               channels := (channels s)(q \<mapsto> ch1\<lparr>in_epoll := in_epoll ch \<or> \<not> is_err r\<rparr>)\<rparr>)"
    using add_flags_cases [OF ch el, of os m] by (fold ch1_def op_def) blast
  have ok: "r = SysOk ()" using eq run by (intro not_is_err_unit) (auto split: if_splits)
  have "t = s\<lparr>kern := k,
      calls := calls s @ [CEpollCtl (epfd el) op (ch_fd ch) (chan_event q ch1) (SysOk ())],
      channels := (channels s)(q \<mapsto> ch1\<lparr>in_epoll := True\<rparr>)\<rparr>"
    using eq run ok by simp
  with ctl ok show ?thesis unfolding ch1_def op_def by auto
qed

text \<open>The descriptor created for a connection, and what the constructor asks of the kernel.\<close>

definition read_flags :: "32 word" where
  "read_flags = EPOLLIN OR EPOLLPRI"

definition conn_calls :: "int \<Rightarrow> int \<Rightarrow> int \<Rightarrow> nat \<Rightarrow> syscall list" where
  "conn_calls own ep fd q =
     [CSocket (SysOk own),
      CEpollCtl ep EPOLL_CTL_ADD fd \<lparr>ev_events = read_flags, ev_ptr = q\<rparr> (SysOk ()),
      CEpollCtl ep EPOLL_CTL_MOD fd \<lparr>ev_events = read_flags OR EPOLLET, ev_ptr = q\<rparr> (SysOk ())]"

definition new_conn :: "int \<Rightarrow> nat \<Rightarrow> connection" where
  "new_conn fd q = \<lparr>read_buffer = Buffer_init, write_buffer = Buffer_init, sock = fd,
     conn_channel = Some q, delete_connection_callback = None, on_connect_callback = None,
     on_message_callback = None, cstate = Connected\<rparr>"

definition new_conn_channel :: "nat \<Rightarrow> int \<Rightarrow> channel" where
  "new_conn_channel l fd = (Channel_init l fd)\<lparr>listen_events := read_flags OR EPOLLET, in_epoll := True\<rparr>"

lemma unwinding_returns:
  "unwinding m clean s = Some (Inr x, t) \<Longrightarrow> m s = Some (Inr x, t)"
  by (auto simp: unwinding_def split: option.splits sum.splits prod.splits if_splits
      elim!: seqC_Some_cases)

lemma new_Connection_run:
  fixes s :: "('k, 'z) server_scheme"
  assumes l: "event_loops s l = Some el"
    and run: "new_Connection os (Some l) fd s = Some (Inr p, t)"
  shows "\<exists>own k1 k2 k3. sys_socket os (kern s) = (SysOk own, k1) \<and>
    sys_epoll_ctl os (epfd el) EPOLL_CTL_ADD fd \<lparr>ev_events = read_flags, ev_ptr = next_ptr s\<rparr> k1
      = (SysOk (), k2) \<and>
    sys_epoll_ctl os (epfd el) EPOLL_CTL_MOD fd
      \<lparr>ev_events = read_flags OR EPOLLET, ev_ptr = next_ptr s\<rparr> k2 = (SysOk (), k3) \<and>
    p = Suc (next_ptr s) \<and>
    t = s\<lparr>kern := k3, calls := calls s @ conn_calls own (epfd el) fd (next_ptr s),
      channels := (channels s)(next_ptr s \<mapsto> new_conn_channel l fd),
      next_ptr := Suc (Suc (next_ptr s)),
      conns := (conns s)(p \<mapsto> new_conn fd (next_ptr s))\<rparr>"
proof -
  let ?q = "next_ptr s"
  from run obtain own s1 where own: "new_Socket os s = Some (Inr own, s1)"
    and rest: "(bindC (bindC (new_Channel l fd) (\<lambda>q.
          seqC (unwinding (seqC (Channel_EnableRead os q) (Channel_UseET os q))
                          (seqC (delete_Channel os q) (delete_Socket os fd)))
               (ret (Some q)))) (\<lambda>ch s.
        Some (Inr (next_ptr s),
         s\<lparr>conns := (conns s)(next_ptr s \<mapsto>
             \<lparr>read_buffer = Buffer_init, write_buffer = Buffer_init, sock = fd, conn_channel = ch,
              delete_connection_callback = None, on_connect_callback = None,
              on_message_callback = None, cstate = Connected\<rparr>),
           next_ptr := Suc (next_ptr s)\<rparr>))) s1 = Some (Inr p, t)"
    unfolding new_Connection_def option.case by (auto simp: bindC_returns)
  from own obtain k1 where sock: "sys_socket os (kern s) = (SysOk own, k1)"
    and s1: "s1 = s\<lparr>kern := k1, calls := calls s @ [CSocket (SysOk own)]\<rparr>"
    unfolding new_Socket_def total_def do_socket_def syscall_def
    by (auto simp: bindC_returns split: prod.splits sysres.splits)
  define s2 where "s2 = s1\<lparr>channels := (channels s1)(?q \<mapsto> Channel_init l fd), next_ptr := Suc ?q\<rparr>"
  from rest obtain s4 where
    reg: "unwinding (seqC (Channel_EnableRead os ?q) (Channel_UseET os ?q))
        (seqC (delete_Channel os ?q) (delete_Socket os fd)) s2 = Some (Inr (), s4)"
    and t: "p = next_ptr s4" "t = s4\<lparr>conns := (conns s4)(p \<mapsto> new_conn fd ?q), next_ptr := Suc p\<rparr>"
    by (auto simp: bindC_returns seqC_returns new_Channel_def s1 s2_def new_conn_def)
  from unwinding_returns [OF reg] obtain s3 where
    enable: "add_flags os (EPOLLIN OR EPOLLPRI) ?q s2 = Some (Inr (), s3)"
    and et: "add_flags os EPOLLET ?q s3 = Some (Inr (), s4)"
    by (auto simp: seqC_returns EnableRead_add_flags UseET_add_flags)
  define ch2 where "ch2 = Channel_init l fd"
  have ch2: "channels s2 ?q = Some ch2" "event_loops s2 (ch_loop ch2) = Some el" "ch_fd ch2 = fd"
    "listen_events ch2 = 0" "\<not> in_epoll ch2"
    using l by (simp_all add: s2_def s1 ch2_def Channel_init_def)
  from add_flags_ok [OF ch2(1,2) enable] ch2(3-5) obtain k2 where
    ctl2: "sys_epoll_ctl os (epfd el) EPOLL_CTL_ADD fd \<lparr>ev_events = read_flags, ev_ptr = ?q\<rparr> (kern s2)
      = (SysOk (), k2)" and
    s3: "s3 = s2\<lparr>kern := k2, calls := calls s2 @
      [CEpollCtl (epfd el) EPOLL_CTL_ADD fd \<lparr>ev_events = read_flags, ev_ptr = ?q\<rparr> (SysOk ())],
      channels := (channels s2)(?q \<mapsto> ch2\<lparr>listen_events := read_flags, in_epoll := True\<rparr>)\<rparr>"
    by (auto simp: chan_event_def read_flags_def)
  define ch3 where "ch3 = ch2\<lparr>listen_events := read_flags, in_epoll := True\<rparr>"
  have ch3: "channels s3 ?q = Some ch3" "event_loops s3 (ch_loop ch3) = Some el" "ch_fd ch3 = fd"
    "listen_events ch3 = read_flags" "in_epoll ch3"
    using ch2 by (simp_all add: s3 ch3_def)
  from add_flags_ok [OF ch3(1,2) et] ch3(3-5) obtain k3 where
    ctl3: "sys_epoll_ctl os (epfd el) EPOLL_CTL_MOD fd
        \<lparr>ev_events = read_flags OR EPOLLET, ev_ptr = ?q\<rparr> (kern s3) = (SysOk (), k3)" and
    s4: "s4 = s3\<lparr>kern := k3, calls := calls s3 @
      [CEpollCtl (epfd el) EPOLL_CTL_MOD fd \<lparr>ev_events = read_flags OR EPOLLET, ev_ptr = ?q\<rparr> (SysOk ())],
      channels := (channels s3)(?q \<mapsto> ch3\<lparr>listen_events := read_flags OR EPOLLET, in_epoll := True\<rparr>)\<rparr>"
    by (auto simp: chan_event_def)
  have "kern s2 = k1" "kern s3 = k2" by (simp_all add: s2_def s1 s3)
  moreover have "p = Suc ?q" by (simp add: t(1) s4 s3 s2_def)
  moreover have "t = s\<lparr>kern := k3, calls := calls s @ conn_calls own (epfd el) fd ?q,
      channels := (channels s)(?q \<mapsto> new_conn_channel l fd), next_ptr := Suc (Suc ?q),
      conns := (conns s)(p \<mapsto> new_conn fd ?q)\<rparr>"
    unfolding t(2) s4 s3 s2_def s1 using \<open>p = Suc ?q\<close>
    by (simp add: conn_calls_def new_conn_channel_def ch3_def ch2_def Channel_init_def)
  ultimately show ?thesis
    using sock ctl2 ctl3 by (intro exI [of _ own] exI [of _ k1] exI [of _ k2] exI [of _ k3]) simp
qed


text \<open>The object as the server files it.\<close>

definition filed_conn :: "int \<Rightarrow> nat \<Rightarrow> user_callback option \<Rightarrow> connection" where
  "filed_conn fd q func = (new_conn fd q)\<lparr>delete_connection_callback := Some DeleteConnectionCb,
     on_message_callback := func\<rparr>"

definition filed_channel :: "nat \<Rightarrow> int \<Rightarrow> nat \<Rightarrow> channel" where
  "filed_channel l fd p = (new_conn_channel l fd)\<lparr>read_callback := Some (BusinessLogicCb p)\<rparr>"

text \<open>Up to the server's connect callback, for a descriptor the map does not have.\<close>

lemma NewConnection_filed:
  fixes s :: "('k, 'z) server_scheme"
  assumes subs: "sub_reactors s \<noteq> []"
    and l: "event_loops s (sub_reactors s ! reactor_of fd (length (sub_reactors s))) = Some el"
    and none: "connections s fd = None"
    and run: "Server_NewConnection os usr fd s = Some (Inr u, t)"
  shows "\<exists>own k t0. let q = next_ptr s; p = Suc (next_ptr s);
      l = sub_reactors s ! reactor_of fd (length (sub_reactors s)) in
    fd \<noteq> -1 \<and>
    (\<exists>k1 k2. sys_socket os (kern s) = (SysOk own, k1) \<and>
      sys_epoll_ctl os (epfd el) EPOLL_CTL_ADD fd \<lparr>ev_events = read_flags, ev_ptr = q\<rparr> k1 = (SysOk (), k2) \<and>
      sys_epoll_ctl os (epfd el) EPOLL_CTL_MOD fd
        \<lparr>ev_events = read_flags OR EPOLLET, ev_ptr = q\<rparr> k2 = (SysOk (), k)) \<and>
    t0 = s\<lparr>kern := k, calls := calls s @ conn_calls own (epfd el) fd q,
      channels := (channels s)(q \<mapsto> filed_channel l fd p), next_ptr := Suc p,
      conns := (conns s)(p \<mapsto> filed_conn fd q (on_message_cb s)),
      use_count := (use_count s)(p := 1), connections := (connections s)(fd \<mapsto> p)\<rparr> \<and>
    (case on_connection_cb s of None \<Rightarrow> t = t0
     | Some u \<Rightarrow> seqC (share p) (scoped (usr u p) (unshare os p)) t0 = Some (Inr (), t))"
proof -
  let ?l = "sub_reactors s ! reactor_of fd (length (sub_reactors s))"
  let ?q = "next_ptr s"
  have fd: "fd \<noteq> -1" using run by (auto simp: Server_NewConnection_def)
  have len: "length (sub_reactors s) \<noteq> 0" using subs by simp
  from run fd len obtain p s1 where new: "new_Connection os (Some ?l) fd s = Some (Inr p, s1)"
    and rest: "(seqC (Connection_SetDeleteConnectionCallBack p (Some DeleteConnectionCb))
      (bindC (gets on_message_cb) (\<lambda>func.
       seqC (Connection_SetOnMessageCallBack p func)
      (bindC (gets (\<lambda>s. connections s fd)) (\<lambda>old.
       seqC (modify (\<lambda>s. s\<lparr>connections := (connections s)(fd \<mapsto> p),
                           use_count := (use_count s)(p := 1)\<rparr>))
      (seqC (case old of None \<Rightarrow> ret () | Some q \<Rightarrow> unshare os q)
      (bindC (gets on_connection_cb) (\<lambda>cb.
       case cb of
         None \<Rightarrow> ret ()
       | Some u \<Rightarrow> seqC (share p) (scoped (usr u p) (unshare os p)))))))))) s1 = Some (Inr u, t)"
    by (auto simp: Server_NewConnection_def bindC_returns seqC_returns)
  from new_Connection_run [OF l new] obtain own k1 k2 k3 where
    ks: "sys_socket os (kern s) = (SysOk own, k1)"
      "sys_epoll_ctl os (epfd el) EPOLL_CTL_ADD fd \<lparr>ev_events = read_flags, ev_ptr = ?q\<rparr> k1
        = (SysOk (), k2)"
      "sys_epoll_ctl os (epfd el) EPOLL_CTL_MOD fd
        \<lparr>ev_events = read_flags OR EPOLLET, ev_ptr = ?q\<rparr> k2 = (SysOk (), k3)" and
    p: "p = Suc ?q" and
    s1: "s1 = s\<lparr>kern := k3, calls := calls s @ conn_calls own (epfd el) fd ?q,
      channels := (channels s)(?q \<mapsto> new_conn_channel ?l fd), next_ptr := Suc (Suc ?q),
      conns := (conns s)(p \<mapsto> new_conn fd ?q)\<rparr>" by blast
  define c1 where "c1 = (new_conn fd ?q)\<lparr>delete_connection_callback := Some DeleteConnectionCb\<rparr>"
  define s2 where "s2 = s1\<lparr>conns := (conns s1)(p \<mapsto> c1)\<rparr>"
  define s3 where "s3 = s2\<lparr>conns := (conns s2)(p \<mapsto> filed_conn fd ?q (on_message_cb s))\<rparr>"
  define s4 where "s4 = s3\<lparr>channels := (channels s3)(?q \<mapsto> filed_channel ?l fd p)\<rparr>"
  have c: "conns s1 p = Some (new_conn fd ?q)" by (simp add: s1)
  have del: "Connection_SetDeleteConnectionCallBack p (Some DeleteConnectionCb) s1 = Some (Inr (), s2)"
    using c by (simp add: Connection_SetDeleteConnectionCallBack_def set_connection_run s2_def c1_def)
  have cb: "on_message_cb s2 = on_message_cb s" by (simp add: s2_def s1)
  have fc: "filed_conn fd ?q f = c1\<lparr>on_message_callback := f\<rparr>" for f
    by (simp add: filed_conn_def c1_def)
  have ch: "channels s3 ?q = Some (new_conn_channel ?l fd)" by (simp add: s3_def s2_def s1)
  have msg: "Connection_SetOnMessageCallBack p (on_message_cb s) s2 = Some (Inr (), s4)"
  proof -
    have "conns s2 p = Some c1" by (simp add: s2_def)
    moreover have "conns s3 p = Some (filed_conn fd ?q (on_message_cb s))" by (simp add: s3_def)
    moreover have "conn_channel (filed_conn fd ?q f) = Some ?q" for f
      by (simp add: filed_conn_def new_conn_def)
    ultimately show ?thesis
      using ch by (simp add: Connection_SetOnMessageCallBack_def set_connection_run
        the_connection_run Channel_SetReadCallBack_def s4_def filed_channel_def flip: s3_def fc)
  qed
  define t0 where
    "t0 = s4\<lparr>connections := (connections s4)(fd \<mapsto> p), use_count := (use_count s4)(p := 1)\<rparr>"
  have "connections s4 = connections s" "on_connection_cb t0 = on_connection_cb s"
    by (simp_all add: t0_def s4_def s3_def s2_def s1)
  with rest del cb msg none have
    "case on_connection_cb s of None \<Rightarrow> t = t0
     | Some u \<Rightarrow> seqC (share p) (scoped (usr u p) (unshare os p)) t0 = Some (Inr (), t)"
    by (auto simp: t0_def split: option.splits)
  moreover have "t0 = s\<lparr>kern := k3, calls := calls s @ conn_calls own (epfd el) fd ?q,
      channels := (channels s)(?q \<mapsto> filed_channel ?l fd p), next_ptr := Suc p,
      conns := (conns s)(p \<mapsto> filed_conn fd ?q (on_message_cb s)),
      use_count := (use_count s)(p := 1), connections := (connections s)(fd \<mapsto> p)\<rparr>"
    by (simp add: t0_def s4_def s3_def s2_def s1 p)
  ultimately show ?thesis
    using ks fd unfolding p by (intro exI [of _ own] exI [of _ k3] exI [of _ t0]) (auto simp: Let_def)
qed

lemma NewConnection_run:
  fixes s :: "('k, 'z) server_scheme"
  assumes "sub_reactors s \<noteq> []"
    and "event_loops s (sub_reactors s ! reactor_of fd (length (sub_reactors s))) = Some el"
    and "connections s fd = None" and "on_connection_cb s = None"
    and "Server_NewConnection os usr fd s = Some (Inr u, t)"
  shows "\<exists>own k. let q = next_ptr s; p = Suc (next_ptr s);
      l = sub_reactors s ! reactor_of fd (length (sub_reactors s)) in
    fd \<noteq> -1 \<and>
    (\<exists>k1 k2. sys_socket os (kern s) = (SysOk own, k1) \<and>
      sys_epoll_ctl os (epfd el) EPOLL_CTL_ADD fd \<lparr>ev_events = read_flags, ev_ptr = q\<rparr> k1 = (SysOk (), k2) \<and>
      sys_epoll_ctl os (epfd el) EPOLL_CTL_MOD fd
        \<lparr>ev_events = read_flags OR EPOLLET, ev_ptr = q\<rparr> k2 = (SysOk (), k)) \<and>
    t = s\<lparr>kern := k, calls := calls s @ conn_calls own (epfd el) fd q,
      channels := (channels s)(q \<mapsto> filed_channel l fd p), next_ptr := Suc p,
      conns := (conns s)(p \<mapsto> filed_conn fd q (on_message_cb s)),
      use_count := (use_count s)(p := 1), connections := (connections s)(fd \<mapsto> p)\<rparr>"
  using NewConnection_filed [OF assms(1-3,5)] assms(4) by (simp add: Let_def)

end
