(* ===== verification/ServerProps.thy ===== *)
theory ServerProps
  imports ServerBuild
begin

text \<open>
  The properties of the server: what holds in every state it reaches, what accepting a client
  does, and where the lifetime of a connection ends badly.
\<close>

unbundle bit_operations_syntax

section \<open>Reachable states\<close>

text \<open>
  C1: in every state the server reaches, by any interleaving of the events of its reactors, the map
  files each live connection under its own descriptor, with a channel on that descriptor; a
  connection exists exactly as long as somebody owns it; and a channel that will run the business
  logic of a connection is the channel of a connection that exists. The application's callbacks
  may do anything that keeps the invariant.
\<close>

theorem reachable_connections:
  assumes "read_bounded os" and "usr_ok usr" and "server_reach os usr s"
  shows "(\<forall>fd p. connections s fd = Some p \<longrightarrow>
       (\<exists>c q ch. conns s p = Some c \<and> sock c = fd \<and> conn_channel c = Some q \<and>
          channels s q = Some ch \<and> ch_fd ch = fd)) \<and>
     (\<forall>p. conns s p \<noteq> None \<longleftrightarrow> 0 < use_count s p) \<and>
     (\<forall>q ch p. channels s q = Some ch \<longrightarrow> read_callback ch = Some (BusinessLogicCb p) \<longrightarrow>
       (\<exists>c. conns s p = Some c \<and> conn_channel c = Some q))"
proof -
  have wf: "server_wf {} (\<lambda>p. 0) s" by (rule reach_wf [OF assms])
  have "\<exists>c q ch. conns s p = Some c \<and> sock c = fd \<and> conn_channel c = Some q \<and>
      channels s q = Some ch \<and> ch_fd ch = fd" if "connections s fd = Some p" for fd p
  proof -
    from wf_mapped(3) [OF wf that] obtain c where c: "conns s p = Some c" by auto
    with wf_mapped_sock [OF wf that] have "sock c = fd" by blast
    with c wf_conn [OF wf c] show ?thesis by metis
  qed
  moreover have "conns s p \<noteq> None \<longleftrightarrow> 0 < use_count s p" for p
    using wf_owned [OF wf] wf_counted [OF wf] by blast
  moreover have "\<exists>c. conns s p = Some c \<and> conn_channel c = Some q"
    if "channels s q = Some ch" "read_callback ch = Some (BusinessLogicCb p)" for q ch p
    using wf_chan [OF wf that(1)] that(2) by (simp add: chan_ok_def)
  ultimately show ?thesis by blast
qed


text \<open>
  No channel ever asks to be told that its descriptor is writable, and no channel has a write
  callback: were a write event delivered without a read event, handling it would throw.
\<close>

theorem no_write_interest:
  assumes "read_bounded os" and "usr_ok usr" and "server_reach os usr s" and "channels s q = Some ch"
  shows "listen_events ch AND EPOLLOUT = 0 \<and>
    (ready_events ch AND (EPOLLIN OR EPOLLPRI) = 0 \<longrightarrow> ready_events ch AND EPOLLOUT \<noteq> 0 \<longrightarrow>
       Channel_HandleEvent (run_callback os usr) q s = Some (Inl BadFunctionCall, s))"
proof -
  have ok: "chan_ok s q ch" by (rule wf_chan [OF reach_wf [OF assms(1-3)] assms(4)])
  have "EPOLLOUT = NOT read_mask AND EPOLLOUT"
    by (simp add: read_mask_def epoll_flag_defs)
  then have "listen_events ch AND EPOLLOUT = (listen_events ch AND NOT read_mask) AND EPOLLOUT"
    by (simp add: and.assoc)
  also have "\<dots> = 0" using ok by (simp add: chan_ok_def)
  finally have "listen_events ch AND EPOLLOUT = 0" .
  then show ?thesis
    using ok assms(4) by (simp add: Channel_HandleEvent_def call_back_def chan_ok_def)
qed

section \<open>Accepting a client\<close>



text \<open>
  C27: the descriptors in the life of a connection object: the constructor creates a socket of its
  own and forgets it; the destructor closes the client's descriptor twice. So one descriptor leaks
  for every client, and the second close acts on a number that is no longer the connection's.
\<close>

theorem connection_descriptors:
  assumes "read_bounded os" and "usr_ok usr" and "server_reach os usr s"
    and "event_loops s l = Some el" and "fd \<noteq> -1"
    and "new_Connection os (Some l) fd s = Some (Inr p, t)"
  shows "\<exists>own k q v. sys_socket os (kern s) = (SysOk own, k) \<and>
     delete_Connection os p t = Some (Inr (), v) \<and>
     calls v = calls s @
       [CSocket (SysOk own),
        CEpollCtl (epfd el) EPOLL_CTL_ADD fd \<lparr>ev_events = EPOLLIN OR EPOLLPRI, ev_ptr = q\<rparr> (SysOk ()),
        CEpollCtl (epfd el) EPOLL_CTL_MOD fd
          \<lparr>ev_events = (EPOLLIN OR EPOLLPRI) OR EPOLLET, ev_ptr = q\<rparr> (SysOk ()),
        CClose fd, CClose fd]"
proof -
  have wf: "server_wf {} (\<lambda>p. 0) s" by (rule reach_wf [OF assms(1-3)])
  from new_Connection_run [OF assms(4,6)] obtain own k1 k3 where
    own: "sys_socket os (kern s) = (SysOk own, k1)" and
    t: "t = s\<lparr>kern := k3, calls := calls s @ conn_calls own (epfd el) fd (next_ptr s),
      channels := (channels s)(next_ptr s \<mapsto> new_conn_channel l fd),
      next_ptr := Suc (Suc (next_ptr s)), conns := (conns s)(p \<mapsto> new_conn fd (next_ptr s))\<rparr>" by blast
  have "event_loops s l \<noteq> None" using assms(4) by simp
  with tripleD(1) [OF triple_new_Connection _ assms(6), of "\<lambda>p. 0"] wf
  have wft: "server_wf {p} (\<lambda>p. 0) t" by blast
  have c: "conns t p = Some (new_conn fd (next_ptr s))" by (simp add: t)
  from delete_Connection_run [OF wft c, of os] obtain v where
    "delete_Connection os p t = Some (Inr (), v\<lparr>conns := (conns t)(p := None)\<rparr>)"
    "calls v = calls t @ [CClose fd, CClose fd]"
    using assms(5) by (auto simp: new_conn_def)
  with own show ?thesis
    by (intro exI [of _ own] exI [of _ k1] exI [of _ "next_ptr s"]
        exI [of _ "v\<lparr>conns := (conns t)(p := None)\<rparr>"])
      (simp add: t conn_calls_def read_flags_def)
qed

text \<open>
  C37: the constructor of a connection registers the channel before anything has set its read
  callback. Until then the kernel may report input for it, and handling that event throws
  \<open>bad_function_call\<close>.
\<close>

theorem registered_before_callback:
  assumes "epoll_ctl_contract os reg" and "event_loops s l = Some el"
    and "new_Connection os (Some l) fd s = Some (Inr p, t)"
    and "ev AND (EPOLLIN OR EPOLLPRI) \<noteq> 0"
  shows "\<exists>q ch. channels t q = Some ch \<and> ch_fd ch = fd \<and>
     reg (kern t) (epfd el) fd = Some \<lparr>ev_events = EPOLLIN OR EPOLLPRI OR EPOLLET, ev_ptr = q\<rparr> \<and>
     (\<exists>v. Poll_channels [\<lparr>ev_events = ev, ev_ptr = q\<rparr>] t = Some (Inr [q], v) \<and>
        HandleEvents run [q] v = Some (Inl BadFunctionCall, v))"
proof -
  let ?q = "next_ptr s"
  from new_Connection_run [OF assms(2,3)] obtain own k2 k3 where
    ctl: "sys_epoll_ctl os (epfd el) EPOLL_CTL_MOD fd
      \<lparr>ev_events = read_flags OR EPOLLET, ev_ptr = ?q\<rparr> k2 = (SysOk (), k3)" and
    t: "t = s\<lparr>kern := k3, calls := calls s @ conn_calls own (epfd el) fd ?q,
      channels := (channels s)(?q \<mapsto> new_conn_channel l fd),
      next_ptr := Suc (Suc ?q), conns := (conns s)(p \<mapsto> new_conn fd ?q)\<rparr>" by blast
  have "reg (kern t) (epfd el) fd = Some \<lparr>ev_events = read_flags OR EPOLLET, ev_ptr = ?q\<rparr>"
    using epoll_ctl_contractD(2) [OF assms(1) ctl] by (simp add: t)
  moreover define v where
    "v = t\<lparr>channels := (channels t)(?q \<mapsto> (new_conn_channel l fd)\<lparr>ready_events := ev\<rparr>)\<rparr>"
  have "Poll_channels [\<lparr>ev_events = ev, ev_ptr = ?q\<rparr>] t = Some (Inr [?q], v)"
    by (simp add: Channel_SetReadyEvents_def t v_def)
  moreover have "HandleEvents run [?q] v = Some (Inl BadFunctionCall, v)"
    using assms(4)
    by (simp add: v_def Channel_HandleEvent_def call_back_def new_conn_channel_def Channel_init_def)
  moreover have "channels t ?q = Some (new_conn_channel l fd)" by (simp add: t)
  moreover have "ch_fd (new_conn_channel l fd) = fd"
    by (simp add: new_conn_channel_def Channel_init_def)
  ultimately show ?thesis
    by (intro exI [of _ ?q] exI [of _ "new_conn_channel l fd"]) (auto simp: read_flags_def or.assoc)
qed

section \<open>Closing a connection\<close>

text \<open>The last owner leaving: the connection and its channel are destroyed.\<close>

lemma unshare_last:
  assumes wf: "server_wf {} (held(p := Suc (held p))) s" and "use_count s p = 1"
    and c: "conns s p = Some c" and q: "conn_channel c = Some q" and fd: "sock c \<noteq> -1"
  shows "\<exists>t. unshare os p s = Some (Inr (), t) \<and> conns t p = None \<and> channels t q = None \<and>
    calls t = calls s @ [CClose (sock c), CClose (sock c)]"
proof -
  define s1 where "s1 = s\<lparr>use_count := (use_count s)(p := use_count s p - 1)\<rparr>"
  have wf1: "server_wf {p} held s1" unfolding s1_def by (rule wf_drop(1) [OF wf])
  have c1: "conns s1 p = Some c" using c by (simp add: s1_def)
  from delete_Connection_run [OF wf1 c1, of os] q fd obtain v where
    del: "delete_Connection os p s1 = Some (Inr (), v\<lparr>conns := (conns s1)(p := None)\<rparr>)"
    and v: "v = s1\<lparr>kern := kern v, calls := calls v, channels := (channels s1)(q := None)\<rparr>"
      "calls v = calls s1 @ [CClose (sock c), CClose (sock c)]" by auto
  have "channels v q = None" by (subst v(1)) simp
  moreover have "unshare os p s = Some (Inr (), v\<lparr>conns := (conns s1)(p := None)\<rparr>)"
    using del assms(2) by (simp add: unshare_def s1_def)
  ultimately show ?thesis using v(2) by (auto simp: s1_def)
qed


text \<open>Closing from inside the connection's own message callback, up to the end of \<open>BusinessLogic\<close>.\<close>

lemma BusinessLogic_close:
  fixes s :: "('k, 'z) server_scheme"
  assumes bounded: "read_bounded os" and wf: "server_wf {} (\<lambda>p. 0) s"
    and c: "conns s p = Some c" "conn_channel c = Some q" "sock c \<noteq> -1"
      "delete_connection_callback c = Some DeleteConnectionCb" "on_message_callback c = Some u"
    and one: "connections s (sock c) = Some p" "use_count s p = 1"
    and usr: "usr u p = Connection_Close os p"
    and rd: "Connection_Read os (c, s) = Some (Inr (), (c', w'))"
  shows "\<exists>t. Connection_BusinessLogic os usr p s = Some (Inr (), t) \<and>
    conns t p = None \<and> channels t q = None \<and> calls t = calls w' @ [CClose (sock c), CClose (sock c)]"
proof -
  let ?held = "(\<lambda>p. 0)(p := Suc 0)"
  from Read_local [OF bounded] rd have links: "same_links c c'" and more: "world.more w' = world.more s"
    unfolding local_step_def by blast+
  define s1 where "s1 = w'\<lparr>conns := (conns w')(p \<mapsto> c')\<rparr>"
  have read: "with_connection p (Connection_Read os) s = Some (Inr (), s1)"
    using c(1) rd by (simp add: with_connection_def s1_def)
  have "server_wf {} (\<lambda>p. 0) s \<and> conns s p \<noteq> None" using wf c(1) by simp
  from tripleD(1) [OF triple_with_connection [OF Read_local [OF bounded]] this read]
  have wf1: "server_wf {} (\<lambda>p. 0) s1" by simp
  have c1: "conns s1 p = Some c'" "use_count s1 p = 1" "connections s1 (sock c) = Some p"
    using one world_more_fields [OF more] by (simp_all add: s1_def)
  have c': "sock c' = sock c" "conn_channel c' = Some q" "on_message_callback c' = Some u"
    "delete_connection_callback c' = Some DeleteConnectionCb"
    using links c by (simp_all add: same_links_def)
  define s2 where "s2 = s1\<lparr>use_count := (use_count s1)(p := Suc (use_count s1 p))\<rparr>"
  have shared: "shared_from_this p s1 = Some (Inr (), s2)"
    using c1 by (simp add: shared_from_this_def share_def s2_def)
  have wf2: "server_wf {} ?held s2"
    using wf_share [OF wf1, of p] c1(2) by (simp add: s2_def)
  define s3 where "s3 = print_out (''delete registered connection instance'' @ endl) s2"
  define s4 where "s4 = s3\<lparr>connections := (connections s3)(sock c := None)\<rparr>"
  define s5 where "s5 = s4\<lparr>use_count := (use_count s4)(p := use_count s4 p - 1)\<rparr>"
  have "Server_DeleteConnection os (sock c) s2 = Some (Inr (), s5)"
  proof -
    have "connections s3 (sock c) = Some p" "use_count s4 p = 2"
      using c1 by (simp_all add: s4_def s3_def s2_def print_out_def)
    then show ?thesis
      using c(3) unfolding Server_DeleteConnection_def seqC_at(3) [OF basic_at(4)] s3_def [symmetric]
      by (simp add: unshare_def s5_def s4_def)
  qed
  note del = this
  have "conns s2 p = Some c'" using c1 by (simp add: s2_def)
  then have close: "usr u p s2 = Some (Inr (), s5)"
    using del c' usr by (simp add: Connection_Close_def the_connection_run)
  have wf5: "server_wf {} ?held s5" using DeleteConnection_run [OF wf2 del] by blast
  have s5: "use_count s5 p = 1" "conns s5 p = Some c'" "calls s5 = calls w'"
    using c1 by (simp_all add: s5_def s4_def s3_def s2_def s1_def print_out_def)
  from unshare_last [of "\<lambda>p. 0" p s5 c' q os] wf5 s5(1,2) c' c(3) obtain t where
    t: "unshare os p s5 = Some (Inr (), t)" "conns t p = None" "channels t q = None"
      "calls t = calls s5 @ [CClose (sock c), CClose (sock c)]" by auto
  have "Connection_BusinessLogic os usr p s = Some (Inr (), t)"
    using read shared close t(1) c1(1) c'(3)
    by (simp add: Connection_BusinessLogic_def the_connection_run)
  with t s5(3) show ?thesis by auto
qed

text \<open>
  C21: a connection that its message callback closes, the server's map being its only owner, is
  destroyed, with its channel, before \<open>HandleEvent\<close> of that channel has finished: after the
  callback \<open>HandleEvent\<close> reads \<open>ready_events_\<close> of an object that is gone. The client's
  descriptor has been closed twice by then.
\<close>

theorem self_close_use_after_free:
  assumes "read_bounded os" and "usr_ok usr" and "server_reach os usr s"
    and "channels s q = Some ch" and "ready_events ch AND (EPOLLIN OR EPOLLPRI) \<noteq> 0"
    and "read_callback ch = Some (BusinessLogicCb p)"
    and "conns s p = Some c" and "connections s (sock c) = Some p" and "use_count s p = 1"
    and "sock c \<noteq> -1" and "delete_connection_callback c = Some DeleteConnectionCb"
    and "on_message_callback c = Some u" and "usr u p = Connection_Close os p"
    and "Connection_Read os (c, s) = Some (Inr (), (c', w'))"
  shows "\<exists>t. Channel_HandleEvent (run_callback os usr) q s = Some (Inl (Undefined UseAfterFree), t) \<and>
     conns t p = None \<and> channels t q = None \<and> calls t = calls w' @ [CClose (sock c), CClose (sock c)]"
proof -
  have wf: "server_wf {} (\<lambda>p. 0) s" by (rule reach_wf [OF assms(1-3)])
  from wf_chan [OF wf assms(4)] assms(6,7) have "conn_channel c = Some q" by (simp add: chan_ok_def)
  from BusinessLogic_close [where usr = usr, OF assms(1) wf assms(7) this assms(10,11,12,8,9,13,14)] obtain t where
    "run_callback os usr (BusinessLogicCb p) s = Some (Inr (), t)" and
    t: "conns t p = None" "channels t q = None" "calls t = calls w' @ [CClose (sock c), CClose (sock c)]"
    by auto
  with HandleEvent_read_freed [OF assms(4-6)] show ?thesis by blast
qed

section \<open>Starting\<close>

text \<open>A round of a loop of the server keeps the invariant or stops.\<close>

lemma triple_HandleEvents:
  assumes "read_bounded os" and "usr_ok usr"
  shows "triple (server_wf {} held) (HandleEvents (run_callback os usr) ps)
    (\<lambda>u. server_wf {} held) (stops held)"
proof (induction ps)
  case Nil
  then show ?case by (simp add: triple_def)
next
  case (Cons p ps)
  then show ?case by (simp add: triple_seqC [OF triple_HandleEvent [OF assms]])
qed

lemma triple_Loop_round:
  assumes "read_bounded os" and "usr_ok usr"
  shows "triple (server_wf {} held)
    (Loop_round os (run_callback os usr) l) (\<lambda>u. server_wf {} held) (stops held)"
  unfolding Loop_round_def
proof (rule triple_bindC)
  show "triple (server_wf {} held) (the_loop l) (\<lambda>el. server_wf {} held) (stops held)"
    by (auto simp: triple_def the_loop_def stops_def split: option.splits)
qed (rule triple_bindC [OF triple_Poll triple_HandleEvents [OF assms]])

lemma Loop_stops:
  fixes usr :: "('k, 'z) usr"
  assumes "read_bounded os" and "usr_ok usr"
    and "server_wf {} held s" and loop: "EventLoop_Loop os (run_callback os usr) l s = Some (r, t)"
  shows "\<exists>e. r = Inl e \<and> stops held e t"
proof -
  define run where "run = run_callback os usr"
  have "os = os \<longrightarrow> run = run \<longrightarrow> server_wf {} held s \<longrightarrow>
      (\<exists>e. fst (r, t) = Inl e \<and> stops held e (snd (r, t)))"
  proof (rule EventLoop_Loop.raw_induct
      [where P = "\<lambda>os' run' l s y. os' = os \<longrightarrow> run' = run \<longrightarrow> server_wf {} held s \<longrightarrow>
         (\<exists>e. fst y = Inl e \<and> stops held e (snd y))", OF _ loop [folded run_def]], intro impI)
    fix loop os' run' l and s :: "('k, 'z) server_scheme" and y
    assume IH: "\<And>os' run' l s y. loop os' run' l s = Some y \<Longrightarrow> os' = os \<longrightarrow> run' = run \<longrightarrow>
        server_wf {} held s \<longrightarrow> (\<exists>e. fst y = Inl e \<and> stops held e (snd y))"
      and eq: "(case event_loops s l of
        None \<Rightarrow> Some (Inl (Undefined UseAfterFree), s)
      | Some el \<Rightarrow>
          if el_quit el then Some (Inr (), s)
          else (case Loop_round os' run' l s of
                  None \<Rightarrow> None
                | Some (r, t) \<Rightarrow>
                    (case r of
                       Inl e \<Rightarrow> Some (Inl e, t)
                     | Inr u \<Rightarrow> loop os' run' l t))) = Some y"
      and same: "os' = os" "run' = run" and wf: "server_wf {} held s"
    show "\<exists>e. fst y = Inl e \<and> stops held e (snd y)"
    proof (cases "event_loops s l")
      case None
      with eq show ?thesis by (auto simp: stops_def)
    next
      case (Some el)
      with wf have "\<not> el_quit el" by (auto simp: server_wf_def reactors_ok_def)
      with eq same Some obtain x u where xu: "Loop_round os run l s = Some (x, u)"
        by (auto split: option.splits)
      note round = triple_Loop_round [OF assms(1,2), folded run_def, of held l]
      show ?thesis
      proof (cases x)
        case (Inl e)
        with xu wf have "stops held e u" using tripleD(2) [OF round] by blast
        with eq same Some \<open>\<not> el_quit el\<close> xu Inl show ?thesis by auto
      next
        case (Inr v)
        with xu wf have "server_wf {} held u" using tripleD(1) [OF round] by blast
        moreover have "loop os run l u = Some y"
          using eq same Some \<open>\<not> el_quit el\<close> xu Inr by auto
        ultimately show ?thesis using IH by blast
      qed
    qed
  qed
  with assms(3) show ?thesis by simp
qed

text \<open>
  C38: \<open>Start\<close> never returns: nothing sets the flag its loop tests. It ends only by an exception
  (which leaves \<open>main\<close>), by following the pointer of a destroyed channel, or by a write buffer too
  large for the stack; in the first case the server's invariant still holds.
\<close>

theorem Start_never_returns:
  assumes "read_bounded os" and "usr_ok usr" and "server_reach os usr s"
    and "Server_Start os usr s = Some (r, t)"
  shows "\<exists>e. r = Inl e \<and> (is_exception e \<longrightarrow> e \<noteq> BadWeakPtr \<and> server_wf {} (\<lambda>p. 0) t) \<and>
     (\<forall>u. e = Undefined u \<longrightarrow> u = UseAfterFree \<or> u = BadVlaSize)"
proof -
  define s1 where "s1 = s\<lparr>pool_tasks := pool_tasks s @ sub_reactors s\<rparr>"
  have "server_wf {} (\<lambda>p. 0) s1"
    using reach_wf [OF assms(1-3)] by (simp add: s1_def wf_defs)
  moreover have "EventLoop_Loop os (run_callback os usr) (main_reactor s1) s1 = Some (r, t)"
    using assms(4) by (simp add: Server_Start_def add_loops_at s1_def)
  ultimately obtain e where e: "r = Inl e" "stops (\<lambda>p. 0) e t"
    using Loop_stops [OF assms(1,2)] by blast
  then show ?thesis by (cases e) (auto simp: stops_def fails_def)
qed

end
