(* ===== verification/EchoServer.thy ===== *)
theory EchoServer
  imports ServerProps
begin

text \<open>
  The application of \<open>test/echo_server.cpp\<close>: its two callbacks on the server's state. What its
  logger does is a parameter \<open>log\<close>, an operation on the server's world. The callbacks meet what the
  theorems about the server ask of an application, and a message comes back to its sender.
\<close>

section \<open>The callbacks\<close>

definition echo_on_connect ::
  "(string \<Rightarrow> (('k, 'z) server_scheme, unit) cpp) \<Rightarrow> nat \<Rightarrow> (('k, 'z) server_scheme, unit) cpp" where
  "echo_on_connect log p =
     bindC (the_connection p) (\<lambda>c.
     seqC (modify (print_out (''new connection fd: '' @ show_int (Connection_GetSocket c) @ endl)))
          (log (''new connection fd: '' @ show_int (Connection_GetSocket c))))"

definition echo_on_message ::
  "'k os \<Rightarrow> (string \<Rightarrow> (('k, 'z) server_scheme, unit) cpp) \<Rightarrow> nat \<Rightarrow>
   (('k, 'z) server_scheme, unit) cpp" where
  "echo_on_message os log p =
     bindC (the_connection p) (\<lambda>c.
     seqC (modify (print_out (''message from client: '' @ before_nul (Connection_ReadBuffer c) @ endl)))
    (seqC (log ''read from client'')
    (bindC (the_connection p) (\<lambda>c.
     if Connection_GetState c = Connected
     then seqC (with_connection p (call_SetWriteBuffer (Connection_ReadBuffer c)))
               (with_connection p (Connection_Write os))
     else ret ()))))"

definition echo_connect_cb :: user_callback where "echo_connect_cb = UserCb 1"
definition echo_message_cb :: user_callback where "echo_message_cb = UserCb 0"

definition echo_usr ::
  "'k os \<Rightarrow> (string \<Rightarrow> (('k, 'z) server_scheme, unit) cpp) \<Rightarrow> ('k, 'z) usr" where
  "echo_usr os log u = (if u = echo_connect_cb then echo_on_connect log
     else if u = echo_message_cb then echo_on_message os log else (\<lambda>p. ret ()))"

section \<open>They are well-behaved\<close>

lemma writes_local:
  "writes os bs left s y \<Longrightarrow> same_links (fst s) (fst (snd y)) \<and>
     world.more (snd (snd y)) = world.more (snd s) \<and> fst y = Inr ()"
  by (induction rule: writes.induct) (auto simp: do_write_def dest: syscall_frame(3))

lemma WriteNonBlocking_local: "local_step (Connection_WriteNonBlocking os)"
  by (auto simp: local_step_def Connection_WriteNonBlocking_def Let_def split: if_splits
      dest!: Write_loop_writes writes_local)

lemma WriteBlocking_local: "local_step (Connection_WriteBlocking os)"
  by (auto simp: local_step_def Connection_WriteBlocking_def do_write_def
      split: prod.splits sysres.splits dest: syscall_frame(3))

lemma local_step_seqC:
  assumes "local_step m" and "local_step n"
  shows "local_step (seqC m n)"
  unfolding local_step_def
proof (intro allI impI)
  fix c and w :: "('a, 'b) world_scheme" and r c' w'
  assume "seqC m n (c, w) = Some (r, (c', w'))"
  then show "same_links c c' \<and> world.more w' = world.more w \<and>
    (\<forall>e. r = Inl e \<longrightarrow> tolerated e \<and> \<not> is_exception e)"
  proof (cases rule: seqC_Some_cases)
    case (1 e)
    with assms(1) show ?thesis unfolding local_step_def by blast
  next
    case (2 t)
    obtain c1 w1 where t: "t = (c1, w1)" by force
    with 2 assms have "same_links c c1" "world.more w1 = world.more w"
      and "same_links c1 c'" "world.more w' = world.more w1"
        "\<forall>e. r = Inl e \<longrightarrow> tolerated e \<and> \<not> is_exception e"
      unfolding local_step_def by blast+
    then show ?thesis by (simp add: same_links_def)
  qed
qed

lemma Write_local: "local_step (Connection_Write os)"
proof -
  have clear: "local_step (modify (\<lambda>(c, w). (c\<lparr>write_buffer := Buffer_ClearBuffer (write_buffer c)\<rparr>, w)))"
    by (auto simp: local_step_def)
  show ?thesis
    unfolding local_step_def
  proof (intro allI impI)
    fix c and w :: "('a, 'b) world_scheme" and r c' w'
    assume run: "Connection_Write os (c, w) = Some (r, (c', w'))"
    consider "cstate c \<noteq> Connected" |
      m where "local_step m" "m (c, w) = Some (r, (c', w'))"
      using run local_step_seqC [OF WriteNonBlocking_local [of os] clear]
        local_step_seqC [OF WriteBlocking_local [of os] clear]
      by (cases "cstate c = Connected") (auto simp: Connection_Write_def split: if_splits)
    then show "same_links c c' \<and> world.more w' = world.more w \<and>
      (\<forall>e. r = Inl e \<longrightarrow> tolerated e \<and> \<not> is_exception e)"
    proof cases
      case 1
      with run show ?thesis by (auto simp: Connection_Write_def)
    next
      case 2
      then show ?thesis unfolding local_step_def by blast
    qed
  qed
qed

lemma SetWriteBuffer_local: "local_step (call_SetWriteBuffer (Connection_ReadBuffer c))"
  by (auto simp: local_step_def call_SetWriteBuffer_def Connection_SetWriteBuffer_def
      Connection_ReadBuffer_def)

lemma world_only_print: "world_only world.more (modify (print_out m))"
  by (rule world_only_rules) simp

text \<open>Operations on the world alone also keep the connections the application works with.\<close>

lemma triple_world_conn:
  fixes m :: "(('k, 'z) server_scheme, 'a) cpp"
  assumes "world_only world.more m"
  shows "triple (\<lambda>s. server_wf {} held s \<and> conns s p \<noteq> None) m
    (\<lambda>x s. server_wf {} held s \<and> conns s p \<noteq> None) (fails held)"
proof (rule tripleI)
  fix s x t
  assume pre: "server_wf {} held s \<and> conns s p \<noteq> None" and run: "m s = Some (Inr x, t)"
  have more: "world.more t = world.more s" by (rule world_onlyD(1) [OF assms run])
  show "server_wf {} held t \<and> conns t p \<noteq> None"
    using pre wf_world [OF more] world_more_fields(1) [OF more] by simp
next
  fix s e t
  assume "server_wf {} held s \<and> conns s p \<noteq> None" and "m s = Some (Inl e, t)"
  then show "fails held e t" using tripleD(2) [OF triple_world [OF assms]] by blast
qed

lemma triple_the_conn:
  "triple (\<lambda>s. server_wf {} held s \<and> conns s p \<noteq> None) (the_connection p)
     (\<lambda>c s. server_wf {} held s \<and> conns s p \<noteq> None) (fails held)"
  by (rule triple_post [OF triple_the_connection]) auto

lemma echo_usr_ok:
  assumes log: "\<And>m. world_only world.more (log m)"
  shows "usr_ok (echo_usr os log)"
  unfolding usr_ok_def
proof (intro allI impI)
  fix u p and held :: "nat \<Rightarrow> nat"
  assume held: "0 < held p"
  let ?live = "\<lambda>s. server_wf {} held s \<and> conns s p \<noteq> None"
  have connect: "triple ?live (echo_on_connect log p) (\<lambda>x. ?live) (fails held)"
    unfolding echo_on_connect_def
    by (intro triple_bindC [OF triple_the_conn] triple_seqC [OF triple_world_conn [OF world_only_print]]
        triple_world_conn log)
  have "triple ?live (if cstate c = Connected
      then seqC (with_connection p (call_SetWriteBuffer (Connection_ReadBuffer c)))
                (with_connection p (Connection_Write os))
      else ret ()) (\<lambda>x. ?live) (fails held)" for c
    by (rule triple_if, rule triple_seqC [OF triple_with_connection [OF SetWriteBuffer_local]
        triple_with_connection [OF Write_local]]) (simp add: triple_def)
  then have message: "triple ?live (echo_on_message os log p) (\<lambda>x. ?live) (fails held)"
    unfolding echo_on_message_def connection_getters
    by (intro triple_bindC [OF triple_the_conn] triple_seqC [OF triple_world_conn [OF world_only_print]]
        triple_seqC [OF triple_world_conn [OF log]])
  have idle: "triple ?live (ret ()) (\<lambda>x. ?live) (fails held)" by (simp add: triple_def)
  have "triple ?live (echo_usr os log u p) (\<lambda>x. ?live) (fails held)"
    using connect message idle unfolding echo_usr_def by auto
  moreover have "?live s" if "server_wf {} held s" for s :: "('a, 'b) server_scheme"
    using that held wf_held [OF that, of p] wf_counted [OF that, of p] by simp
  ultimately have "triple (server_wf {} held) (echo_usr os log u p) (\<lambda>x. ?live) (fails held)"
    by (rule triple_pre)
  then show "triple (server_wf {} held) (echo_usr os log u p) (\<lambda>x. server_wf {} held) (fails held)"
    by (rule triple_post) simp_all
qed

section \<open>The echo\<close>

lemma Write_prefix:
  assumes bounded: "write_bounded os" and "cstate c = Connected"
    and run: "Connection_Write os (c, w) = Some (Inr u, (c', w'))"
  shows "\<exists>cs rest. calls w' = calls w @ cs \<and> (\<forall>q \<in> set cs. \<exists>b r. q = CWrite (sock c) b r) \<and>
    bytes_written (sock c) cs @ rest = buf (write_buffer c) \<and> world.more w' = world.more w"
proof (cases "Socket_IsNonBlocking os (sock c) w")
  case True
  let ?n = "to_int32 (Buffer_Size (write_buffer c))" and ?b = "buf (write_buffer c)"
  let ?bs = "take (nat ?n) (Buffer_Cstr (write_buffer c))"
  from run assms(2) True obtain c1 where
    nb: "Connection_WriteNonBlocking os (c, w) = Some (Inr (), (c1, w'))"
    by (auto simp: Connection_Write_def seqC_returns)
  then have pos: "0 \<le> ?n" by (auto simp: Connection_WriteNonBlocking_def Let_def split: if_splits)
  with nb have loop: "Write_loop os ?bs ?n (c, w) = Some (Inr (), (c1, w'))"
    by (simp add: Connection_WriteNonBlocking_def Let_def)
  have le: "?n \<le> int (length ?b)"
    using pos by (simp add: Buffer_Size_def to_int32_def signed_take_bit_int_less_eq_self_iff)
  then have bs: "?bs = take (nat ?n) ?b" by (simp add: Buffer_Cstr_def)
  then have len: "length ?bs = nat ?n" using le pos by simp
  have "?n \<le> int (length ?bs)" using len pos by simp
  from Write_loop_post [OF bounded loop this] obtain cs sent where
    post: "world.more w' = world.more w" "calls w' = calls w @ cs" "sent \<le> nat ?n"
    "\<forall>q \<in> set cs. \<exists>b r. q = CWrite (sock c) b r"
    "bytes_written (sock c) cs = take sent (drop (length ?bs - nat ?n) ?bs)"
    unfolding write_post_def prod.case by blast
  have none: "length ?bs - nat ?n = 0" using len by simp
  have "bytes_written (sock c) cs = take sent (take (nat ?n) ?b)"
    using post(5) unfolding none drop0 unfolding bs .
  then have "bytes_written (sock c) cs = take sent ?b" using post(3) by (simp add: min_absorb1)
  with post(1,2,4) show ?thesis
    by (intro exI [of _ cs] exI [of _ "drop sent ?b"]) simp
next
  case False
  let ?b = "buf (write_buffer c)"
  obtain r w1 where wr: "do_write os (sock c) ?b w = (r, w1)" by force
  note frame = syscall_frame [OF wr [unfolded do_write_def]]
  have "w' = w1 \<or> (\<exists>m. w' = print_out m w1)"
    using run assms(2) False wr
    by (cases r) (auto simp: Connection_Write_def Connection_WriteBlocking_def Buffer_Cstr_def
        Buffer_Size_def seqC_returns)
  then have "calls w' = calls w @ [CWrite (sock c) ?b r]" "world.more w' = world.more w"
    using frame by auto
  then show ?thesis
    by (intro exI [of _ "[CWrite (sock c) ?b r]"]
        exI [of _ "case r of SysOk n \<Rightarrow> drop n ?b | SysErr e \<Rightarrow> ?b"]) (simp split: sysres.split)
qed


text \<open>Logging that only does what it says: it neither fails nor touches the descriptors.\<close>

definition quiet_log :: "(string \<Rightarrow> (('k, 'z) server_scheme, unit) cpp) \<Rightarrow> bool" where
  "quiet_log log \<longleftrightarrow> (\<forall>m s r t. log m s = Some (r, t) \<longrightarrow>
     r = Inr () \<and> world.more t = world.more s \<and> calls t = calls s)"

lemma quiet_logD:
  "quiet_log log \<Longrightarrow> log m s = Some (r, t) \<Longrightarrow> r = Inr () \<and> world.more t = world.more s \<and> calls t = calls s"
  unfolding quiet_log_def by blast

lemma quiet_log_world: "quiet_log log \<Longrightarrow> world_only world.more (log m)"
  unfolding quiet_log_def world_only_def by blast

lemma with_connection_returns:
  "with_connection p m s = Some (Inr u, t) \<Longrightarrow> conns s p = Some c \<Longrightarrow>
   \<exists>c' s'. m (c, s) = Some (Inr u, (c', s')) \<and> t = s'\<lparr>conns := (conns s')(p \<mapsto> c')\<rparr>"
  by (auto simp: with_connection_def split: option.splits)

text \<open>
  The message callback by its steps: the log, and, on a connected connection, a \<open>Write\<close> of the
  text it finds in the read buffer.
\<close>

definition loaded :: "connection \<Rightarrow> connection" where
  "loaded c = c\<lparr>write_buffer := (write_buffer c)\<lparr>buf := buf (read_buffer c)\<rparr>\<rparr>"

lemma echo_on_message_run:
  fixes s :: "('k, 'z) server_scheme"
  assumes log: "quiet_log log" and c: "conns s p = Some c" and nul: "nul_free (buf (read_buffer c))"
    and run: "echo_on_message os log p s = Some (Inr u, t)"
  obtains s2 where
    "log ''read from client''
       (print_out (''message from client: '' @ before_nul (Connection_ReadBuffer c) @ endl) s) =
       Some (Inr (), s2)"
    "calls s2 = calls s" "world.more s2 = world.more s" "conns s2 p = Some c"
    "cstate c \<noteq> Connected \<Longrightarrow> t = s2"
    "cstate c = Connected \<Longrightarrow> \<exists>c' s'. Connection_Write os
       (loaded c, s2\<lparr>conns := (conns s2)(p \<mapsto> loaded c)\<rparr>) = Some (Inr u, (c', s')) \<and>
       t = s'\<lparr>conns := (conns s')(p \<mapsto> c')\<rparr>"
proof -
  from run c obtain s2 where l: "log ''read from client''
      (print_out (''message from client: '' @ before_nul (Connection_ReadBuffer c) @ endl) s) =
      Some (Inr (), s2)"
    and rest: "bindC (the_connection p) (\<lambda>c.
       if cstate c = Connected
       then seqC (with_connection p (call_SetWriteBuffer (Connection_ReadBuffer c)))
                 (with_connection p (Connection_Write os))
       else ret ()) s2 = Some (Inr u, t)"
    unfolding echo_on_message_def
    by (auto simp: bindC_returns seqC_returns the_connection_run)
  have more: "world.more s2 = world.more s" "calls s2 = calls s"
    using quiet_logD [OF log l] by simp_all
  then have c2: "conns s2 p = Some c" using c world_more_fields(1) [OF more(1)] by simp
  have "t = s2" if "cstate c \<noteq> Connected" using rest c2 that by (simp add: the_connection_run)
  moreover have "\<exists>c' s'. Connection_Write os
       (loaded c, s2\<lparr>conns := (conns s2)(p \<mapsto> loaded c)\<rparr>) = Some (Inr u, (c', s')) \<and>
       t = s'\<lparr>conns := (conns s')(p \<mapsto> c')\<rparr>" if "cstate c = Connected"
  proof (rule with_connection_returns)
    show "with_connection p (Connection_Write os) (s2\<lparr>conns := (conns s2)(p \<mapsto> loaded c)\<rparr>) =
        Some (Inr u, t)"
      using rest c2 nul that by (auto simp: the_connection_run seqC_returns with_connection_def
          call_SetWriteBuffer_def Connection_SetWriteBuffer_def Connection_ReadBuffer_def loaded_def)
  qed simp
  ultimately show thesis using l more c2 that by blast
qed

text \<open>What it sends, given the buffer it finds.\<close>

lemma echo_on_message_sends:
  fixes s :: "('k, 'z) server_scheme"
  assumes "write_bounded os" and log: "quiet_log log" and c: "conns s p = Some c"
    and nul: "nul_free (buf (read_buffer c))"
    and run: "echo_on_message os log p s = Some (Inr u, t)"
  shows "\<exists>cs rest. calls t = calls s @ cs \<and> (\<forall>q \<in> set cs. \<exists>b r. q = CWrite (sock c) b r) \<and>
    (cstate c \<noteq> Connected \<longrightarrow> cs = []) \<and>
    (cstate c = Connected \<longrightarrow> bytes_written (sock c) cs @ rest = buf (read_buffer c)) \<and>
    use_count t = use_count s"
proof (rule echo_on_message_run [OF log c nul run])
  fix s2
  assume s2: "calls s2 = calls s" "world.more s2 = world.more s"
    and closed: "cstate c \<noteq> Connected \<Longrightarrow> t = s2"
    and sends: "cstate c = Connected \<Longrightarrow> \<exists>c' s'. Connection_Write os
       (loaded c, s2\<lparr>conns := (conns s2)(p \<mapsto> loaded c)\<rparr>) = Some (Inr u, (c', s')) \<and>
       t = s'\<lparr>conns := (conns s')(p \<mapsto> c')\<rparr>"
  show ?thesis
  proof (cases "cstate c = Connected")
    case False
    with closed s2 world_more_fields(5) [OF s2(2)] show ?thesis by simp
  next
    case True
    from sends [OF True] obtain c' s' where
      w: "Connection_Write os (loaded c, s2\<lparr>conns := (conns s2)(p \<mapsto> loaded c)\<rparr>) = Some (Inr u, (c', s'))"
      and t: "t = s'\<lparr>conns := (conns s')(p \<mapsto> c')\<rparr>" by blast
    have "cstate (loaded c) = Connected" using True by (simp add: loaded_def)
    from Write_prefix [OF assms(1) this w] obtain cs rest where
      "calls s' = calls s2 @ cs" "\<forall>q \<in> set cs. \<exists>b r. q = CWrite (sock c) b r"
      "bytes_written (sock c) cs @ rest = buf (read_buffer c)" and
      more: "world.more s' = world.more (s2\<lparr>conns := (conns s2)(p \<mapsto> loaded c)\<rparr>)"
      by (auto simp: loaded_def)
    moreover have "use_count t = use_count s"
      using world_more_fields(5) [OF more] world_more_fields(5) [OF s2(2)] by (simp add: t)
    ultimately show ?thesis
      using True s2 by (intro exI [of _ cs] exI [of _ rest]) (simp add: t)
  qed
qed

lemma Read_nonblocking_run:
  assumes "read_bounded os" and "cstate c = Connected" and "Socket_IsNonBlocking os (sock c) w"
    and "Connection_Read os (c, w) = Some (x, (c', w'))"
  obtains rs r where "\<forall>q \<in> set rs. read_continues q" "\<not> read_continues r"
    "calls w' = calls w @ map (CRead (sock c) BUFFER_SIZE) (rs @ [r])"
    "c' = c\<lparr>read_buffer := (read_buffer c)\<lparr>buf := kept rs\<rparr>,
            cstate := (if read_closes r then Closed else Connected)\<rparr>"
    "world.more w' = world.more w" "x = Inr ()"
proof -
  let ?c1 = "c\<lparr>read_buffer := Buffer_ClearBuffer (read_buffer c)\<rparr>"
  from assms have "Connection_ReadNonBlocking os (?c1, w) = Some (x, (c', w'))"
    by (simp add: Connection_Read_def Let_def)
  from ReadNonBlocking_post [OF assms(1) this] obtain rs r where
    "x = Inr ()" "\<forall>q \<in> set rs. read_continues q" "\<not> read_continues r"
    "calls w' = calls w @ map (CRead (sock c) BUFFER_SIZE) (rs @ [r])"
    "c' = ?c1\<lparr>read_buffer := (read_buffer ?c1)\<lparr>buf := kept rs\<rparr>,
           cstate := (if read_closes r then Closed else cstate c)\<rparr>"
    "world.more w' = world.more w"
    unfolding read_post_def by (auto simp: Buffer_ClearBuffer_def)
  with assms(2) that [of rs r] show thesis by (simp add: Buffer_ClearBuffer_def)
qed

lemma nul_free_kept: "nul_free (kept rs)"
  by (induction rs rule: kept.induct) simp_all

text \<open>
  The handler of a message on a well-formed server: \<open>Read\<close>, then the callback while the temporary
  \<open>shared_ptr\<close> holds the connection, which stays.
\<close>

lemma echo_handler_run:
  fixes s t :: "('k, 'z) server_scheme"
  assumes "read_bounded os" and "quiet_log log" and wf: "server_wf {} (\<lambda>p. 0) s"
    and "connections s fd = Some p" and "conns s p = Some c"
    and "on_message_callback c = Some echo_message_cb"
    and run: "run_callback os (echo_usr os log) (BusinessLogicCb p) s = Some (Inr u, t)"
  obtains c1 w1 s3 where "sock c = fd"
    "Connection_Read os (c, s) = Some (Inr (), (c1, w1))" "same_links c c1"
    "world.more w1 = world.more s"
    "echo_on_message os log p (w1\<lparr>conns := (conns w1)(p \<mapsto> c1),
       use_count := (use_count s)(p := Suc (use_count s p))\<rparr>) = Some (Inr (), s3)"
    "use_count s3 = (use_count s)(p := Suc (use_count s p)) \<Longrightarrow>
       t = s3\<lparr>use_count := use_count s\<rparr>"
    "0 < use_count s p"
proof -
  let ?usr = "echo_usr os log"
  from run obtain s1 where rd: "with_connection p (Connection_Read os) s = Some (Inr (), s1)"
    and rest: "bindC (the_connection p) (\<lambda>c. seqC (shared_from_this p)
        (scoped (case on_message_callback c of None \<Rightarrow> throw BadFunctionCall | Some u \<Rightarrow> ?usr u p)
          (unshare os p))) s1 = Some (Inr u, t)"
    by (auto simp: Connection_BusinessLogic_def seqC_returns)
  from with_connection_returns [OF rd assms(5)] obtain c1 w1 where
    rd1: "Connection_Read os (c, s) = Some (Inr (), (c1, w1))" and
    s1: "s1 = w1\<lparr>conns := (conns w1)(p \<mapsto> c1)\<rparr>" by blast
  have links: "same_links c c1" "world.more w1 = world.more s"
    using Read_local [OF assms(1)] rd1 unfolding local_step_def by blast+
  note same = world_more_fields [OF links(2)]
  have live: "0 < use_count s p" by (rule wf_mapped(1) [OF wf assms(4)])
  define s2 where "s2 = w1\<lparr>conns := (conns w1)(p \<mapsto> c1),
    use_count := (use_count s)(p := Suc (use_count s p))\<rparr>"
  have "conns s1 p = Some c1" by (simp add: s1)
  moreover have "on_message_callback c1 = Some echo_message_cb"
    using assms(6) links(1) by (simp add: same_links_def)
  moreover have "shared_from_this p s1 = Some (Inr (), s2)"
    using live same by (simp add: shared_from_this_def share_def s2_def s1)
  ultimately have "scoped (?usr echo_message_cb p) (unshare os p) s2 = Some (Inr u, t)"
    using rest by (simp add: the_connection_run)
  moreover have "?usr echo_message_cb p = echo_on_message os log p"
    by (simp add: echo_usr_def echo_connect_cb_def echo_message_cb_def)
  ultimately obtain s3 where msg: "echo_on_message os log p s2 = Some (Inr (), s3)"
    and drop: "unshare os p s3 = Some (Inr u, t)"
    by (auto simp: scoped_def seqC_returns dest: unwinding_returns)
  have "t = s3\<lparr>use_count := use_count s\<rparr>" if "use_count s3 = (use_count s)(p := Suc (use_count s p))"
    using drop live that by (simp add: unshare_def)
  moreover have "sock c = fd" by (rule wf_mapped_sock [OF wf assms(4,5)])
  ultimately show thesis using that rd1 links msg live s2_def by blast
qed

text \<open>
  One message through the echo server, when the handler has returned. The reactor reads until the
  socket is empty; unless that found the end of the stream or an error, what the connection then
  sends is a prefix of the text it just received; otherwise it sends nothing and the object stays.
\<close>

lemma echo_message_run:
  fixes s :: "('k, 'z) server_scheme"
  assumes "read_bounded os" and "write_bounded os" and "quiet_log log"
    and "server_reach os (echo_usr os log) s"
    and "connections s fd = Some p" and "conns s p = Some c" and "cstate c = Connected"
    and "on_message_callback c = Some echo_message_cb" and "Socket_IsNonBlocking os fd s"
    and run: "run_callback os (echo_usr os log) (BusinessLogicCb p) s = Some (Inr u, t)"
  shows "\<exists>rs r cs rest c1 w1. Connection_Read os (c, s) = Some (Inr (), (c1, w1)) \<and>
     calls w1 = calls s @ map (CRead fd BUFFER_SIZE) (rs @ [r]) \<and>
     calls t = calls s @ map (CRead fd BUFFER_SIZE) (rs @ [r]) @ cs \<and>
     (\<forall>q \<in> set rs. read_continues q) \<and> \<not> read_continues r \<and>
     (\<forall>q \<in> set cs. \<exists>b r. q = CWrite fd b r) \<and>
     (if read_closes r then cs = [] else bytes_written fd cs @ rest = kept rs) \<and>
     conns t p \<noteq> None"
proof -
  have uok: "usr_ok (echo_usr os log)" by (rule echo_usr_ok) (rule quiet_log_world [OF assms(3)])
  have wf: "server_wf {} (\<lambda>p. 0) s" by (rule reach_wf [OF assms(1) uok assms(4)])
  from echo_handler_run [OF assms(1,3) wf assms(5,6,8) run] obtain c1 w1 s3 where
    fd: "sock c = fd" and rd: "Connection_Read os (c, s) = Some (Inr (), (c1, w1))" and
    msg: "echo_on_message os log p (w1\<lparr>conns := (conns w1)(p \<mapsto> c1),
       use_count := (use_count s)(p := Suc (use_count s p))\<rparr>) = Some (Inr (), s3)" and
    t: "use_count s3 = (use_count s)(p := Suc (use_count s p)) \<Longrightarrow> t = s3\<lparr>use_count := use_count s\<rparr>"
    and live: "0 < use_count s p" by metis
  from Read_nonblocking_run [OF assms(1,7) _ rd] assms(9) fd obtain rs r where
    rs: "\<forall>q \<in> set rs. read_continues q" "\<not> read_continues r" and
    calls1: "calls w1 = calls s @ map (CRead fd BUFFER_SIZE) (rs @ [r])" and
    c1: "c1 = c\<lparr>read_buffer := (read_buffer c)\<lparr>buf := kept rs\<rparr>,
            cstate := (if read_closes r then Closed else Connected)\<rparr>" by blast
  have "nul_free (buf (read_buffer c1))" by (simp add: c1 nul_free_kept)
  from echo_on_message_sends [OF assms(2,3) _ this msg] obtain cs left where
    cs: "calls s3 = calls w1 @ cs" "\<forall>q \<in> set cs. \<exists>b r. q = CWrite (sock c1) b r"
      "cstate c1 \<noteq> Connected \<longrightarrow> cs = []"
      "cstate c1 = Connected \<longrightarrow> bytes_written (sock c1) cs @ left = buf (read_buffer c1)"
      "use_count s3 = (use_count s)(p := Suc (use_count s p))" by auto
  have "server_wf {} (\<lambda>p. 0) s \<and> conns s p \<noteq> None" using wf assms(6) by simp
  from tripleD(1) [OF triple_BusinessLogic [OF assms(1) uok] this] run
  have "server_wf {} (\<lambda>p. 0) t" by simp
  then have "conns t p \<noteq> None" by (rule wf_counted) (simp add: t [OF cs(5)] live)
  moreover have "calls t = calls s @ map (CRead fd BUFFER_SIZE) (rs @ [r]) @ cs"
    by (simp add: t [OF cs(5)] cs(1) calls1)
  moreover have "sock c1 = fd" by (simp add: c1 fd)
  ultimately show ?thesis
    using rs cs(2-4) rd calls1
    by (intro exI [of _ rs] exI [of _ r] exI [of _ cs] exI [of _ left] exI [of _ c1] exI [of _ w1])
      (simp add: c1 split: if_splits)
qed

end
