(* ===== verification/EchoReturns.thy ===== *)
theory EchoReturns
  imports EchoServer
begin

text \<open>
  The message handler of the echo server returns: the rounds of \<open>Read\<close> and \<open>Write\<close> are bounded by the
  kernel's answers, and nothing between them can fail. With what \<open>EchoServer\<close> shows of a handler
  that has returned, a message is answered.
\<close>

section \<open>Reading a bounded amount\<close>

lemma kept_small: "length (kept [q]) \<le> n" if "\<And>bs. q = SysOk bs \<Longrightarrow> length bs \<le> n"
proof (cases q)
  case (SysOk bs)
  have "length (before_nul bs) \<le> length bs" by (simp add: before_nul_def length_takeWhile_le)
  with that [OF SysOk] SysOk show ?thesis by simp
qed simp

text \<open>When the kernel's answer number \<open>i\<close> ends the loop, at most \<open>i\<close> chunks have been kept.\<close>

lemma reads_bounded:
  assumes "reads os s y" and "read_bounded os"
    and "\<not> read_continues (read_at os (sock (fst s)) BUFFER_SIZE (kern (snd s)) i)"
  shows "length (buf (read_buffer (fst (snd y)))) \<le> length (buf (read_buffer (fst s))) + i * BUFFER_SIZE \<and>
    length (calls (snd (snd y))) \<le> length (calls (snd s)) + Suc i"
  using assms(1,3)
proof (induction arbitrary: i rule: reads.induct)
  case (reads_more c w q w1 y)
  have step: "kern w1 = snd (sys_read os (sock c) BUFFER_SIZE (kern w))"
    "q = fst (sys_read os (sock c) BUFFER_SIZE (kern w))"
    using do_read_kern [of os "sock c" BUFFER_SIZE w] reads_more(1) by simp_all
  from reads_more(2,5) step(2) obtain j where i: "i = Suc j" by (cases i) auto
  have "\<not> read_continues (read_at os (sock c) BUFFER_SIZE (kern w1) j)"
    using reads_more(5) by (simp add: i step(1))
  with reads_more(4) [of j]
  have "length (buf (read_buffer (fst (snd y)))) \<le>
      length (buf (read_buffer c) @ kept [q]) + j * BUFFER_SIZE \<and>
      length (calls (snd (snd y))) \<le> length (calls w1) + Suc j" by simp
  moreover have "length (kept [q]) \<le> BUFFER_SIZE"
    by (rule kept_small) (use do_read_bounded [OF assms(2)] reads_more(1) in blast)
  moreover have "calls w1 = calls w @ [CRead (sock c) BUFFER_SIZE q]"
    using reads_more(1) unfolding do_read_def by (rule syscall_frame(2))
  ultimately show ?case by (simp add: i)
next
  case (reads_stop c w q w1)
  have "calls w1 = calls w @ [CRead (sock c) BUFFER_SIZE q]"
    using reads_stop(1) unfolding do_read_def by (rule syscall_frame(2))
  then show ?case by simp
qed

lemma Read_returns:
  assumes "read_bounded os" and "cstate c = Connected" and "Socket_IsNonBlocking os (sock c) w"
    and "\<not> read_continues (read_at os (sock c) BUFFER_SIZE (kern w) i)"
  obtains c' w' where "Connection_Read os (c, w) = Some (Inr (), (c', w'))"
    "length (buf (read_buffer c')) \<le> i * BUFFER_SIZE"
    "length (calls w') \<le> length (calls w) + Suc i"
proof -
  let ?c = "c\<lparr>read_buffer := Buffer_ClearBuffer (read_buffer c)\<rparr>"
  have run: "Connection_Read os (c, w) = Connection_ReadNonBlocking os (?c, w)"
    using assms(2,3) by (simp add: Connection_Read_def Let_def)
  have "\<not> read_continues (read_at os (sock ?c) BUFFER_SIZE (kern w) i)" using assms(4) by simp
  from ReadNonBlocking_returns_if [OF assms(1) this] obtain y where
    y: "Connection_ReadNonBlocking os (?c, w) = Some y" by blast
  from ReadNonBlocking_post [OF assms(1) y] have "fst y = Inr ()" by (auto simp: read_post_def)
  then obtain c' w' where y': "y = (Inr (), (c', w'))" by (cases y) auto
  from reads_bounded [OF ReadNonBlocking_reads [OF assms(1) y] assms(1), of i] assms(4)
  have "length (buf (read_buffer c')) \<le> i * BUFFER_SIZE" "length (calls w') \<le> length (calls w) + Suc i"
    by (simp_all add: y' Buffer_ClearBuffer_def)
  with that y run y' show thesis by simp
qed

section \<open>Writing it\<close>

lemma Write_returns:
  assumes "write_patience os (sock c) patience" and "length (buf (write_buffer c)) < 2 ^ 31"
  obtains c' w' where "Connection_Write os (c, w) = Some (Inr (), (c', w'))"
proof -
  let ?n = "to_int32 (Buffer_Size (write_buffer c))"
  let ?clear = "modify (\<lambda>(c, w). (c\<lparr>write_buffer := Buffer_ClearBuffer (write_buffer c)\<rparr>, w))"
  have n: "?n = int (length (buf (write_buffer c)))"
    using assms(2) by (simp add: Buffer_Size_def to_int32_of_nat)
  obtain r t where "Write_loop os (take (nat ?n) (Buffer_Cstr (write_buffer c))) ?n (c, w) = Some (r, t)"
    using Write_loop_returns [OF assms(1)] by (metis option.exhaust prod.exhaust)
  moreover from this have "r = Inr ()" using writes_local [OF Write_loop_writes] by fastforce
  ultimately have "Connection_WriteNonBlocking os (c, w) = Some (Inr (), t)"
    using n by (simp add: Connection_WriteNonBlocking_def Let_def)
  moreover have "\<exists>t'. Connection_WriteBlocking os (c, w) = Some (Inr (), t')"
    by (auto simp: Connection_WriteBlocking_def split: prod.splits sysres.splits)
  then obtain t' where "Connection_WriteBlocking os (c, w) = Some (Inr (), t')" ..
  ultimately show thesis
    using that by (cases t; cases t'; cases "cstate c = Connected"; cases "Socket_IsNonBlocking os (sock c) w")
      (simp_all add: Connection_Write_def)
qed

section \<open>The handler\<close>

text \<open>A log that comes back: of the logger of the program, one whose queue is not full.\<close>

definition log_returns :: "(string \<Rightarrow> (('k, 'z) server_scheme, unit) cpp) \<Rightarrow> bool" where
  "log_returns log \<longleftrightarrow> (\<forall>m s. log m s \<noteq> None)"

lemma log_returnsE:
  assumes "quiet_log log" and "log_returns log"
  obtains t where "log m s = Some (Inr (), t)" "world.more t = world.more s" "calls t = calls s"
  using assms unfolding log_returns_def by (metis quiet_logD not_None_eq surj_pair)

lemma echo_on_message_returns:
  fixes s :: "('k, 'z) server_scheme"
  assumes "quiet_log log" and "log_returns log" and "write_patience os (sock c) patience"
    and c: "conns s p = Some c" and nul: "nul_free (buf (read_buffer c))"
    and small: "length (buf (read_buffer c)) < 2 ^ 31"
  obtains t where "echo_on_message os log p s = Some (Inr (), t)"
proof -
  define s1 where
    "s1 = print_out (''message from client: '' @ before_nul (Connection_ReadBuffer c) @ endl) s"
  obtain s2 where log: "log ''read from client'' s1 = Some (Inr (), s2)" "world.more s2 = world.more s1"
    by (rule log_returnsE [OF assms(1,2)])
  have c2: "conns s2 p = Some c"
    using c world_more_fields(1) [OF log(2)] world_more_fields(1) [of s1 s] by (simp add: s1_def)
  have eq: "echo_on_message os log p s =
    (if cstate c = Connected
     then seqC (with_connection p (call_SetWriteBuffer (Connection_ReadBuffer c)))
               (with_connection p (Connection_Write os))
     else ret ()) s2"
    unfolding echo_on_message_def connection_getters
    by (simp only: bindC_at(3) [where m = "the_connection p", OF the_connection_run [OF c]]
        bindC_at(3) [where m = "the_connection p", OF the_connection_run [OF c2]] basic_at(4)
        seqC_at(3) [where m = "modify h" for h] seqC_at(3) [where m = "log m" for m, OF log(1)]
        s1_def [symmetric])
  define s3 where "s3 = s2\<lparr>conns := (conns s2)(p \<mapsto> loaded c)\<rparr>"
  have set: "with_connection p (call_SetWriteBuffer (Connection_ReadBuffer c)) s2 = Some (Inr (), s3)"
    using c2 nul by (simp add: with_connection_def call_SetWriteBuffer_def Connection_SetWriteBuffer_def
        Connection_ReadBuffer_def loaded_def s3_def)
  obtain c' w' where "Connection_Write os (loaded c, s3) = Some (Inr (), (c', w'))"
    using Write_returns [of os "loaded c" patience s3] assms(3) small by (auto simp: loaded_def)
  then have "with_connection p (Connection_Write os) s3 =
      Some (Inr (), w'\<lparr>conns := (conns w')(p \<mapsto> c')\<rparr>)"
    by (simp add: with_connection_def s3_def)
  with that eq set show thesis by (cases "cstate c = Connected") simp_all
qed

lemma echo_handler_returns:
  fixes s :: "('k, 'z) server_scheme"
  assumes os: "read_bounded os" "write_bounded os" "write_patience os fd patience"
    and log: "quiet_log log" "log_returns log"
    and wf: "server_wf {} (\<lambda>p. 0) s" and p: "connections s fd = Some p" "conns s p = Some c"
    and c: "cstate c = Connected" "on_message_callback c = Some echo_message_cb"
    and nb: "Socket_IsNonBlocking os fd s"
    and fin: "\<not> read_continues (read_at os fd BUFFER_SIZE (kern s) i)"
    and small: "\<And>c1 w1. Connection_Read os (c, s) = Some (Inr (), (c1, w1)) \<Longrightarrow>
      length (buf (read_buffer c1)) < 2 ^ 31"
  obtains t where "run_callback os (echo_usr os log) (BusinessLogicCb p) s = Some (Inr (), t)"
proof -
  have fd: "sock c = fd" by (rule wf_mapped_sock [OF wf p])
  have live: "0 < use_count s p" by (rule wf_mapped(1) [OF wf p(1)])
  obtain c1 w1 where rd: "Connection_Read os (c, s) = Some (Inr (), (c1, w1))"
    by (rule Read_returns [OF os(1) c(1) nb [folded fd] fin [folded fd]])
  have links: "same_links c c1" "world.more w1 = world.more s"
    using Read_local [OF os(1)] rd unfolding local_step_def by blast+
  note same = world_more_fields [OF links(2)]
  have nul: "nul_free (buf (read_buffer c1))"
    by (rule Read_nonblocking_run [OF os(1) c(1) nb [folded fd] rd]) (simp add: nul_free_kept)
  define s1 where "s1 = w1\<lparr>conns := (conns w1)(p \<mapsto> c1)\<rparr>"
  define s2 where "s2 = s1\<lparr>use_count := (use_count s1)(p := Suc (use_count s1 p))\<rparr>"
  have s1: "with_connection p (Connection_Read os) s = Some (Inr (), s1)" "conns s1 p = Some c1"
    using p(2) rd by (simp_all add: with_connection_def s1_def)
  have count: "use_count s1 = use_count s" using same by (simp add: s1_def)
  have s2: "shared_from_this p s1 = Some (Inr (), s2)" "conns s2 p = Some c1"
    using live count s1(2) by (simp_all add: shared_from_this_def share_def s2_def)
  have "write_patience os (sock c1) patience" "length (buf (read_buffer c1)) < 2 ^ 31"
    using os(3) fd links(1) small [OF rd] by (simp_all add: same_links_def)
  then obtain s3 where s3: "echo_on_message os log p s2 = Some (Inr (), s3)"
    by (rule echo_on_message_returns [OF log _ s2(2) nul])
  from echo_on_message_sends [OF os(2) log(1) s2(2) nul s3] have "use_count s3 = use_count s2" by blast
  then have drop: "unshare os p s3 = Some (Inr (), s3\<lparr>use_count := (use_count s3)(p := use_count s3 p - 1)\<rparr>)"
    using live count by (simp add: unshare_def s2_def)
  have "echo_usr os log echo_message_cb p s2 = Some (Inr (), s3)"
    using s3 by (simp add: echo_usr_def echo_connect_cb_def echo_message_cb_def)
  from scoped_at(1) [of "echo_usr os log echo_message_cb p", OF this] drop s1 s2 c(2) links(1) show thesis
    by (intro that) (simp add: Connection_BusinessLogic_def the_connection_run same_links_def)
qed

text \<open>
  C15: one message through the echo server. When the kernel has at most \<open>i\<close> chunks for the
  connection, the handler returns, after at most \<open>i + 1\<close> reads. Unless these found the end of the
  stream or an error, what the connection then sends is a prefix of the text it just received, in
  order, and nothing else; otherwise it sends nothing and the object stays. (A prefix: a client
  that does not read gets only what its socket takes.)
\<close>

theorem echo_message:
  fixes s :: "('k, 'z) server_scheme"
  assumes "read_bounded os" and "write_bounded os" and "write_patience os fd patience"
    and "quiet_log log" and "log_returns log" and "server_reach os (echo_usr os log) s"
    and "connections s fd = Some p" and "conns s p = Some c" and "cstate c = Connected"
    and "on_message_callback c = Some echo_message_cb" and "Socket_IsNonBlocking os fd s"
    and "\<not> read_continues (read_at os fd BUFFER_SIZE (kern s) i)" and "i * BUFFER_SIZE < 2 ^ 31"
  shows "\<exists>t rs r cs rest.
     run_callback os (echo_usr os log) (BusinessLogicCb p) s = Some (Inr (), t) \<and>
     calls t = calls s @ map (CRead fd BUFFER_SIZE) (rs @ [r]) @ cs \<and> length rs \<le> i \<and>
     (\<forall>q \<in> set rs. read_continues q) \<and> \<not> read_continues r \<and>
     (\<forall>q \<in> set cs. \<exists>b r. q = CWrite fd b r) \<and>
     (if read_closes r then cs = [] else bytes_written fd cs @ rest = kept rs) \<and>
     conns t p \<noteq> None"
proof -
  have "usr_ok (echo_usr os log)" by (rule echo_usr_ok) (rule quiet_log_world [OF assms(4)])
  then have wf: "server_wf {} (\<lambda>p. 0) s" using reach_wf [OF assms(1) _ assms(6)] by blast
  have fd: "sock c = fd" by (rule wf_mapped_sock [OF wf assms(7,8)])
  obtain c2 w2 where rd2: "Connection_Read os (c, s) = Some (Inr (), (c2, w2))"
    "length (buf (read_buffer c2)) \<le> i * BUFFER_SIZE" "length (calls w2) \<le> length (calls s) + Suc i"
    by (rule Read_returns [OF assms(1,9) assms(11,12) [folded fd]])
  obtain t where run: "run_callback os (echo_usr os log) (BusinessLogicCb p) s = Some (Inr (), t)"
    by (rule echo_handler_returns [OF assms(1-5) wf assms(7-12)]) (use rd2 assms(13) in auto)
  from echo_message_run [OF assms(1,2,4,6-11) run] obtain rs r cs rest c1 w1 where
    rd: "Connection_Read os (c, s) = Some (Inr (), (c1, w1))"
      "calls w1 = calls s @ map (CRead fd BUFFER_SIZE) (rs @ [r])" and
    post: "calls t = calls s @ map (CRead fd BUFFER_SIZE) (rs @ [r]) @ cs"
      "\<forall>q \<in> set rs. read_continues q" "\<not> read_continues r" "\<forall>q \<in> set cs. \<exists>b r. q = CWrite fd b r"
      "if read_closes r then cs = [] else bytes_written fd cs @ rest = kept rs" "conns t p \<noteq> None" by blast
  from rd rd2 have "length rs \<le> i" by simp
  with run post show ?thesis by blast
qed

end
