(* ===== verification/ServerWitnesses.thy ===== *)
theory ServerWitnesses
  imports ServerScript EchoReturns
begin

text \<open>
  The theorems about the server, applied to the states of the scripted server.
\<close>

unbundle bit_operations_syntax

section \<open>Two applications\<close>

text \<open>One whose message callback closes the connection, and the echo server with a silent log.\<close>

definition closing_usr :: "(script, 'z) usr" where
  "closing_usr u p = Connection_Close script_os p"

lemma closing_usr_ok: "usr_ok closing_usr"
  unfolding usr_ok_def closing_usr_def
proof (intro allI impI)
  fix p and held :: "nat \<Rightarrow> nat"
  assume "0 < held p"
  then have "server_wf {} held s \<and> conns s p \<noteq> None" if "server_wf {} held s"
    for s :: "(script, 'b) server_scheme"
    using that wf_held [OF that, of p] wf_counted [OF that, of p] by simp
  then show "triple (server_wf {} held) (Connection_Close script_os p)
      (\<lambda>x. server_wf {} held) (fails held :: fault \<Rightarrow> (script, 'b) server_scheme \<Rightarrow> bool)"
    by (rule triple_pre [OF triple_Close])
qed

definition silent_log :: "string \<Rightarrow> (('k, 'z) server_scheme, unit) cpp" where
  "silent_log m = ret ()"

lemma silent_log_quiet: "quiet_log silent_log"
  by (simp add: quiet_log_def silent_log_def)

section \<open>Witnesses\<close>

theorem reachable_connections_witness:
  "\<exists>c q ch. conns server_hello 5 = Some c \<and> sock c = 9 \<and> conn_channel c = Some q \<and>
     channels server_hello q = Some ch \<and> ch_fd ch = 9"
proof -
  have "connections server_hello 9 = Some 5" by simp
  with reachable_connections [OF script_read_bounded closing_usr_ok hello_reachable]
  show ?thesis by blast
qed


theorem no_write_interest_witness:
  "listen_events client_channel_ready AND EPOLLOUT = 0"
proof -
  have "channels server_hello 4 = Some client_channel_ready" by simp
  from no_write_interest [OF script_read_bounded closing_usr_ok hello_reachable this]
  show ?thesis by blast
qed

lemma script_socket_reg: "sys_socket script_os k = (r, k') \<Longrightarrow> sk_reg k' = sk_reg k"
  by auto

lemma told_not_accepted:
  "\<exists>p t. new_Connection script_os (Some 3) 9 server_ready = Some (Inr p, t)"
  by (simp add: new_Connection_def new_Socket_def new_Channel_def Channel_EnableRead_def
      Channel_UseET_def EventLoop_UpdateChannel_def Epoll_UpdateChannel_def Channel_SetInEpoll_def
      Channel_init_def total_def do_socket_def do_epoll_ctl_def syscall_def script_ctl_def script_fds_def Let_def
      server_ready_def server_up_def)

lemma ready_files:
  "\<exists>t. Server_NewConnection script_os closing_usr 9 server_ready = Some (Inr (), t)"
proof -
  have subs: "sub_reactors server_ready = [2, 3]" "on_message_cb server_ready = Some (UserCb 0)"
    "on_connection_cb server_ready = None" "connections server_ready = Map.empty"
    "event_loops server_ready 3 = Some \<lparr>epfd = 6, el_quit = False\<rparr>"
    by (simp_all add: server_ready_def server_up_def)
  have pick: "reactor_of 9 (Suc (Suc 0)) = 1" by (simp add: reactor_of_def)
  obtain p t where new: "new_Connection script_os (Some 3) 9 server_ready = Some (Inr p, t)"
    using told_not_accepted by blast
  from new_Connection_run [OF subs(5) new] obtain own k where
    t: "t = server_ready\<lparr>kern := k, calls := calls server_ready @ conn_calls own 6 9 (next_ptr server_ready),
      channels := (channels server_ready)(next_ptr server_ready \<mapsto> new_conn_channel 3 9),
      next_ptr := Suc (Suc (next_ptr server_ready)),
      conns := (conns server_ready)(p \<mapsto> new_conn 9 (next_ptr server_ready))\<rparr>" by auto
  show ?thesis
    using new subs pick
    by (simp add: Server_NewConnection_def Connection_SetDeleteConnectionCallBack_def
        Connection_SetOnMessageCallBack_def set_connection_run the_connection_run
        Channel_SetReadCallBack_def t new_conn_def)
qed


theorem connection_descriptors_witness:
  "\<exists>own p t v q. new_Connection script_os (Some 3) 9 server_ready = Some (Inr p, t) \<and>
     delete_Connection script_os p t = Some (Inr (), v) \<and>
     calls v = calls server_ready @
       [CSocket (SysOk own),
        CEpollCtl 6 EPOLL_CTL_ADD 9 \<lparr>ev_events = EPOLLIN OR EPOLLPRI, ev_ptr = q\<rparr> (SysOk ()),
        CEpollCtl 6 EPOLL_CTL_MOD 9
          \<lparr>ev_events = (EPOLLIN OR EPOLLPRI) OR EPOLLET, ev_ptr = q\<rparr> (SysOk ()),
        CClose 9, CClose 9]"
proof -
  obtain p t where new: "new_Connection script_os (Some 3) 9 server_ready = Some (Inr p, t)"
    using told_not_accepted by blast
  have el: "event_loops server_ready 3 = Some \<lparr>epfd = 6, el_quit = False\<rparr>"
    by (simp add: server_ready_def server_up_def)
  have "(9::int) \<noteq> -1" by simp
  from connection_descriptors [OF script_read_bounded closing_usr_ok ready_reachable el this new] new
  show ?thesis by auto
qed

theorem registered_before_callback_witness:
  "\<exists>p t q v. new_Connection script_os (Some 3) 9 server_ready = Some (Inr p, t) \<and>
     Poll_channels [\<lparr>ev_events = EPOLLIN, ev_ptr = q\<rparr>] t = Some (Inr [q], v) \<and>
     HandleEvents (run_callback script_os closing_usr) [q] v = Some (Inl BadFunctionCall, v)"
proof -
  obtain p t where new: "new_Connection script_os (Some 3) 9 server_ready = Some (Inr p, t)"
    using told_not_accepted by blast
  have el: "event_loops server_ready 3 = Some \<lparr>epfd = 6, el_quit = False\<rparr>"
    by (simp add: server_ready_def server_up_def)
  have "EPOLLIN AND (EPOLLIN OR EPOLLPRI) \<noteq> 0" by (simp add: epoll_flag_defs)
  from registered_before_callback [OF script_epoll_contract el new this] new show ?thesis by blast
qed

lemma hello_reads:
  "\<exists>c' w'. Connection_Read script_os (client_conn, server_hello) = Some (Inr (), (c', w'))"
proof -
  have "Socket_IsNonBlocking script_os (sock client_conn) server_hello"
    by (simp add: Socket_IsNonBlocking_def client_conn_def O_NONBLOCK_def)
  moreover have "cstate client_conn = Connected" by (simp add: client_conn_def)
  ultimately show ?thesis
    by (simp add: Connection_Read_def Let_def Connection_ReadNonBlocking.simps do_read_def
        syscall_def script_read_def append_local_lit BUFFER_SIZE_def)
qed

theorem self_close_use_after_free_witness:
  "\<exists>t. Channel_HandleEvent (run_callback script_os closing_usr) 4 server_hello
       = Some (Inl (Undefined UseAfterFree), t) \<and> channels t 4 = None"
proof -
  obtain c' w' where rd: "Connection_Read script_os (client_conn, server_hello) = Some (Inr (), (c', w'))"
    using hello_reads by blast
  have s: "channels server_hello 4 = Some client_channel_ready"
    "ready_events client_channel_ready AND (EPOLLIN OR EPOLLPRI) \<noteq> 0"
    "read_callback client_channel_ready = Some (BusinessLogicCb 5)"
    "conns server_hello 5 = Some client_conn" "connections server_hello (sock client_conn) = Some 5"
    "use_count server_hello 5 = 1" "sock client_conn \<noteq> -1"
    "delete_connection_callback client_conn = Some DeleteConnectionCb"
    "on_message_callback client_conn = Some (UserCb 0)"
    by (simp_all add: client_channel_ready_def client_channel_def client_conn_def epoll_flag_defs)
  have "closing_usr (UserCb 0) 5 = Connection_Close script_os 5" by (simp add: closing_usr_def)
  from self_close_use_after_free [OF script_read_bounded closing_usr_ok hello_reachable s this rd]
  show ?thesis by blast
qed

theorem Start_never_returns_witness:
  "\<exists>e t. Server_Start script_os closing_usr server_hello = Some (Inl e, t)"
proof -
  have "\<exists>r t. Server_Start script_os closing_usr server_hello = Some (r, t)"
    by (simp add: Server_Start_def add_loops_at EventLoop_Loop.simps Loop_round_def the_loop_def Epoll_Poll_def
        do_epoll_wait_def syscall_def script_wait_def total_def)
  then obtain r t where run: "Server_Start script_os closing_usr server_hello = Some (r, t)" by blast
  from Start_never_returns [OF script_read_bounded closing_usr_ok hello_reachable run] run
  show ?thesis by blast
qed


lemma hello_nonblocking [simp]: "Socket_IsNonBlocking script_os 9 server_hello"
  by (simp add: Socket_IsNonBlocking_def O_NONBLOCK_def)

text \<open>
  The kernel has \<open>hello\<close> and then would block; the echo server sends it back in two pieces.
\<close>

lemma hello_ends: "\<not> read_continues (read_at script_os 9 BUFFER_SIZE (kern server_hello) (Suc 0))"
  by (simp add: script_read_def)

lemma silent_log_returns: "log_returns silent_log"
  by (simp add: log_returns_def silent_log_def)

theorem echo_message_witness:
  "\<exists>t rs r cs rest.
     run_callback script_os (echo_usr script_os silent_log) (BusinessLogicCb 5) server_hello = Some (Inr (), t) \<and>
     calls t = calls server_hello @ map (CRead 9 BUFFER_SIZE) (rs @ [r]) @ cs \<and> length rs \<le> 1 \<and>
     (if read_closes r then cs = [] else bytes_written 9 cs @ rest = kept rs)"
proof -
  have s: "connections server_hello 9 = Some 5" "conns server_hello 5 = Some client_conn"
    "cstate client_conn = Connected" "on_message_callback client_conn = Some echo_message_cb"
    by (simp_all add: client_conn_def echo_message_cb_def)
  have "Suc 0 * BUFFER_SIZE < 2 ^ 31" by (simp add: BUFFER_SIZE_def)
  from echo_message [OF script_read_bounded script_write_bounded script_write_patience silent_log_quiet
      silent_log_returns hello_reachable s hello_nonblocking hello_ends this]
  show ?thesis unfolding One_nat_def by blast
qed

end
