(* ===== verification/EchoPair.thy ===== *)
theory EchoPair
  imports EchoReturns
begin

text \<open>
  A client and the echo server as two ends of one stream. The kernel's part is a contract on the two
  descriptors: what is written at one end is appended to what the other end can read, and is read
  there in order, in pieces of any size. From it, what \<open>Read\<close> and \<open>Write\<close> move, that the handler
  leaves nothing unread (epoll reports an edge only once), and the way of a message there and back.
\<close>

section \<open>The kernel's promise\<close>

text \<open>\<open>inbox k fd\<close> is what can be read from \<open>fd\<close>.\<close>

definition stream_end :: "'k os \<Rightarrow> ('k \<Rightarrow> int \<Rightarrow> string) \<Rightarrow> int \<Rightarrow> int \<Rightarrow> bool" where
  "stream_end os inbox fd peer \<longleftrightarrow>
     (\<forall>n k r k'. sys_read os fd n k = (r, k') \<longrightarrow> inbox k' peer = inbox k peer \<and>
        (case r of
           SysOk bs \<Rightarrow> inbox k fd = bs @ inbox k' fd
         | SysErr e \<Rightarrow> inbox k' fd = inbox k fd \<and>
             (e \<in> {EAGAIN, EWOULDBLOCK} \<longrightarrow> inbox k fd = []))) \<and>
     (\<forall>bs k r k'. sys_write os fd bs k = (r, k') \<longrightarrow> inbox k' fd = inbox k fd \<and>
        (case r of
           SysOk n \<Rightarrow> inbox k' peer = inbox k peer @ take n bs
         | SysErr e \<Rightarrow> inbox k' peer = inbox k peer))"

lemma stream_read:
  assumes "stream_end os inbox fd peer" and rd: "do_read os fd n w = (r, w')"
  shows "inbox (kern w) fd = received [r] @ inbox (kern w') fd"
    and "inbox (kern w') peer = inbox (kern w) peer"
    and "\<not> read_continues r \<Longrightarrow> \<not> read_closes r \<Longrightarrow> inbox (kern w') fd = []"
proof -
  have run: "sys_read os fd n (kern w) = (r, kern w')"
    using rd unfolding do_read_def by (rule syscall_frame(4))
  have all: "inbox (kern w') peer = inbox (kern w) peer \<and>
      (case r of
         SysOk bs \<Rightarrow> inbox (kern w) fd = bs @ inbox (kern w') fd
       | SysErr e \<Rightarrow> inbox (kern w') fd = inbox (kern w) fd \<and>
           (e \<in> {EAGAIN, EWOULDBLOCK} \<longrightarrow> inbox (kern w) fd = []))"
    using assms(1) run unfolding stream_end_def by blast
  show "inbox (kern w) fd = received [r] @ inbox (kern w') fd"
    and "inbox (kern w') peer = inbox (kern w) peer"
    and "\<not> read_continues r \<Longrightarrow> \<not> read_closes r \<Longrightarrow> inbox (kern w') fd = []"
    using all by (auto split: sysres.splits)
qed

text \<open>What one \<open>write\<close> accepted.\<close>

fun accepted :: "string \<Rightarrow> nat sysres \<Rightarrow> string" where
  "accepted bs (SysOk n) = take n bs"
| "accepted bs (SysErr e) = []"

lemma stream_write:
  assumes "stream_end os inbox fd peer" and wr: "do_write os fd bs w = (r, w')"
  shows "inbox (kern w') peer = inbox (kern w) peer @ accepted bs r"
    and "inbox (kern w') fd = inbox (kern w) fd"
proof -
  have run: "sys_write os fd bs (kern w) = (r, kern w')"
    using wr unfolding do_write_def by (rule syscall_frame(4))
  have all: "inbox (kern w') fd = inbox (kern w) fd \<and>
      (case r of
         SysOk n \<Rightarrow> inbox (kern w') peer = inbox (kern w) peer @ take n bs
       | SysErr e \<Rightarrow> inbox (kern w') peer = inbox (kern w) peer)"
    using assms(1) run unfolding stream_end_def by blast
  show "inbox (kern w') peer = inbox (kern w) peer @ accepted bs r"
    and "inbox (kern w') fd = inbox (kern w) fd"
    using all by (auto split: sysres.splits)
qed

section \<open>What the operations of a connection move\<close>

text \<open>
  A non-blocking \<open>Read\<close>: the buffer grows by what leaves the stream, up to NUL bytes, and unless
  the connection was closed the stream is empty afterwards.
\<close>

lemma reads_moves:
  assumes "reads os s y" and "stream_end os inbox fd peer" and "sock (fst s) = fd"
    and "nul_free (inbox (kern (snd s)) fd)"
  shows "buf (read_buffer (fst s)) @ inbox (kern (snd s)) fd =
      buf (read_buffer (fst (snd y))) @ inbox (kern (snd (snd y))) fd \<and>
    inbox (kern (snd (snd y))) peer = inbox (kern (snd s)) peer \<and>
    (cstate (fst (snd y)) \<noteq> Closed \<longrightarrow> inbox (kern (snd (snd y))) fd = []) \<and>
    same_links (fst s) (fst (snd y)) \<and> world.more (snd (snd y)) = world.more (snd s)"
  using assms(1,3,4)
proof induction
  case (reads_more c w q w1 y)
  have rd: "do_read os fd BUFFER_SIZE w = (q, w1)" using reads_more by simp
  note moved = stream_read(1,2) [OF assms(2) rd]
  have "nul_free (received [q])" "nul_free (inbox (kern w1) fd)"
    using reads_more(6) moved(1) by (simp_all add: nul_free_def)
  moreover have "kept [q] = received [q]" using calculation(1) by (rule kept_received)
  moreover have "world.more w1 = world.more w"
    using reads_more(1) unfolding do_read_def by (rule syscall_frame(3))
  ultimately show ?case using reads_more.IH reads_more(5) moved by (simp add: same_links_def)
next
  case (reads_stop c w q w1)
  have rd: "do_read os fd BUFFER_SIZE w = (q, w1)" using reads_stop by simp
  have "received [q] = []" using reads_stop(2) by (cases q) simp_all
  moreover have "world.more w1 = world.more w"
    using reads_stop(1) unfolding do_read_def by (rule syscall_frame(3))
  ultimately show ?case
    using stream_read [OF assms(2) rd] reads_stop(2) by (auto simp: same_links_def)
qed

lemma writes_moves:
  assumes "writes os bs left s y" and "write_bounded os" and "stream_end os inbox fd peer"
    and "sock (fst s) = fd" and "left \<le> int (length bs)"
  shows "\<exists>sent. inbox (kern (snd (snd y))) peer = inbox (kern (snd s)) peer @ sent \<and>
      (\<exists>rest. sent @ rest = drop (nat (int (length bs) - left)) bs) \<and>
    inbox (kern (snd (snd y))) fd = inbox (kern (snd s)) fd"
  using assms(1,4,5)
proof induction
  case (writes_more left c w n w1 y)
  have wr: "do_write os fd (piece_of bs left) w = (SysOk n, w1)" using writes_more by simp
  note moved = stream_write [OF assms(3) wr]
  have "length (piece_of bs left) = nat left"
    using writes_more(1,6) by (simp add: piece_of_def)
  then have n: "int n \<le> left" using do_write_bounded [OF assms(2) writes_more(2)] writes_more(1) by simp
  from writes_more.IH writes_more(5,6) obtain sent rest where
    sent: "inbox (kern (snd (snd y))) peer = inbox (kern w1) peer @ sent"
    "sent @ rest = drop (nat (int (length bs) - (left - int n))) bs"
    "inbox (kern (snd (snd y))) fd = inbox (kern w1) fd" by auto
  define d where "d = drop (nat (int (length bs) - left)) bs"
  have "nat (int (length bs) - (left - int n)) = n + nat (int (length bs) - left)"
    using n writes_more(1,6) by linarith
  then have "sent @ rest = drop n d" using sent(2) by (simp add: d_def)
  then have "take n d @ sent @ rest = d" by simp
  moreover have "take n (piece_of bs left) = take n d"
    using n writes_more(1) by (simp add: piece_of_def d_def min_absorb1 nat_le_iff)
  ultimately show ?case
    using sent(1,3) moved unfolding d_def [symmetric]
    by (intro exI [of _ "take n d @ sent"]) auto
next
  case (writes_again left c w w1 y)
  have "do_write os fd (piece_of bs left) w = (SysErr EINTR, w1)" using writes_again by simp
  from stream_write [OF assms(3) this] writes_again.IH writes_again(5,6) show ?case by simp
next
  case (writes_full left c w w1)
  have "do_write os fd (piece_of bs left) w = (SysErr EAGAIN, w1)" using writes_full by simp
  from stream_write [OF assms(3) this] show ?case by simp
next
  case (writes_fails left c w e w1)
  have "do_write os fd (piece_of bs left) w = (SysErr e, w1)" using writes_fails by simp
  from stream_write [OF assms(3) this] show ?case by simp
qed simp

lemma Read_nonblocking_moves:
  assumes "read_bounded os" and "stream_end os inbox (sock c) peer" and "cstate c = Connected"
    and "Socket_IsNonBlocking os (sock c) w" and "nul_free (inbox (kern w) (sock c))"
    and run: "Connection_Read os (c, w) = Some (r, (c', w'))"
  shows "inbox (kern w) (sock c) = buf (read_buffer c') @ inbox (kern w') (sock c)"
    and "inbox (kern w') peer = inbox (kern w) peer"
    and "cstate c' \<noteq> Closed \<Longrightarrow> inbox (kern w') (sock c) = []"
proof -
  let ?c1 = "c\<lparr>read_buffer := Buffer_ClearBuffer (read_buffer c)\<rparr>"
  have "Connection_ReadNonBlocking os (?c1, w) = Some (r, (c', w'))"
    using assms(3,4) run by (simp add: Connection_Read_def Let_def)
  from reads_moves [OF ReadNonBlocking_reads [OF assms(1) this] assms(2)] assms(5)
  show "inbox (kern w) (sock c) = buf (read_buffer c') @ inbox (kern w') (sock c)"
    and "inbox (kern w') peer = inbox (kern w) peer"
    and "cstate c' \<noteq> Closed \<Longrightarrow> inbox (kern w') (sock c) = []"
    by (simp_all add: Buffer_ClearBuffer_def)
qed

lemma Read_blocking_moves:
  assumes "read_bounded os" and "stream_end os inbox (sock c) peer" and "cstate c = Connected"
    and "\<not> Socket_IsNonBlocking os (sock c) w" and "sys_rcvbuf os (sock c) (kern w) < 2 ^ 31"
    and "nul_free (inbox (kern w) (sock c))"
    and run: "Connection_Read os (c, w) = Some (r, (c', w'))"
  shows "inbox (kern w) (sock c) = buf (read_buffer c') @ inbox (kern w') (sock c)"
proof -
  let ?n = "sys_rcvbuf os (sock c) (kern w)"
  obtain q w1 where rd: "do_read os (sock c) ?n w = (q, w1)" by force
  note moved = stream_read(1) [OF assms(2) rd]
  show ?thesis
  proof (cases q)
    case (SysOk bs)
    with rd have "length bs \<le> ?n" by (auto intro: do_read_bounded [OF assms(1)])
    then have "to_int32 (int (length bs)) = int (length bs)"
      using assms(5) by (intro to_int32_of_nat) (rule le_less_trans)
    moreover have "before_nul bs = bs"
      using assms(6) moved SysOk by (auto simp: nul_free_def intro!: before_nul_id)
    ultimately show ?thesis
      using run rd moved SysOk assms(3,4)
      by (auto simp: Connection_Read_def Connection_ReadBlocking_def Let_def
          Buffer_ClearBuffer_def Buffer_Append_sized_eq split: if_splits)
  next
    case (SysErr e)
    with run rd moved assms(3,4) show ?thesis
      by (auto simp: Connection_Read_def Connection_ReadBlocking_def Let_def Buffer_ClearBuffer_def)
  qed
qed

lemma Write_moves:
  assumes "write_bounded os" and "stream_end os inbox (sock c) peer" and "cstate c = Connected"
    and run: "Connection_Write os (c, w) = Some (Inr u, (c', w'))"
  shows "\<exists>sent rest. inbox (kern w') peer = inbox (kern w) peer @ sent \<and>
      sent @ rest = buf (write_buffer c)"
    and "inbox (kern w') (sock c) = inbox (kern w) (sock c)"
proof -
  let ?b = "buf (write_buffer c)" and ?n = "to_int32 (Buffer_Size (write_buffer c))"
  have "(\<exists>sent rest. inbox (kern w') peer = inbox (kern w) peer @ sent \<and> sent @ rest = ?b) \<and>
    inbox (kern w') (sock c) = inbox (kern w) (sock c)"
  proof (cases "Socket_IsNonBlocking os (sock c) w")
    case True
    from run assms(3) True obtain c1 where
      nb: "Connection_WriteNonBlocking os (c, w) = Some (Inr (), (c1, w'))"
      by (auto simp: Connection_Write_def seqC_returns)
    then have pos: "0 \<le> ?n" by (auto simp: Connection_WriteNonBlocking_def Let_def split: if_splits)
    then have le: "?n \<le> int (length ?b)"
      by (simp add: Buffer_Size_def to_int32_def signed_take_bit_int_less_eq_self_iff)
    then have "take (nat ?n) (Buffer_Cstr (write_buffer c)) = take (nat ?n) ?b"
      by (simp add: Buffer_Cstr_def)
    with nb pos have "Write_loop os (take (nat ?n) ?b) ?n (c, w) = Some (Inr (), (c1, w'))"
      by (simp add: Connection_WriteNonBlocking_def Let_def)
    from writes_moves [OF Write_loop_writes [OF this] assms(1,2)] pos le obtain sent rest where
      "inbox (kern w') peer = inbox (kern w) peer @ sent" "sent @ rest = take (nat ?n) ?b"
      "inbox (kern w') (sock c) = inbox (kern w) (sock c)" by auto
    moreover have "sent @ (rest @ drop (nat ?n) ?b) = ?b"
      using calculation(2) by (metis append_assoc append_take_drop_id)
    ultimately show ?thesis by blast
  next
    case False
    obtain r w1 where wr: "do_write os (sock c) ?b w = (r, w1)" by force
    have "kern w' = kern w1"
      using run assms(3) False wr
      by (cases r) (auto simp: Connection_Write_def Connection_WriteBlocking_def Buffer_Cstr_def
          Buffer_Size_def seqC_returns)
    moreover have "accepted ?b r @ (case r of SysOk n \<Rightarrow> drop n ?b | SysErr e \<Rightarrow> ?b) = ?b"
      by (cases r) simp_all
    ultimately show ?thesis using stream_write [OF assms(2) wr] by metis
  qed
  then show "\<exists>sent rest. inbox (kern w') peer = inbox (kern w) peer @ sent \<and> sent @ rest = ?b"
    and "inbox (kern w') (sock c) = inbox (kern w) (sock c)" by blast+
qed

section \<open>There and back\<close>

lemma call_SetWriteBuffer_at:
  "nul_free m \<Longrightarrow> call_SetWriteBuffer (m @ [NUL]) (c, w) =
     Some (Inr (), (c\<lparr>write_buffer := (write_buffer c)\<lparr>buf := m\<rparr>\<rparr>, w))"
  by (simp add: call_SetWriteBuffer_def Connection_SetWriteBuffer_def Buffer_SetBuf_terminated
      before_nul_id)

text \<open>The application's log writes to files: it leaves the stream alone.\<close>

definition log_off_stream ::
  "('k \<Rightarrow> int \<Rightarrow> string) \<Rightarrow> (string \<Rightarrow> (('k, 'z) server_scheme, unit) cpp) \<Rightarrow> bool" where
  "log_off_stream inbox log \<longleftrightarrow>
     (\<forall>m s r t. log m s = Some (r, t) \<longrightarrow> inbox (kern t) = inbox (kern s))"

lemma echo_on_message_moves:
  fixes s t :: "('k, 'z) server_scheme"
  assumes "write_bounded os" and "quiet_log log" and "log_off_stream inbox log"
    and "stream_end os inbox (sock c) peer"
    and "conns s p = Some c" and "nul_free (buf (read_buffer c))"
    and "echo_on_message os log p s = Some (Inr u, t)"
  shows "\<exists>sent rest. inbox (kern t) peer = inbox (kern s) peer @ sent \<and>
      sent @ rest = buf (read_buffer c)"
    and "inbox (kern t) (sock c) = inbox (kern s) (sock c)"
    and "\<exists>c'. conns t p = Some c' \<and> (cstate c' = Connected \<longrightarrow> cstate c = Connected)"
proof -
  have "(\<exists>sent rest. inbox (kern t) peer = inbox (kern s) peer @ sent \<and> sent @ rest = buf (read_buffer c)) \<and>
    inbox (kern t) (sock c) = inbox (kern s) (sock c) \<and>
    (\<exists>c'. conns t p = Some c' \<and> (cstate c' = Connected \<longrightarrow> cstate c = Connected))"
  proof (rule echo_on_message_run [OF assms(2,5,6,7)])
    fix s2
    assume l: "log ''read from client''
        (print_out (''message from client: '' @ before_nul (Connection_ReadBuffer c) @ endl) s) =
        Some (Inr (), s2)" and c2: "conns s2 p = Some c"
      and closed: "cstate c \<noteq> Connected \<Longrightarrow> t = s2"
      and sends: "cstate c = Connected \<Longrightarrow> \<exists>c' s'. Connection_Write os
         (loaded c, s2\<lparr>conns := (conns s2)(p \<mapsto> loaded c)\<rparr>) = Some (Inr u, (c', s')) \<and>
         t = s'\<lparr>conns := (conns s')(p \<mapsto> c')\<rparr>"
    have same: "inbox (kern s2) = inbox (kern s)"
      using assms(3) l unfolding log_off_stream_def by fastforce
    show ?thesis
    proof (cases "cstate c = Connected")
      case False
      with closed c2 same show ?thesis by auto
    next
      case True
      from sends [OF True] obtain c' s' where
        w: "Connection_Write os (loaded c, s2\<lparr>conns := (conns s2)(p \<mapsto> loaded c)\<rparr>) = Some (Inr u, (c', s'))"
        and t: "t = s'\<lparr>conns := (conns s')(p \<mapsto> c')\<rparr>" by blast
      have "stream_end os inbox (sock (loaded c)) peer" "cstate (loaded c) = Connected"
        using assms(4) True by (simp_all add: loaded_def)
      from Write_moves [OF assms(1) this w] show ?thesis by (simp add: t same True) (simp add: loaded_def)
    qed
  qed
  then show "\<exists>sent rest. inbox (kern t) peer = inbox (kern s) peer @ sent \<and>
      sent @ rest = buf (read_buffer c)"
    and "inbox (kern t) (sock c) = inbox (kern s) (sock c)"
    and "\<exists>c'. conns t p = Some c' \<and> (cstate c' = Connected \<longrightarrow> cstate c = Connected)"
    by blast+
qed

lemma echo_handler_moves:
  fixes s t :: "('k, 'z) server_scheme"
  assumes "read_bounded os" and "write_bounded os" and "quiet_log log" and "log_off_stream inbox log"
    and "stream_end os inbox b a" and "server_wf {} (\<lambda>p. 0) s"
    and "connections s b = Some p" and "conns s p = Some c" and "cstate c = Connected"
    and "on_message_callback c = Some echo_message_cb" and "Socket_IsNonBlocking os b s"
    and "nul_free (inbox (kern s) b)"
    and "run_callback os (echo_usr os log) (BusinessLogicCb p) s = Some (Inr u, t)"
  shows "\<exists>sent rest. inbox (kern t) a = inbox (kern s) a @ sent \<and> sent @ rest = inbox (kern s) b"
    and "\<exists>c'. conns t p = Some c' \<and> (cstate c' = Connected \<longrightarrow> inbox (kern t) b = [])"
proof -
  from echo_handler_run [OF assms(1,3,6,7,8,10,13)] obtain c1 w1 s3 where
    fd: "sock c = b" and rd: "Connection_Read os (c, s) = Some (Inr (), (c1, w1))"
    and links: "same_links c c1" and
    msg: "echo_on_message os log p (w1\<lparr>conns := (conns w1)(p \<mapsto> c1),
       use_count := (use_count s)(p := Suc (use_count s p))\<rparr>) = Some (Inr (), s3)" and
    t: "use_count s3 = (use_count s)(p := Suc (use_count s p)) \<Longrightarrow> t = s3\<lparr>use_count := use_count s\<rparr>"
    by metis
  have ends: "stream_end os inbox (sock c) a" "Socket_IsNonBlocking os (sock c) s"
    "nul_free (inbox (kern s) (sock c))" using assms(5,11,12) fd by simp_all
  note moved = Read_nonblocking_moves [OF assms(1) ends(1) assms(9) ends(2,3) rd]
  have c1: "sock c1 = b" using links fd by (simp add: same_links_def)
  have nul: "nul_free (buf (read_buffer c1))"
    using moved(1) ends(3) by (simp add: nul_free_def)
  from echo_on_message_sends [OF assms(2,3) _ nul msg] have
    "use_count s3 = (use_count s)(p := Suc (use_count s p))" by auto
  note t = t [OF this]
  from echo_on_message_moves [OF assms(2,3,4) _ _ nul msg, of a] assms(5) c1 obtain sent rest c' where
    out: "inbox (kern s3) a = inbox (kern w1) a @ sent" "sent @ rest = buf (read_buffer c1)"
    "inbox (kern s3) b = inbox (kern w1) b" "conns s3 p = Some c'"
    "cstate c' = Connected \<longrightarrow> cstate c1 = Connected" by auto
  have "sent @ (rest @ inbox (kern w1) b) = inbox (kern s) b"
    using moved(1) out(2) fd by (metis append_assoc)
  then show "\<exists>sent rest. inbox (kern t) a = inbox (kern s) a @ sent \<and> sent @ rest = inbox (kern s) b"
    using out(1) moved(2) by (auto simp: t)
  show "\<exists>c'. conns t p = Some c' \<and> (cstate c' = Connected \<longrightarrow> inbox (kern t) b = [])"
    using out(3-5) moved(3) fd by (auto simp: t)
qed

text \<open>The way there and back, when every operation has returned.\<close>

lemma echo_round_trip_run:
  fixes s t :: "('k, 'z) server_scheme" and w w1 w2 :: "('k, 'y) world_scheme"
  assumes "read_bounded os" and "write_bounded os" and "quiet_log log" and "log_off_stream inbox log"
    and "stream_end os inbox a b" and "stream_end os inbox b a"
    and "sock ca = a" and "cstate ca = Connected" and "nul_free m"
    and "inbox (kern w) a = []" and "inbox (kern w) b = []"
    and "seqC (call_SetWriteBuffer (m @ [NUL])) (Connection_Write os) (ca, w) = Some (Inr u, (ca1, w1))"
    and "server_wf {} (\<lambda>p. 0) s" and "kern s = kern w1"
    and "connections s b = Some p" and "conns s p = Some c" and "cstate c = Connected"
    and "on_message_callback c = Some echo_message_cb" and "Socket_IsNonBlocking os b s"
    and "run_callback os (echo_usr os log) (BusinessLogicCb p) s = Some (Inr v, t)"
    and "cstate ca1 = Connected" and "\<not> Socket_IsNonBlocking os a (w1\<lparr>kern := kern t\<rparr>)"
    and "sys_rcvbuf os a (kern t) < 2 ^ 31"
    and "Connection_Read os (ca1, w1\<lparr>kern := kern t\<rparr>) = Some (r, (ca2, w2))"
  shows "(\<exists>lost. inbox (kern w1) b @ lost = m) \<and>
    (\<exists>lost. inbox (kern t) a @ lost = inbox (kern w1) b) \<and>
    buf (read_buffer ca2) @ inbox (kern w2) a = inbox (kern t) a \<and>
    (\<exists>c'. conns t p = Some c' \<and> (cstate c' = Connected \<longrightarrow> inbox (kern t) b = []))"
proof -
  let ?ca = "ca\<lparr>write_buffer := (write_buffer ca)\<lparr>buf := m\<rparr>\<rparr>"
  have send: "Connection_Write os (?ca, w) = Some (Inr u, (ca1, w1))"
    using assms(12) by (simp add: call_SetWriteBuffer_at [OF assms(9)])
  have "stream_end os inbox (sock ?ca) b" "cstate ?ca = Connected" using assms(5,7,8) by simp_all
  note sent = Write_moves [OF assms(2) this send]
  have ca1: "sock ca1 = a"
    using Write_local [of os] send assms(7) unfolding local_step_def by (fastforce simp: same_links_def)
  obtain lost where lost: "inbox (kern w1) b @ lost = m" using sent(1) assms(11) by auto
  have a1: "inbox (kern w1) a = []" using sent(2) assms(7,10) by simp
  have nul: "nul_free (inbox (kern s) b)"
    using lost assms(9,14) by (auto simp: nul_free_def)
  note served = echo_handler_moves [OF assms(1-4,6,13,15-19) nul assms(20)]
  obtain cut where cut: "inbox (kern t) a @ cut = inbox (kern w1) b"
    using served(1) a1 assms(14) by auto
  have "nul_free (inbox (kern t) a)"
    using nul unfolding nul_free_def assms(14) cut [symmetric] by simp
  with Read_blocking_moves [OF assms(1) _ assms(21) _ _ _ assms(24), of inbox b] assms(5,22,23) ca1
  have "inbox (kern t) a = buf (read_buffer ca2) @ inbox (kern w2) a" by simp
  with lost cut served(2) show ?thesis by auto
qed

section \<open>It does return\<close>

text \<open>
  The modes of the two descriptors, which nothing in the programs changes once a connection is
  set up; and the kernel does not interrupt a \<open>read\<close> for ever.
\<close>

definition blocking_fd :: "'k os \<Rightarrow> int \<Rightarrow> bool" where
  "blocking_fd os fd \<longleftrightarrow> (\<forall>k. sys_getfl os fd k AND O_NONBLOCK = 0 \<and> sys_rcvbuf os fd k < 2 ^ 31)"

definition nonblocking_fd :: "'k os \<Rightarrow> int \<Rightarrow> bool" where
  "nonblocking_fd os fd \<longleftrightarrow> (\<forall>k. sys_getfl os fd k AND O_NONBLOCK \<noteq> 0)"

lemma fd_modes:
  "blocking_fd os fd \<Longrightarrow> \<not> Socket_IsNonBlocking os fd w"
  "blocking_fd os fd \<Longrightarrow> sys_rcvbuf os fd k < 2 ^ 31"
  "nonblocking_fd os fd \<Longrightarrow> Socket_IsNonBlocking os fd w"
  by (auto simp: blocking_fd_def nonblocking_fd_def Socket_IsNonBlocking_def)

definition read_patience :: "'k os \<Rightarrow> int \<Rightarrow> ('k \<Rightarrow> nat) \<Rightarrow> bool" where
  "read_patience os fd patience \<longleftrightarrow>
     (\<forall>n k k'. sys_read os fd n k = (SysErr EINTR, k') \<longrightarrow> patience k' < patience k)"

lemma stream_runs_dry:
  assumes "stream_end os inbox fd peer" and "read_patience os fd patience"
  shows "\<exists>i. \<not> read_continues (read_at os fd n k i)"
proof (induction "(length (inbox k fd), patience k)" arbitrary: k rule: wf_induct_rule
    [OF wf_lex_prod [OF wf_less_than wf_less_than]])
  case (1 k)
  obtain r k' where rd: "sys_read os fd n k = (r, k')" by force
  show ?case
  proof (cases "read_continues r")
    case False
    with rd show ?thesis by (intro exI [of _ 0]) simp
  next
    case True
    have "inbox k' peer = inbox k peer \<and>
      (case r of
         SysOk bs \<Rightarrow> inbox k fd = bs @ inbox k' fd
       | SysErr e \<Rightarrow> inbox k' fd = inbox k fd \<and>
           (e \<in> {EAGAIN, EWOULDBLOCK} \<longrightarrow> inbox k fd = []))"
      using assms(1) rd unfolding stream_end_def by blast
    then have moved: "inbox k fd = received [r] @ inbox k' fd" by (auto split: sysres.splits)
    have "((length (inbox k' fd), patience k'), (length (inbox k fd), patience k))
        \<in> less_than <*lex*> less_than"
      using True moved assms(2) rd unfolding read_patience_def by (cases r) auto
    from 1 [OF this] obtain i where "\<not> read_continues (read_at os fd n k' i)" by blast
    with rd show ?thesis by (intro exI [of _ "Suc i"]) simp
  qed
qed

lemma echo_handler_answers:
  fixes s :: "('k, 'z) server_scheme"
  assumes os: "read_bounded os" "write_bounded os" "write_patience os b pw" "read_patience os b pr"
    and log: "quiet_log log" "log_returns log" and ends: "stream_end os inbox b a"
    and wf: "server_wf {} (\<lambda>p. 0) s" and p: "connections s b = Some p" "conns s p = Some c"
    and c: "cstate c = Connected" "on_message_callback c = Some echo_message_cb"
    and nb: "nonblocking_fd os b"
    and m: "nul_free (inbox (kern s) b)" "length (inbox (kern s) b) < 2 ^ 31"
  obtains t where "run_callback os (echo_usr os log) (BusinessLogicCb p) s = Some (Inr (), t)"
proof -
  obtain i where fin: "\<not> read_continues (read_at os b BUFFER_SIZE (kern s) i)"
    using stream_runs_dry [OF ends os(4)] by blast
  have fd: "sock c = b" by (rule wf_mapped_sock [OF wf p])
  show thesis
  proof (rule echo_handler_returns [OF os(1-3) log wf p c fd_modes(3) [OF nb] fin])
    fix c1 w1
    assume run: "Connection_Read os (c, s) = Some (Inr (), (c1, w1))"
    from Read_nonblocking_moves(1) [OF os(1) ends [folded fd] c(1) fd_modes(3) [OF nb, folded fd] _ run]
    have "inbox (kern s) b = buf (read_buffer c1) @ inbox (kern w1) b" using m(1) fd by simp
    with m(2) show "length (buf (read_buffer c1)) < 2 ^ 31" by simp
  qed (rule that)
qed

lemma client_Read_returns:
  assumes "read_bounded os" and "blocking_fd os (sock c)"
  obtains c' w' where "Connection_Read os (c, w) = Some (Inr (), (c', w'))"
proof (cases "cstate c = Connected")
  case True
  from Read_blocking_spec [OF assms(1) True fd_modes(1,2) [OF assms(2)]] that show thesis by blast
next
  case False
  with that show thesis by (simp add: Connection_Read_def)
qed


end
