(* ===== verification/EchoPairWitnesses.thy ===== *)
theory EchoPairWitnesses
  imports EchoPair ServerScript
begin

text \<open>
  A kernel with one stream, between descriptor 8 of a client and descriptor 7 of the server: it
  keeps the contract of the ends. A message goes there and back.
\<close>

record pipe =
  pk_inbox :: "int \<Rightarrow> string"

definition pipe_peer :: "int \<Rightarrow> int" where
  "pipe_peer fd = (if fd = 7 then 8 else 7)"

definition pipe_read :: "int \<Rightarrow> nat \<Rightarrow> pipe \<Rightarrow> string sysres \<times> pipe" where
  "pipe_read fd n k =
     (if pk_inbox k fd = [] then (SysErr EAGAIN, k)
      else (SysOk (take n (pk_inbox k fd)),
            k\<lparr>pk_inbox := (pk_inbox k)(fd := drop n (pk_inbox k fd))\<rparr>))"

definition pipe_write :: "int \<Rightarrow> string \<Rightarrow> pipe \<Rightarrow> nat sysres \<times> pipe" where
  "pipe_write fd bs k =
     (if bs = [] then (SysErr EAGAIN, k)
      else (SysOk (length bs),
        k\<lparr>pk_inbox := (pk_inbox k)(pipe_peer fd := pk_inbox k (pipe_peer fd) @ bs)\<rparr>))"

definition pipe_os :: "pipe os" where
  "pipe_os = \<lparr>
     sys_socket = (\<lambda>k. (SysErr (EOTHER 24), k)), sys_close = (\<lambda>fd k. k),
     sys_bind = (\<lambda>fd a n k. (SysOk (), k)), sys_listen = (\<lambda>fd k. (SysOk (), k)),
     sys_accept = (\<lambda>fd k. (SysErr EINTR, k)), sys_connect = (\<lambda>fd a k. (SysOk (), k)),
     sys_getfl = (\<lambda>fd k. if fd = 7 then O_NONBLOCK else 0),
     sys_setfl = (\<lambda>fd fl k. k),
     sys_rcvbuf = (\<lambda>fd k. 8192), sys_read = pipe_read, sys_write = pipe_write,
     sys_epoll_create = (\<lambda>k. (SysErr (EOTHER 24), k)),
     sys_epoll_ctl = (\<lambda>ep op fd ev k. (SysOk (), k)),
     sys_epoll_wait = (\<lambda>ep n timeout k. (SysErr EINTR, k))\<rparr>"

lemma pipe_os_fields [simp]:
  "sys_getfl pipe_os fd k = (if fd = 7 then O_NONBLOCK else 0)" "sys_rcvbuf pipe_os fd k = 8192"
  "sys_read pipe_os = pipe_read" "sys_write pipe_os = pipe_write"
  by (simp_all add: pipe_os_def)

lemma pipe_bounded: "read_bounded pipe_os" "write_bounded pipe_os"
  by (auto simp: read_bounded_def write_bounded_def pipe_read_def pipe_write_def split: if_splits)

lemma pipe_ends: "stream_end pipe_os pk_inbox 8 7" "stream_end pipe_os pk_inbox 7 8"
  by (auto simp: stream_end_def pipe_read_def pipe_write_def pipe_peer_def split: if_splits)

lemma pipe_patience: "write_patience pipe_os 8 (\<lambda>k. 0)" "write_patience pipe_os 7 (\<lambda>k. 0)"
    "read_patience pipe_os 7 (\<lambda>k. 0)"
  by (auto simp: write_patience_def read_patience_def pipe_read_def pipe_write_def split: if_splits)

lemma pipe_modes: "blocking_fd pipe_os 8" "nonblocking_fd pipe_os 7"
  by (simp_all add: blocking_fd_def nonblocking_fd_def O_NONBLOCK_def)

definition quiet_pipe :: pipe where
  "quiet_pipe = \<lparr>pk_inbox = (\<lambda>fd. [])\<rparr>"

definition pipe_silent_log :: "string \<Rightarrow> (('k, 'z) server_scheme, unit) cpp" where
  "pipe_silent_log m = ret ()"

lemma pipe_log: "quiet_log pipe_silent_log" "log_returns pipe_silent_log"
    "log_off_stream inbox pipe_silent_log"
  by (simp_all add: quiet_log_def log_returns_def log_off_stream_def pipe_silent_log_def)

text \<open>The client's connection and the server's, the latter on a channel of its reactor.\<close>

definition pipe_client :: connection where
  "pipe_client = conn0\<lparr>sock := 8\<rparr>"

definition pipe_conn :: connection where
  "pipe_conn = conn0\<lparr>conn_channel := Some 4, on_message_callback := Some echo_message_cb\<rparr>"

definition pipe_server :: "pipe \<Rightarrow> pipe server" where
  "pipe_server k = \<lparr>kern = k, cout = [], calls = [],
     event_loops = [0 \<mapsto> \<lparr>epfd = 3, el_quit = False\<rparr>],
     channels = [1 \<mapsto> \<lparr>ch_loop = 0, ch_fd = 4, listen_events = EPOLLIN, ready_events = 0,
         in_epoll = True, read_callback = Some AcceptConnectionCb, write_callback = None\<rparr>,
       4 \<mapsto> \<lparr>ch_loop = 0, ch_fd = 7, listen_events = EPOLLIN, ready_events = EPOLLIN,
         in_epoll = True, read_callback = Some (BusinessLogicCb 5), write_callback = None\<rparr>],
     next_ptr = 6, conns = [5 \<mapsto> pipe_conn], use_count = (\<lambda>p. 0)(5 := 1),
     connections = [7 \<mapsto> 5], sub_reactors = [0], main_reactor = 0,
     the_acceptor = \<lparr>acc_sock = 4, acc_channel = 1, has_new_connection_callback = True\<rparr>,
     on_connection_cb = None, on_message_cb = None, pool_tasks = []\<rparr>"

lemma pipe_server_wf: "server_wf {} (\<lambda>p. 0) (pipe_server k)"
  by (auto simp: wf_defs pipe_server_def pipe_conn_def conn0_def read_mask_def EPOLLIN_def EPOLLPRI_def
      EPOLLET_def split: if_splits)

lemma pipe_conn_fields [simp]:
  "sock pipe_conn = 7" "cstate pipe_conn = Connected" "on_message_callback pipe_conn = Some echo_message_cb"
  "read_buffer pipe_conn = Buffer_init" "write_buffer pipe_conn = Buffer_init"
  "sock pipe_client = 8" "cstate pipe_client = Connected"
  "read_buffer pipe_client = Buffer_init" "write_buffer pipe_client = Buffer_init"
  by (simp_all add: pipe_conn_def pipe_client_def conn0_def)

definition idle_world :: "pipe \<Rightarrow> pipe world" where
  "idle_world k = \<lparr>kern = k, cout = [], calls = []\<rparr>"


end
