(* ===== verification/Fifo.thy ===== *)
theory Fifo
  imports Prelude
begin

text \<open>
  The interface of a first-in first-out queue. The program keeps three of them behind a mutex:
  \<open>SafeQueue\<close>, the task queue of \<open>ThreadPool\<close> and the event queue of \<open>FileAppender\<close>. Each of
  their theories interprets the locale on its own operations.
\<close>

fun pops :: "('q \<Rightarrow> ('a \<times> 'q) option) \<Rightarrow> nat \<Rightarrow> 'q \<Rightarrow> 'a list \<times> 'q" where
  "pops pop 0 q = ([], q)"
| "pops pop (Suc n) q =
     (case pop q of
        None \<Rightarrow> ([], q)
      | Some (x, q') \<Rightarrow> (case pops pop n q' of (xs, q'') \<Rightarrow> (x # xs, q'')))"

locale fifo_queue =
  fixes push :: "'a \<Rightarrow> 'q \<Rightarrow> 'q"
    and pop :: "'q \<Rightarrow> ('a \<times> 'q) option"
    and contents :: "'q \<Rightarrow> 'a list"
  assumes contents_push: "contents (push x q) = contents q @ [x]"
    and pop_none: "pop q = None \<longleftrightarrow> contents q = []"
    and pop_some: "pop q = Some (x, q') \<Longrightarrow> contents q = x # contents q'"
begin

lemma contents_fold_push: "contents (fold push xs q) = contents q @ xs"
  by (induction xs arbitrary: q) (simp_all add: contents_push)

lemma pop_nonempty:
  assumes "contents q = x # xs"
  shows "\<exists>q'. pop q = Some (x, q') \<and> contents q' = xs"
proof (cases "pop q")
  case None
  then show ?thesis using assms by (simp add: pop_none)
next
  case (Some p)
  then obtain y q' where "pop q = Some (y, q')" by (cases p) auto
  with pop_some [OF this] assms show ?thesis by simp
qed

lemma pops_contents:
  "fst (pops pop n q) = take n (contents q) \<and> contents (snd (pops pop n q)) = drop n (contents q)"
proof (induction n arbitrary: q)
  case 0
  show ?case by simp
next
  case (Suc n)
  show ?case
  proof (cases "contents q")
    case Nil
    then have "pop q = None" by (simp add: pop_none)
    with Nil show ?thesis by simp
  next
    case (Cons x xs)
    then obtain q' where "pop q = Some (x, q')" "contents q' = xs"
      using pop_nonempty by blast
    with Cons Suc.IH [of q'] show ?thesis by (simp add: split_beta)
  qed
qed

lemma pops_take: "fst (pops pop n q) = take n (contents q)"
  and pops_drop: "contents (snd (pops pop n q)) = drop n (contents q)"
  using pops_contents by auto

text \<open>What is pushed onto an empty queue comes out in the order it went in.\<close>

lemma fifo_order:
  assumes "contents q = []"
  shows "fst (pops pop (length xs) (fold push xs q)) = xs"
  using assms by (simp add: pops_take contents_fold_push)

lemma fifo_order_general:
  "fst (pops pop n (fold push xs q)) = take n (contents q @ xs)"
  by (simp add: pops_take contents_fold_push)

end

end
