(* ===== verification/Machines.thy ===== *)
theory Machines
  imports Prelude "HOL-Library.Multiset"
begin

text \<open>
  Threads that share a monitor, as a machine: a label names which thread moves and how, and
  \<open>step l s\<close> is the state after that move, \<open>None\<close> when the thread cannot make it in \<open>s\<close>. A critical
  section under a mutex is one step; waiting on a condition variable releases the mutex, so a wait
  ends a step. The locale is what the thread pool and the file appender use to show that their
  destructors return: from the invariant and a measure that each step lowers, every run ends, and
  a run that cannot go on has reached its goal.
\<close>

fun exec :: "('l \<Rightarrow> 's \<Rightarrow> 's option) \<Rightarrow> 'l list \<Rightarrow> 's \<Rightarrow> 's option" where
  "exec step [] s = Some s"
| "exec step (l # ls) s = (case step l s of None \<Rightarrow> None | Some t \<Rightarrow> exec step ls t)"

lemma exec_append:
  "exec step (ls @ ms) s = (case exec step ls s of None \<Rightarrow> None | Some t \<Rightarrow> exec step ms t)"
  by (induction ls arbitrary: s) (auto split: option.splits)

lemma exec_ConsE:
  assumes "exec step (l # ls) s = Some u"
  obtains t where "step l s = Some t" "exec step ls t = Some u"
  using assms by (auto split: option.splits)

text \<open>A run of a machine that has fewer moves.\<close>

lemma exec_mono:
  "(\<And>l s t. step l s = Some t \<Longrightarrow> step' l s = Some t) \<Longrightarrow>
   exec step ls s = Some t \<Longrightarrow> exec step' ls s = Some t"
  by (induction ls arbitrary: s) (auto split: option.splits)

lemma exec_invariant:
  assumes "\<And>l s t. P s \<Longrightarrow> step l s = Some t \<Longrightarrow> P t" and "P s" and "exec step ls s = Some t"
  shows "P t"
  using assms(2,3)
  by (induction ls arbitrary: s) (auto split: option.splits intro: assms(1))

text \<open>A property of pairs of states that every step keeps is kept by a run.\<close>

lemma exec_relation:
  assumes "\<And>s. R s s" and "\<And>s t u. R s t \<Longrightarrow> R t u \<Longrightarrow> R s u"
    and "\<And>l s t. P s \<Longrightarrow> step l s = Some t \<Longrightarrow> R s t \<and> P t"
    and "P s" and "exec step ls s = Some t"
  shows "R s t"
  using assms(4,5)
proof (induction ls arbitrary: s)
  case Nil
  then show ?case by (simp add: assms(1))
next
  case (Cons l ls)
  from Cons.prems(2) obtain u where "step l s = Some u" "exec step ls u = Some t"
    by (rule exec_ConsE)
  with Cons.IH [of u] assms(2,3) Cons.prems(1) show ?case by blast
qed

locale terminating_machine =
  fixes step :: "'l \<Rightarrow> 's \<Rightarrow> 's option"
    and inv :: "'s \<Rightarrow> bool"
    and goal :: "'s \<Rightarrow> bool"
    and mu :: "'s \<Rightarrow> nat"
  assumes inv_step: "inv s \<Longrightarrow> step l s = Some t \<Longrightarrow> inv t"
    and mu_step: "inv s \<Longrightarrow> step l s = Some t \<Longrightarrow> mu t < mu s"
    and not_stuck: "inv s \<Longrightarrow> \<not> goal s \<Longrightarrow> \<exists>l t. step l s = Some t"
begin

lemma inv_exec: "inv s \<Longrightarrow> exec step ls s = Some t \<Longrightarrow> inv t"
  by (rule exec_invariant [where P = inv]) (auto intro: inv_step)

lemma exec_bounded: "inv s \<Longrightarrow> exec step ls s = Some t \<Longrightarrow> length ls + mu t \<le> mu s"
proof (induction ls arbitrary: s)
  case Nil
  then show ?case by simp
next
  case (Cons l ls)
  from Cons.prems(2) obtain u where u: "step l s = Some u" "exec step ls u = Some t"
    by (rule exec_ConsE)
  with Cons.IH [of u] inv_step [OF Cons.prems(1)] mu_step [OF Cons.prems(1)] show ?case
    by fastforce
qed

lemma ends_at_goal:
  assumes "inv s" and "exec step ls s = Some t" and "\<And>l. step l t = None"
  shows "goal t"
  using not_stuck [OF inv_exec [OF assms(1,2)]] assms(3) by (metis option.distinct(1))

lemma goal_reachable: "inv s \<Longrightarrow> \<exists>ls t. exec step ls s = Some t \<and> goal t"
proof (induction "mu s" arbitrary: s rule: less_induct)
  case less
  show ?case
  proof (cases "goal s")
    case True
    then show ?thesis by (intro exI [of _ "[]"] exI [of _ s]) simp
  next
    case False
    then obtain l t where lt: "step l s = Some t" using not_stuck less.prems by blast
    obtain ls u where "exec step ls t = Some u" "goal u"
      using less.hyps [OF mu_step [OF less.prems lt] inv_step [OF less.prems lt]] by blast
    with lt show ?thesis by (intro exI [of _ "l # ls"] exI [of _ u]) simp
  qed
qed

end

section \<open>Counting the threads in a state\<close>

text \<open>Threads are a list of program counters; \<open>count P xs\<close> is how many are at a point with \<open>P\<close>.\<close>

definition count_where :: "('a \<Rightarrow> bool) \<Rightarrow> 'a list \<Rightarrow> nat" where
  "count_where P xs = length (filter P xs)"

lemma count_where_update:
  assumes "i < length xs"
  shows "count_where P (xs[i := y]) + (if P (xs ! i) then 1 else 0) =
    count_where P xs + (if P y then 1 else 0)"
proof -
  have xs: "xs = take i xs @ xs ! i # drop (Suc i) xs"
    using assms by (simp add: id_take_nth_drop [symmetric])
  have ys: "xs[i := y] = take i xs @ y # drop (Suc i) xs"
    using assms by (simp add: upd_conv_take_nth_drop)
  show ?thesis
    by (subst (2) xs, subst ys) (simp add: count_where_def)
qed

lemma count_where_append [simp]: "count_where P (xs @ ys) = count_where P xs + count_where P ys"
  by (simp add: count_where_def)

lemma count_where_simps [simp]:
  "count_where P [] = 0"
  "count_where P (x # xs) = (if P x then Suc (count_where P xs) else count_where P xs)"
  by (simp_all add: count_where_def)

lemma count_where_replicate [simp]: "count_where P (replicate n x) = (if P x then n else 0)"
  by (simp add: count_where_def)

lemma count_where_le: "count_where P xs \<le> length xs"
  by (simp add: count_where_def)

lemma count_where_all: "count_where f xs = length xs \<Longrightarrow> x \<in> set xs \<Longrightarrow> f x"
  using length_filter_less [of x xs f] unfolding count_where_def by linarith

lemma count_where_pos: "0 < count_where P xs \<longleftrightarrow> (\<exists>i < length xs. P (xs ! i))"
  by (auto simp: count_where_def set_conv_nth filter_empty_conv)

lemma count_where_zero: "count_where P xs = 0 \<longleftrightarrow> (\<forall>i < length xs. \<not> P (xs ! i))"
  using count_where_pos [of P xs] by auto

text \<open>A weight per thread, summed.\<close>

lemma sum_list_map_update:
  fixes f :: "'a \<Rightarrow> nat"
  assumes "i < length xs"
  shows "sum_list (map f (xs[i := y])) + f (xs ! i) = sum_list (map f xs) + f y"
proof -
  have xs: "xs = take i xs @ xs ! i # drop (Suc i) xs"
    using assms by (simp add: id_take_nth_drop [symmetric])
  have ys: "xs[i := y] = take i xs @ y # drop (Suc i) xs"
    using assms by (simp add: upd_conv_take_nth_drop)
  show ?thesis
    by (subst (2) xs, subst ys) simp
qed

text \<open>What each thread holds, collected.\<close>

lemma mset_concat_map_update:
  assumes "i < length xs"
  shows "mset (concat (map f (xs[i := y]))) + mset (f (xs ! i)) =
    mset (concat (map f xs)) + mset (f y)"
proof -
  have xs: "xs = take i xs @ xs ! i # drop (Suc i) xs"
    using assms by (simp add: id_take_nth_drop [symmetric])
  have ys: "xs[i := y] = take i xs @ y # drop (Suc i) xs"
    using assms by (simp add: upd_conv_take_nth_drop)
  show ?thesis
    by (subst (2) xs, subst ys) simp
qed

end
