(* ===== verification/ThreadPool.thy ===== *)
theory ThreadPool
  imports Fifo Machines
begin

text \<open>
  \<open>ThreadPool\<close> (\<open>thread_pool.h\<close>, \<open>thread_pool.cpp\<close>) as a machine. A task is a function of the
  environment \<open>'e\<close> the tasks share, with a result or an exception; \<open>Add\<close> wraps it in a
  \<open>packaged_task\<close>, which stores either in a future. The packaged tasks made so far and their
  futures are lists indexed by ticket. The critical sections under \<open>tasks_mtx_\<close> are single steps.
  \<open>taken\<close> and \<open>finished\<close> are ghost fields: the tickets the workers took, and those whose task has
  run, oldest first. A task's effect on the environment happens at its end, so tasks of different
  workers overlap but do not see each other halfway.
\<close>

section \<open>State\<close>

text \<open>
  Where a worker is: about to test the condition of its wait (just started, notified, woken for no
  reason, or back from a task), blocked on \<open>cv_\<close>, running the task of a ticket, or returned.
\<close>

datatype worker = AtTest | Waiting | Running nat | Exited

text \<open>How far the destructor is: not called, \<open>stop_\<close> set, all notified and joining, done.\<close>

datatype dtor = Alive | StopSet | Joining nat | Destroyed

type_synonym ('e, 'r) closure = "'e \<Rightarrow> (fault + 'r) \<times> 'e"

record ('e, 'r) pool =
  threads :: "worker list"
  task_queue :: "nat list"
  stop :: bool
  packaged :: "('e, 'r) closure list"
  futures :: "(fault + 'r) option list"
  env :: 'e
  unnotified :: nat
  dtor :: dtor
  taken :: "nat list"
  finished :: "nat list"

section \<open>Operations\<close>

text \<open>The constructor starts one worker per round; a negative number starts none.\<close>

fun start_workers :: "nat \<Rightarrow> worker list \<Rightarrow> worker list" where
  "start_workers 0 ts = ts"
| "start_workers (Suc n) ts = start_workers n (ts @ [AtTest])"

definition ThreadPool_init :: "int \<Rightarrow> 'e \<Rightarrow> ('e, 'r) pool" where
  "ThreadPool_init num_thread e =
     \<lparr>threads = start_workers (nat num_thread) [], task_queue = [], stop = False, packaged = [],
      futures = [], env = e, unnotified = 0, dtor = Alive, taken = [],
      finished = []\<rparr>"

definition enqueue :: "nat \<Rightarrow> ('e, 'r) pool \<Rightarrow> ('e, 'r) pool" where
  "enqueue t s = s\<lparr>task_queue := task_queue s @ [t]\<rparr>"

definition dequeue :: "('e, 'r) pool \<Rightarrow> (nat \<times> ('e, 'r) pool) option" where
  "dequeue s = (case task_queue s of [] \<Rightarrow> None | t # ts \<Rightarrow> Some (t, s\<lparr>task_queue := ts\<rparr>))"

text \<open>
  \<open>Add\<close> up to the end of its critical section; the future it returns is the ticket. \<open>notify_one\<close>
  comes after the mutex is released, so it is a step of its own: until then \<open>unnotified\<close> counts it.
\<close>

definition ThreadPool_Add :: "('e, 'r) closure \<Rightarrow> (('e, 'r) pool, nat) cpp" where
  "ThreadPool_Add f = (\<lambda>s.
     if stop s then Some (Inl (RuntimeError (''thread pool already stopped'' @ [LF])), s)
     else Some (Inr (length (packaged s)),
       enqueue (length (packaged s))
         (s\<lparr>packaged := packaged s @ [f], futures := futures s @ [None],
            unnotified := Suc (unnotified s)\<rparr>)))"

text \<open>The predicate of the wait, and one round of the worker's loop from the test on.\<close>

definition wait_over :: "('e, 'r) pool \<Rightarrow> bool" where
  "wait_over s \<longleftrightarrow> stop s \<or> task_queue s \<noteq> []"

definition worker_test :: "nat \<Rightarrow> ('e, 'r) pool \<Rightarrow> ('e, 'r) pool" where
  "worker_test i s =
     (if \<not> wait_over s then s\<lparr>threads := (threads s)[i := Waiting]\<rparr>
      else case dequeue s of
        None \<Rightarrow> s\<lparr>threads := (threads s)[i := Exited]\<rparr>
      | Some (t, s') \<Rightarrow> s'\<lparr>threads := (threads s')[i := Running t], taken := taken s' @ [t]\<rparr>)"

text \<open>\<open>task()\<close>: the packaged task runs and stores its result or its exception in the future.\<close>

definition worker_run :: "nat \<Rightarrow> nat \<Rightarrow> ('e, 'r) pool \<Rightarrow> ('e, 'r) pool" where
  "worker_run i t s =
     (case (packaged s ! t) (env s) of (r, e) \<Rightarrow>
        s\<lparr>threads := (threads s)[i := AtTest], futures := (futures s)[t := Some r], env := e,
           finished := finished s @ [t]\<rparr>)"

definition wake :: "nat \<Rightarrow> ('e, 'r) pool \<Rightarrow> ('e, 'r) pool" where
  "wake i s = s\<lparr>threads := (threads s)[i := AtTest]\<rparr>"

definition wake_worker :: "worker \<Rightarrow> worker" where
  "wake_worker w = (if w = Waiting then AtTest else w)"

definition notify_all :: "('e, 'r) pool \<Rightarrow> ('e, 'r) pool" where
  "notify_all s = s\<lparr>threads := map wake_worker (threads s)\<rparr>"

section \<open>The machine\<close>

datatype ('e, 'r) label =
    LAdd "('e, 'r) closure"
  | LNotify "nat option"
  | LTest nat
  | LRun nat
  | LSpurious nat
  | LStop
  | LNotifyAll
  | LJoin

definition worker_at :: "nat \<Rightarrow> worker \<Rightarrow> ('e, 'r) pool \<Rightarrow> bool" where
  "worker_at i w s \<longleftrightarrow> i < length (threads s) \<and> threads s ! i = w"

definition someone_waits :: "('e, 'r) pool \<Rightarrow> bool" where
  "someone_waits s \<longleftrightarrow> Waiting \<in> set (threads s)"

text \<open>
  \<open>notify_one\<close> wakes one blocked worker, whichever, and nobody when none is blocked. The
  destructor stops the pool, notifies all and joins the workers in the order of \<open>threads_\<close>; a join
  returns when its thread has. An \<open>Add\<close> that throws leaves the state alone.
\<close>

fun pool_step :: "('e, 'r) label \<Rightarrow> ('e, 'r) pool \<Rightarrow> ('e, 'r) pool option" where
  "pool_step (LAdd f) s =
     (if dtor s = Destroyed then None else map_option snd (ThreadPool_Add f s))"
| "pool_step (LNotify (Some i)) s =
     (if dtor s \<noteq> Destroyed \<and> unnotified s > 0 \<and> worker_at i Waiting s
      then Some (wake i (s\<lparr>unnotified := unnotified s - 1\<rparr>)) else None)"
| "pool_step (LNotify None) s =
     (if dtor s \<noteq> Destroyed \<and> unnotified s > 0 \<and> \<not> someone_waits s
      then Some (s\<lparr>unnotified := unnotified s - 1\<rparr>) else None)"
| "pool_step (LTest i) s = (if worker_at i AtTest s then Some (worker_test i s) else None)"
| "pool_step (LRun i) s =
     (if i < length (threads s) then
        (case threads s ! i of Running t \<Rightarrow> Some (worker_run i t s) | _ \<Rightarrow> None)
      else None)"
| "pool_step (LSpurious i) s = (if worker_at i Waiting s then Some (wake i s) else None)"
| "pool_step LStop s =
     (if dtor s = Alive then Some (s\<lparr>stop := True, dtor := StopSet\<rparr>) else None)"
| "pool_step LNotifyAll s =
     (if dtor s = StopSet then Some (notify_all (s\<lparr>dtor := Joining 0\<rparr>)) else None)"
| "pool_step LJoin s =
     (case dtor s of
        Joining k \<Rightarrow>
          if k = length (threads s) then Some (s\<lparr>dtor := Destroyed\<rparr>)
          else if worker_at k Exited s then Some (s\<lparr>dtor := Joining (Suc k)\<rparr>) else None
      | _ \<Rightarrow> None)"

inductive pool_reach :: "int \<Rightarrow> 'e \<Rightarrow> ('e, 'r) pool \<Rightarrow> bool" for n e where
  pool_start: "pool_reach n e (ThreadPool_init n e)"
| pool_move: "pool_reach n e s \<Longrightarrow> pool_step l s = Some t \<Longrightarrow> pool_reach n e t"

lemma pool_reach_exec: "pool_reach n e s \<Longrightarrow> exec pool_step ls s = Some t \<Longrightarrow> pool_reach n e t"
  by (rule exec_invariant) (auto intro: pool_move)

interpretation tq: fifo_queue enqueue dequeue task_queue
  by unfold_locales (auto simp: enqueue_def dequeue_def split: list.splits)

section \<open>The invariant\<close>

text \<open>The tickets being run.\<close>

fun ticket :: "worker \<Rightarrow> nat list" where
  "ticket (Running t) = [t]"
| "ticket _ = []"

definition running :: "worker list \<Rightarrow> nat list" where
  "running ts = concat (map ticket ts)"

lemma running_update:
  assumes "i < length ts"
  shows "mset (running (ts[i := w])) + mset (ticket (ts ! i)) = mset (running ts) + mset (ticket w)"
  using mset_concat_map_update [OF assms, of ticket w] by (simp add: running_def)

text \<open>
  The reference: one thread that runs the tasks of a list of tickets one after the other, and
  stores what each gives.
\<close>

fun serial ::
  "('e, 'r) closure list \<Rightarrow> nat list \<Rightarrow> 'e \<times> (fault + 'r) option list \<Rightarrow>
   'e \<times> (fault + 'r) option list" where
  "serial ps [] st = st"
| "serial ps (t # ts) (e, fs) = (case (ps ! t) e of (r, e') \<Rightarrow> serial ps ts (e', fs[t := Some r]))"

lemma serial_snoc:
  "serial ps (ts @ [t]) st =
     (case serial ps ts st of (e, fs) \<Rightarrow> case (ps ! t) e of (r, e') \<Rightarrow> (e', fs[t := Some r]))"
  by (induction ps ts st rule: serial.induct) (auto split: prod.splits)

lemma serial_add:
  assumes "\<forall>t \<in> set ts. t < length ps" and "length fs = length ps"
  shows "serial (ps @ [p]) ts (e, fs @ [None]) =
    (case serial ps ts (e, fs) of (e', fs') \<Rightarrow> (e', fs' @ [None]))"
  using assms
  by (induction ps ts "(e, fs)" arbitrary: e fs rule: serial.induct)
    (auto simp: nth_append list_update_append split: prod.splits)

lemma serial_length: "length (snd (serial ps ts st)) = length (snd st)"
  by (induction ps ts st rule: serial.induct) (auto split: prod.splits)

lemma serial_stored:
  "\<lbrakk>i < length (snd st); \<forall>t \<in> set ts. t < length (snd st)\<rbrakk> \<Longrightarrow>
   snd (serial ps ts st) ! i = None \<longleftrightarrow> i \<notin> set ts \<and> snd st ! i = None"
  by (induction ps ts st rule: serial.induct) (auto simp: nth_list_update split: prod.splits)

definition about_to_test :: "worker \<Rightarrow> bool" where
  "about_to_test w \<longleftrightarrow> w = AtTest"

lemma about_to_test_simps [simp]:
  "about_to_test AtTest" "\<not> about_to_test (Running t)" "\<not> about_to_test Waiting" "\<not> about_to_test Exited"
  by (simp_all add: about_to_test_def)

text \<open>
  The tickets are taken in the order of the \<open>Add\<close>s and each once; the environment and the futures
  are those of running the finished tickets one after the other.
\<close>

definition tickets_ok :: "'e \<Rightarrow> ('e, 'r) pool \<Rightarrow> bool" where
  "tickets_ok e s \<longleftrightarrow>
     length (futures s) = length (packaged s) \<and>
     taken s @ task_queue s = [0..<length (packaged s)] \<and>
     mset (finished s @ running (threads s)) = mset (taken s) \<and>
     (length (threads s) \<le> 1 \<longrightarrow> taken s = finished s @ running (threads s)) \<and>
     serial (packaged s) (finished s) (e, replicate (length (packaged s)) None) = (env s, futures s)"

text \<open>While somebody is blocked, every queued task has a worker on its way to it, or a notification.\<close>

definition wakeups_ok :: "('e, 'r) pool \<Rightarrow> bool" where
  "wakeups_ok s \<longleftrightarrow>
     (someone_waits s \<longrightarrow> length (task_queue s) \<le> count_where about_to_test (threads s) + unnotified s)"

definition joined :: "dtor \<Rightarrow> nat \<Rightarrow> nat" where
  "joined d n = (case d of Joining k \<Rightarrow> k | Destroyed \<Rightarrow> n | _ \<Rightarrow> 0)"

definition dtor_ok :: "('e, 'r) pool \<Rightarrow> bool" where
  "dtor_ok s \<longleftrightarrow>
     (stop s \<longleftrightarrow> dtor s \<noteq> Alive) \<and>
     (dtor s \<noteq> Alive \<and> dtor s \<noteq> StopSet \<longrightarrow> \<not> someone_waits s) \<and>
     (Exited \<in> set (threads s) \<longrightarrow> stop s \<and> task_queue s = []) \<and>
     joined (dtor s) (length (threads s)) \<le> length (threads s) \<and>
     (\<forall>i < joined (dtor s) (length (threads s)). threads s ! i = Exited)"

definition pool_wf :: "'e \<Rightarrow> ('e, 'r) pool \<Rightarrow> bool" where
  "pool_wf e s \<longleftrightarrow> tickets_ok e s \<and> wakeups_ok s \<and> dtor_ok s"

subsection \<open>How each step changes the state\<close>

lemma wake_fields [simp]:
  "task_queue (wake i s) = task_queue s" "stop (wake i s) = stop s" "dtor (wake i s) = dtor s"
  "unnotified (wake i s) = unnotified s" "packaged (wake i s) = packaged s"
  "futures (wake i s) = futures s" "taken (wake i s) = taken s" "finished (wake i s) = finished s"
  "env (wake i s) = env s" "threads (wake i s) = (threads s)[i := AtTest]"
  by (simp_all add: wake_def)

lemma enqueue_fields [simp]:
  "threads (enqueue x s) = threads s" "stop (enqueue x s) = stop s" "dtor (enqueue x s) = dtor s"
  "unnotified (enqueue x s) = unnotified s" "packaged (enqueue x s) = packaged s"
  "futures (enqueue x s) = futures s" "taken (enqueue x s) = taken s"
  "finished (enqueue x s) = finished s" "env (enqueue x s) = env s"
  "task_queue (enqueue x s) = task_queue s @ [x]"
  by (simp_all add: enqueue_def)

text \<open>The cases of a step, with the state it leads to.\<close>

lemma pool_step_cases:
  assumes "pool_step l s = Some t"
  obtains (add) f where "l = LAdd f" "dtor s \<noteq> Destroyed" "\<not> stop s"
      "t = enqueue (length (packaged s)) (s\<lparr>packaged := packaged s @ [f],
         futures := futures s @ [None], unnotified := Suc (unnotified s)\<rparr>)"
  | (stopped) f where "l = LAdd f" "dtor s \<noteq> Destroyed" "stop s" "t = s"
  | (notify) i where "l = LNotify (Some i)" "dtor s \<noteq> Destroyed" "unnotified s > 0" "worker_at i Waiting s"
      "t = wake i (s\<lparr>unnotified := unnotified s - 1\<rparr>)"
  | (nobody) "l = LNotify None" "dtor s \<noteq> Destroyed" "unnotified s > 0" "\<not> someone_waits s"
      "t = s\<lparr>unnotified := unnotified s - 1\<rparr>"
  | (blocks) i where "l = LTest i" "worker_at i AtTest s" "\<not> stop s" "task_queue s = []"
      "t = s\<lparr>threads := (threads s)[i := Waiting]\<rparr>"
  | (exits) i where "l = LTest i" "worker_at i AtTest s" "stop s" "task_queue s = []"
      "t = s\<lparr>threads := (threads s)[i := Exited]\<rparr>"
  | (takes) i x xs where "l = LTest i" "worker_at i AtTest s" "task_queue s = x # xs"
      "t = s\<lparr>task_queue := xs, threads := (threads s)[i := Running x], taken := taken s @ [x]\<rparr>"
  | (runs) i x where "l = LRun i" "worker_at i (Running x) s" "t = worker_run i x s"
  | (spurious) i where "l = LSpurious i" "worker_at i Waiting s" "t = wake i s"
  | (stops) "l = LStop" "dtor s = Alive" "t = s\<lparr>stop := True, dtor := StopSet\<rparr>"
  | (notify_all) "l = LNotifyAll" "dtor s = StopSet" "t = notify_all (s\<lparr>dtor := Joining 0\<rparr>)"
  | (joins) k where "l = LJoin" "dtor s = Joining k" "worker_at k Exited s"
      "t = s\<lparr>dtor := Joining (Suc k)\<rparr>"
  | (all_joined) "l = LJoin" "dtor s = Joining (length (threads s))" "t = s\<lparr>dtor := Destroyed\<rparr>"
proof (cases l)
  case (LAdd f)
  with assms show ?thesis
    by (cases "stop s") (auto simp: ThreadPool_Add_def split: if_splits intro: add stopped)
next
  case (LNotify w)
  with assms show ?thesis
    by (cases w) (auto split: if_splits intro: notify nobody)
next
  case (LTest i)
  with assms have at: "worker_at i AtTest s" and t: "t = worker_test i s"
    by (auto split: if_splits)
  show ?thesis
  proof (cases "task_queue s")
    case Nil
    with LTest at t show ?thesis
      by (cases "stop s")
        (auto simp: worker_test_def wait_over_def dequeue_def intro: blocks exits)
  next
    case (Cons x xs)
    with LTest at t show ?thesis
      by (auto simp: worker_test_def wait_over_def dequeue_def intro: takes)
  qed
next
  case (LRun i)
  with assms show ?thesis
    by (auto simp: worker_at_def split: if_splits worker.splits intro: runs)
next
  case (LSpurious i)
  with assms show ?thesis by (auto split: if_splits intro: spurious)
next
  case LStop
  with assms show ?thesis by (auto split: if_splits intro: stops)
next
  case LNotifyAll
  with assms show ?thesis by (auto split: if_splits intro: notify_all)
next
  case LJoin
  with assms show ?thesis
    by (auto split: dtor.splits if_splits intro: joins all_joined)
qed

subsection \<open>Every step keeps it\<close>

lemma finished_bound:
  assumes "tickets_ok e s"
  shows "set (taken s) \<subseteq> {..<length (packaged s)}" "set (finished s) \<subseteq> set (taken s)"
    "distinct (taken s)" "set (task_queue s) \<subseteq> {..<length (packaged s)}"
proof -
  have split: "taken s @ task_queue s = [0..<length (packaged s)]"
    and ms: "mset (finished s @ running (threads s)) = mset (taken s)"
    using assms by (auto simp: tickets_ok_def)
  show "set (finished s) \<subseteq> set (taken s)"
    using mset_eq_setD [OF ms] by auto
  have "set (taken s @ task_queue s) = {..<length (packaged s)}" and "distinct (taken s @ task_queue s)"
    by (auto simp: split)
  then show "set (taken s) \<subseteq> {..<length (packaged s)}" "distinct (taken s)"
    "set (task_queue s) \<subseteq> {..<length (packaged s)}" by auto
qed

lemma running_same:
  "i < length ts \<Longrightarrow> ticket w = ticket (ts ! i) \<Longrightarrow> running (ts[i := w]) = running ts"
proof -
  assume "i < length ts" and "ticket w = ticket (ts ! i)"
  then have "map ticket (ts[i := w]) = map ticket ts"
    by (simp add: map_update list_update_same_conv)
  then show ?thesis by (simp add: running_def)
qed

lemma running_wake_all: "running (map wake_worker ts) = running ts"
proof -
  have "ticket \<circ> wake_worker = ticket"
  proof (rule ext)
    fix w show "(ticket \<circ> wake_worker) w = ticket w" by (cases w) (simp_all add: wake_worker_def)
  qed
  then show ?thesis by (simp add: running_def)
qed

lemma tickets_ok_same:
  assumes "tickets_ok e s" and "running (threads t) = running (threads s)"
    and "length (threads t) = length (threads s)" and "task_queue t = task_queue s"
    and "packaged t = packaged s" and "futures t = futures s" and "taken t = taken s"
    and "finished t = finished s" and "env t = env s"
  shows "tickets_ok e t"
  using assms by (simp add: tickets_ok_def)

lemma tickets_step:
  assumes ok: "tickets_ok e s" and step: "pool_step l s = Some t"
  shows "tickets_ok e t"
  using step
proof (cases rule: pool_step_cases)
  case (add f)
  have "\<forall>x \<in> set (finished s). x < length (packaged s)" using finished_bound [OF ok] by auto
  then show ?thesis
    using ok serial_add [of "finished s" "packaged s" "replicate (length (packaged s)) None" f e]
    by (simp add: add(4) tickets_ok_def tq.contents_push replicate_append_same [symmetric])
next
  case (takes i x xs)
  have "mset (running ((threads s)[i := Running x])) = mset (running (threads s)) + {#x#}"
    using running_update [of i "threads s" "Running x"] takes(2) by (simp add: worker_at_def)
  moreover have "running ((threads s)[i := Running x]) = running (threads s) @ [x]"
    if "length (threads s) \<le> 1"
    using that takes(2) by (cases "threads s") (auto simp: worker_at_def running_def)
  ultimately show ?thesis
    using ok by (auto simp: takes(3,4) tickets_ok_def)
next
  case (runs i x)
  have at: "i < length (threads s)" "threads s ! i = Running x" using runs(2) by (auto simp: worker_at_def)
  have ms: "mset (running ((threads s)[i := AtTest])) + {#x#} = mset (running (threads s))"
    using running_update [of i "threads s" AtTest] at by simp
  have one: "running (threads s) = x # running ((threads s)[i := AtTest])"
    if "length (threads s) \<le> 1"
    using that at by (cases "threads s") (auto simp: running_def)
  obtain r e' where r: "(packaged s ! x) (env s) = (r, e')" by force
  show ?thesis
    using ok ms one
    by (auto simp: runs(3) worker_run_def r tickets_ok_def serial_snoc running_def
        add_mset_commute)
next
  case notify_all
  then show ?thesis
    using tickets_ok_same [OF ok] by (simp add: notify_all_def running_wake_all)
qed (use ok in \<open>auto simp: worker_at_def running_same intro!: tickets_ok_same [OF ok]\<close>)

lemma someone_waits_update:
  "i < length ts \<Longrightarrow> Waiting \<in> set (ts[i := w]) \<Longrightarrow> w \<noteq> Waiting \<Longrightarrow> Waiting \<in> set ts"
  by (auto dest!: set_update_subset_insert [THEN subsetD])

lemma about_to_test_update:
  "worker_at i v s \<Longrightarrow> count_where about_to_test ((threads s)[i := w]) + (if about_to_test v then 1 else 0) =
     count_where about_to_test (threads s) + (if about_to_test w then 1 else 0)"
  using count_where_update [of i "threads s" about_to_test w] by (auto simp: worker_at_def)

lemma not_waiting_after_notify_all: "Waiting \<notin> wake_worker ` set ts"
  by (auto simp: wake_worker_def split: if_splits)

lemma wakeups_step:
  assumes ok: "wakeups_ok s" "dtor_ok s" and step: "pool_step l s = Some t"
  shows "wakeups_ok t"
  using step
proof (cases rule: pool_step_cases)
  case (notify i)
  then have "someone_waits s" by (auto simp: someone_waits_def worker_at_def in_set_conv_nth)
  then show ?thesis
    using ok(1) notify about_to_test_update [OF notify(4), of AtTest] by (auto simp: wakeups_ok_def)
next
  case (exits i)
  then show ?thesis by (simp add: wakeups_ok_def)
next
  case (takes i x xs)
  then have "someone_waits t \<Longrightarrow> someone_waits s"
    using someone_waits_update [of i "threads s" "Running x"]
    by (auto simp: someone_waits_def worker_at_def)
  then show ?thesis
    using ok(1) takes about_to_test_update [OF takes(2), of "Running x"] by (auto simp: wakeups_ok_def)
next
  case (runs i x)
  then have w: "someone_waits t \<Longrightarrow> someone_waits s"
    using someone_waits_update [of i "threads s" AtTest]
    by (auto simp: someone_waits_def worker_at_def worker_run_def split: prod.splits)
  obtain r e' where "(packaged s ! x) (env s) = (r, e')" by force
  then show ?thesis
    using ok(1) w about_to_test_update [OF runs(2), of AtTest]
    by (auto simp: wakeups_ok_def runs(3) worker_run_def)
next
  case (spurious i)
  then have "someone_waits s" by (auto simp: someone_waits_def worker_at_def in_set_conv_nth)
  then show ?thesis
    using ok(1) spurious about_to_test_update [OF spurious(2), of AtTest] by (auto simp: wakeups_ok_def)
next
  case notify_all
  then show ?thesis
    by (simp add: wakeups_ok_def someone_waits_def notify_all_def not_waiting_after_notify_all)
qed (use ok in \<open>auto simp: wakeups_ok_def someone_waits_def\<close>)

lemma Exited_update:
  "i < length ts \<Longrightarrow> Exited \<in> set (ts[i := w]) \<Longrightarrow> w \<noteq> Exited \<Longrightarrow> Exited \<in> set ts"
  by (auto dest!: set_update_subset_insert [THEN subsetD])

text \<open>A worker that has returned does not move again, so a joined prefix stays joined.\<close>

lemma joined_update:
  assumes "\<forall>j < k. ts ! j = Exited" and "ts ! i = v" and "v \<noteq> Exited" and "k \<le> length ts"
  shows "\<forall>j < k. (ts[i := w]) ! j = Exited"
  using assms by (metis nth_list_update_neq)

lemma dtor_ok_worker:
  assumes "dtor_ok s" and "worker_at i v s" and "v \<noteq> Exited" and "threads t = (threads s)[i := w]"
    and "stop t = stop s" and "dtor t = dtor s"
    and "w = Waiting \<Longrightarrow> \<not> stop s" and "w = Exited \<Longrightarrow> stop s"
    and "w = Exited \<or> Exited \<in> set (threads s) \<Longrightarrow> task_queue t = []"
  shows "dtor_ok t"
proof -
  have i: "i < length (threads s)" "threads s ! i = v" using assms(2) by (auto simp: worker_at_def)
  have "someone_waits t \<Longrightarrow> someone_waits s \<or> w = Waiting"
    using someone_waits_update [OF i(1), of w] assms(4) by (auto simp: someone_waits_def)
  moreover have "Exited \<in> set (threads t) \<Longrightarrow> Exited \<in> set (threads s) \<or> w = Exited"
    using Exited_update [OF i(1), of w] assms(4) by auto
  ultimately show ?thesis
    using assms(1,5-9) joined_update [of "joined (dtor s) (length (threads s))" "threads s" i v w]
      i assms(3) assms(4)
    unfolding dtor_ok_def by auto
qed

lemma Exited_wake [simp]: "wake_worker w = Exited \<longleftrightarrow> w = Exited"
  by (simp add: wake_worker_def)

lemma Exited_wake_set: "Exited \<in> wake_worker ` set ts \<longleftrightarrow> Exited \<in> set ts"
  by (force simp: image_iff wake_worker_def)

lemma dtor_step:
  assumes ok: "dtor_ok s" and step: "pool_step l s = Some t"
  shows "dtor_ok t"
  using step
proof (cases rule: pool_step_cases)
  case (add f)
  then show ?thesis using ok by (auto simp: dtor_ok_def someone_waits_def)
next
  case (notify i)
  then show ?thesis
    by (intro dtor_ok_worker [OF ok notify(4)]) (use ok in \<open>auto simp: dtor_ok_def\<close>)
next
  case (blocks i)
  then show ?thesis
    by (intro dtor_ok_worker [OF ok blocks(2)]) (use ok in \<open>auto simp: dtor_ok_def\<close>)
next
  case (exits i)
  then show ?thesis
    by (intro dtor_ok_worker [OF ok exits(2)]) (use ok in \<open>auto simp: dtor_ok_def\<close>)
next
  case (takes i x xs)
  then show ?thesis
    by (intro dtor_ok_worker [OF ok takes(2)]) (use ok in \<open>auto simp: dtor_ok_def\<close>)
next
  case (runs i x)
  then show ?thesis
    by (intro dtor_ok_worker [OF ok runs(2)])
      (use ok in \<open>auto simp: dtor_ok_def worker_run_def split: prod.splits\<close>)
next
  case (spurious i)
  then show ?thesis
    by (intro dtor_ok_worker [OF ok spurious(2)]) (use ok in \<open>auto simp: dtor_ok_def\<close>)
next
  case notify_all
  then show ?thesis
    using ok
    by (auto simp: dtor_ok_def notify_all_def someone_waits_def not_waiting_after_notify_all
        Exited_wake_set joined_def)
next
  case (joins k)
  then show ?thesis
    using ok by (auto simp: dtor_ok_def joined_def worker_at_def someone_waits_def less_Suc_eq)
next
  case all_joined
  then show ?thesis using ok by (auto simp: dtor_ok_def joined_def someone_waits_def)
qed (use ok in \<open>auto simp: dtor_ok_def someone_waits_def joined_def\<close>)

lemma start_workers_eq: "start_workers n ts = ts @ replicate n AtTest"
  by (induction n arbitrary: ts) (simp_all add: replicate_append_same)

lemma init_wf: "pool_wf e (ThreadPool_init n e)"
proof -
  have "running (replicate k AtTest) = []" for k by (induction k) (simp_all add: running_def)
  then show ?thesis
    by (simp add: pool_wf_def tickets_ok_def wakeups_ok_def dtor_ok_def someone_waits_def
        ThreadPool_init_def start_workers_eq joined_def)
qed

lemma pool_wf_step: "pool_wf e s \<Longrightarrow> pool_step l s = Some t \<Longrightarrow> pool_wf e t"
  using tickets_step [of e s l t] wakeups_step [of s l t] dtor_step [of s l t]
  by (simp add: pool_wf_def)

lemma reach_pool_wf: "pool_reach n e s \<Longrightarrow> pool_wf e s"
  by (induction rule: pool_reach.induct) (auto intro: init_wf pool_wf_step)

lemma pool_step_length: "pool_step l s = Some t \<Longrightarrow> length (threads t) = length (threads s)"
  by (erule pool_step_cases) (auto simp: worker_run_def notify_all_def split: prod.splits)

lemma reach_length: "pool_reach n e s \<Longrightarrow> length (threads s) = nat n"
  by (induction rule: pool_reach.induct)
    (auto simp: ThreadPool_init_def start_workers_eq pool_step_length)

section \<open>The destructor returns\<close>

text \<open>The steps of the pool's own threads and of the destructor; an \<open>Add\<close> can only throw by then.\<close>

definition closing_step :: "('e, 'r) label \<Rightarrow> ('e, 'r) pool \<Rightarrow> ('e, 'r) pool option" where
  "closing_step l s = (case l of LAdd f \<Rightarrow> None | _ \<Rightarrow> pool_step l s)"

lemma closing_step_pool: "closing_step l s = Some t \<Longrightarrow> pool_step l s = Some t"
  by (cases l) (auto simp: closing_step_def)

lemma closing_exec: "exec closing_step ls s = Some t \<Longrightarrow> exec pool_step ls s = Some t"
  by (rule exec_mono [OF closing_step_pool])

fun worker_weight :: "worker \<Rightarrow> nat" where
  "worker_weight Waiting = 2"
| "worker_weight AtTest = 1"
| "worker_weight (Running t) = 2"
| "worker_weight Exited = 0"

fun dtor_weight :: "nat \<Rightarrow> dtor \<Rightarrow> nat" where
  "dtor_weight n Alive = n + 3"
| "dtor_weight n StopSet = n + 2"
| "dtor_weight n (Joining k) = n + 1 - k"
| "dtor_weight n Destroyed = 0"

definition closing_measure :: "('e, 'r) pool \<Rightarrow> nat" where
  "closing_measure s = 2 * length (task_queue s) + sum_list (map worker_weight (threads s))
     + unnotified s + dtor_weight (length (threads s)) (dtor s)"

lemma weight_update:
  "worker_at i v s \<Longrightarrow> sum_list (map worker_weight ((threads s)[i := w])) + worker_weight v =
     sum_list (map worker_weight (threads s)) + worker_weight w"
  using sum_list_map_update [of i "threads s" worker_weight w] by (auto simp: worker_at_def)

lemma weight_wake_all:
  "sum_list (map worker_weight (map wake_worker ts)) \<le> sum_list (map worker_weight ts)"
proof (induction ts)
  case (Cons w ts)
  have "worker_weight (wake_worker w) \<le> worker_weight w" by (cases w) (simp_all add: wake_worker_def)
  with Cons show ?case by simp
qed simp

lemma closing_decreases:
  assumes "dtor_ok s" and "stop s" and step: "closing_step l s = Some t"
  shows "closing_measure t < closing_measure s"
  using closing_step_pool [OF step]
proof (cases rule: pool_step_cases)
  case (add f)
  then show ?thesis using assms by simp
next
  case (stopped f)
  then show ?thesis using assms(3) by (simp add: closing_step_def)
next
  case (notify i)
  then show ?thesis using weight_update [OF notify(4), of AtTest] by (simp add: closing_measure_def)
next
  case (exits i)
  then show ?thesis using weight_update [OF exits(2), of Exited] by (simp add: closing_measure_def)
next
  case (takes i x xs)
  then show ?thesis using weight_update [OF takes(2), of "Running x"] by (simp add: closing_measure_def)
next
  case (runs i x)
  then show ?thesis
    using weight_update [OF runs(2), of AtTest]
    by (simp add: closing_measure_def worker_run_def split: prod.splits)
next
  case (spurious i)
  then show ?thesis using weight_update [OF spurious(2), of AtTest] by (simp add: closing_measure_def)
next
  case notify_all
  then show ?thesis
    using weight_wake_all [of "threads s"] by (simp add: closing_measure_def notify_all_def)
next
  case (joins k)
  then have "k < length (threads s)" by (simp add: worker_at_def)
  with joins show ?thesis by (auto simp: closing_measure_def)
next
  case stops
  then show ?thesis using assms by (simp add: dtor_ok_def)
qed (use assms in \<open>auto simp: closing_measure_def\<close>)

lemma closing_not_stuck:
  assumes ok: "dtor_ok s" and "stop s" and "dtor s \<noteq> Destroyed"
  shows "\<exists>l t. closing_step l s = Some t"
proof -
  consider "dtor s = StopSet" | k where "dtor s = Joining k"
    using assms by (cases "dtor s") (auto simp: dtor_ok_def)
  then show ?thesis
  proof cases
    case 1
    then show ?thesis by (intro exI [of _ LNotifyAll]) (simp add: closing_step_def)
  next
    case (2 k)
    then have k: "k \<le> length (threads s)" and awake: "\<not> someone_waits s"
      using ok by (auto simp: dtor_ok_def joined_def)
    show ?thesis
    proof (cases "k = length (threads s)")
      case True
      with 2 show ?thesis by (intro exI [of _ LJoin]) (simp add: closing_step_def)
    next
      case False
      with k have lt: "k < length (threads s)" by simp
      show ?thesis
      proof (cases "threads s ! k")
        case AtTest
        with lt show ?thesis
          by (intro exI [of _ "LTest k"]) (simp add: closing_step_def worker_at_def)
      next
        case Waiting
        with lt awake show ?thesis by (metis someone_waits_def nth_mem)
      next
        case (Running x)
        with lt show ?thesis by (intro exI [of _ "LRun k"]) (simp add: closing_step_def)
      next
        case Exited
        with lt 2 show ?thesis
          by (intro exI [of _ LJoin]) (simp add: closing_step_def worker_at_def)
      qed
    qed
  qed
qed

lemma stop_stays: "pool_step l s = Some t \<Longrightarrow> stop s \<Longrightarrow> stop t"
  by (erule pool_step_cases) (auto simp: worker_run_def notify_all_def split: prod.splits)

interpretation closing: terminating_machine closing_step "\<lambda>s. dtor_ok s \<and> stop s"
  "\<lambda>s. dtor s = Destroyed" closing_measure
proof unfold_locales
  fix s t :: "('e, 'r) pool" and l
  assume inv: "dtor_ok s \<and> stop s" and step: "closing_step l s = Some t"
  show "dtor_ok t \<and> stop t"
    using inv dtor_step stop_stays closing_step_pool [OF step] by blast
  show "closing_measure t < closing_measure s"
    using inv closing_decreases step by blast
next
  fix s :: "('e, 'r) pool"
  assume "dtor_ok s \<and> stop s" and "dtor s \<noteq> Destroyed"
  then show "\<exists>l t. closing_step l s = Some t" using closing_not_stuck by blast
qed

section \<open>Every queued task finds a worker\<close>

text \<open>The steps that bring queued tasks to workers: tests and notifications.\<close>

definition starting_step :: "('e, 'r) label \<Rightarrow> ('e, 'r) pool \<Rightarrow> ('e, 'r) pool option" where
  "starting_step l s =
     (case l of LTest i \<Rightarrow> pool_step l s | LNotify w \<Rightarrow> pool_step l s | _ \<Rightarrow> None)"

lemma starting_step_pool: "starting_step l s = Some t \<Longrightarrow> pool_step l s = Some t"
  by (cases l) (auto simp: starting_step_def)

text \<open>No more tasks queued and running than there are workers.\<close>

definition room :: "('e, 'r) pool \<Rightarrow> bool" where
  "room s \<longleftrightarrow> length (running (threads s)) + length (task_queue s) \<le> length (threads s)"

definition starting_measure :: "('e, 'r) pool \<Rightarrow> nat" where
  "starting_measure s = count_where about_to_test (threads s) + 2 * unnotified s"

lemma length_running_update:
  assumes "worker_at i v s"
  shows "length (running ((threads s)[i := w])) + length (ticket v) =
    length (running (threads s)) + length (ticket w)"
proof -
  have "size (mset (running ((threads s)[i := w])) + mset (ticket v)) =
      size (mset (running (threads s)) + mset (ticket w))"
    using running_update [of i "threads s" w] assms by (simp add: worker_at_def)
  then show ?thesis by simp
qed

lemma length_running: "length (running ts) = count_where (\<lambda>w. \<exists>t. w = Running t) ts"
proof (induction ts)
  case (Cons w ts)
  then show ?case by (cases w) (simp_all add: running_def)
qed (simp add: running_def)

lemma starting_keeps:
  assumes "wakeups_ok s" "dtor_ok s" "\<not> stop s" "room s" and step: "starting_step l s = Some t"
  shows "wakeups_ok t \<and> dtor_ok t \<and> \<not> stop t \<and> room t \<and> starting_measure t < starting_measure s"
proof -
  have "wakeups_ok t" "dtor_ok t"
    using assms wakeups_step dtor_step starting_step_pool by blast+
  moreover from starting_step_pool [OF step]
  have "\<not> stop t \<and> room t \<and> starting_measure t < starting_measure s"
  proof (cases rule: pool_step_cases)
    case (notify i)
    then show ?thesis
      using assms(3,4) about_to_test_update [OF notify(4), of AtTest]
        length_running_update [OF notify(4), of AtTest]
      by (simp add: room_def starting_measure_def)
  next
    case (blocks i)
    then show ?thesis
      using assms(3,4) about_to_test_update [OF blocks(2), of Waiting]
        length_running_update [OF blocks(2), of Waiting]
      by (simp add: room_def starting_measure_def)
  next
    case (takes i x xs)
    then show ?thesis
      using assms(3,4) about_to_test_update [OF takes(2), of "Running x"]
        length_running_update [OF takes(2), of "Running x"]
      by (simp add: room_def starting_measure_def)
  qed (use assms in \<open>auto simp: starting_step_def room_def starting_measure_def\<close>)
  ultimately show ?thesis by blast
qed

lemma starting_not_stuck:
  assumes "wakeups_ok s" "dtor_ok s" "\<not> stop s" "room s" and "task_queue s \<noteq> []"
  shows "\<exists>l t. starting_step l s = Some t"
proof -
  have alive: "dtor s \<noteq> Destroyed" and none_out: "Exited \<notin> set (threads s)"
    using assms by (auto simp: dtor_ok_def)
  have "count_where (\<lambda>w. \<exists>t. w = Running t) (threads s) < length (threads s)"
    using assms(4,5) by (cases "task_queue s") (auto simp: room_def length_running)
  then have "\<not> (\<forall>w \<in> set (threads s). \<exists>t. w = Running t)"
  proof (rule contrapos_pn)
    assume "\<forall>w \<in> set (threads s). \<exists>t. w = Running t"
    from filter_True [OF this]
    show "\<not> count_where (\<lambda>w. \<exists>t. w = Running t) (threads s) < length (threads s)"
      by (simp only: count_where_def less_irrefl not_False_eq_True)
  qed
  then obtain w where w: "w \<in> set (threads s)" "\<not> (\<exists>t. w = Running t)" by blast
  show ?thesis
  proof (cases "AtTest \<in> set (threads s)")
    case True
    then obtain i where "worker_at i AtTest s" by (auto simp: in_set_conv_nth worker_at_def)
    then show ?thesis by (intro exI [of _ "LTest i"]) (simp add: starting_step_def)
  next
    case False
    have "w \<noteq> AtTest" "w \<noteq> Exited" using False none_out w(1) by blast+
    then have "w = Waiting" using w(2) by (cases w) blast+
    with w(1) have "Waiting \<in> set (threads s)" by simp
    then obtain i where i: "worker_at i Waiting s" by (auto simp: in_set_conv_nth worker_at_def)
    have "count_where about_to_test (threads s) = 0"
      unfolding count_where_zero about_to_test_def using False by (metis nth_mem)
    with assms(1,5) \<open>Waiting \<in> set (threads s)\<close> have "unnotified s > 0"
      by (cases "task_queue s") (auto simp: wakeups_ok_def someone_waits_def)
    with i alive show ?thesis
      by (intro exI [of _ "LNotify (Some i)"]) (simp add: starting_step_def)
  qed
qed

interpretation starting: terminating_machine starting_step
  "\<lambda>s. wakeups_ok s \<and> dtor_ok s \<and> \<not> stop s \<and> room s" "\<lambda>s. task_queue s = []" starting_measure
  using starting_keeps starting_not_stuck by unfold_locales blast+

section \<open>Properties\<close>

lemma futures_set:
  assumes "pool_reach n e s" and "t < length (packaged s)"
  shows "futures s ! t = None \<longleftrightarrow> t \<notin> set (finished s)"
proof -
  have ok: "tickets_ok e s" using reach_pool_wf [OF assms(1)] by (simp add: pool_wf_def)
  have "set (finished s) \<subseteq> {..<length (packaged s)}" using finished_bound(1,2) [OF ok] by blast
  then show ?thesis
    using serial_stored [of t "(e, replicate (length (packaged s)) None)" "finished s" "packaged s"]
      ok assms(2) by (auto simp: tickets_ok_def)
qed

lemma queued_start:
  assumes "pool_reach n e s" and "\<not> stop s"
    and "length (packaged s) \<le> nat n + length (finished s)"
  shows "(\<exists>ls t. exec starting_step ls s = Some t \<and> task_queue t = []) \<and>
    (\<forall>ls t. exec starting_step ls s = Some t \<longrightarrow>
       length ls \<le> nat n + 2 * unnotified s \<and>
       ((\<forall>l. starting_step l t = None) \<longrightarrow> task_queue t = []))"
proof -
  have wf: "pool_wf e s" by (rule reach_pool_wf [OF assms(1)])
  have len: "length (threads s) = nat n" by (rule reach_length [OF assms(1)])
  have "length (taken s @ task_queue s) = length (packaged s)"
    and "size (mset (finished s @ running (threads s))) = size (mset (taken s))"
    using wf by (simp_all add: pool_wf_def tickets_ok_def)
  then have "room s" using assms(3) len by (simp add: room_def)
  with wf assms(2) have inv: "wakeups_ok s \<and> dtor_ok s \<and> \<not> stop s \<and> room s"
    by (simp add: pool_wf_def)
  have "starting_measure s \<le> nat n + 2 * unnotified s"
    using count_where_le [of about_to_test "threads s"] len by (simp add: starting_measure_def)
  with starting.goal_reachable [OF inv] starting.exec_bounded [OF inv] starting.ends_at_goal [OF inv]
  show ?thesis by (meson add_leD1 order_trans)
qed

text \<open>A destroyed pool: all workers have returned, and with a worker nothing is left undone.\<close>

lemma destroyed_drained:
  assumes reach: "pool_reach n e t" and over: "dtor t = Destroyed"
  shows "\<forall>w \<in> set (threads t). w = Exited" and "0 < n \<Longrightarrow> task_queue t = []"
    and "0 < n \<Longrightarrow> None \<notin> set (futures t)"
proof -
  have ok: "dtor_ok t" "tickets_ok e t" using reach_pool_wf [OF reach] by (simp_all add: pool_wf_def)
  show all: "\<forall>w \<in> set (threads t). w = Exited"
    using ok(1) over by (auto simp: dtor_ok_def joined_def in_set_conv_nth)
  then have "running (threads t) = []" by (auto simp: running_def)
  then have ms: "mset (finished t) = mset (taken t)" using ok(2) by (simp add: tickets_ok_def)
  have added: "taken t @ task_queue t = [0..<length (packaged t)]"
    using ok(2) by (simp add: tickets_ok_def)
  show empty: "task_queue t = []" if "0 < n"
  proof -
    have "threads t \<noteq> []" using reach_length [OF reach] that by auto
    with all have "Exited \<in> set (threads t)" by (cases "threads t") auto
    with ok(1) show ?thesis by (simp add: dtor_ok_def)
  qed
  show "None \<notin> set (futures t)" if "0 < n"
  proof -
    have "set (finished t) = set (taken t @ task_queue t)"
      using mset_eq_setD [OF ms] empty [OF that] by simp
    then have "set (finished t) = {0..<length (packaged t)}" by (simp only: added set_upt)
    then have "futures t ! i \<noteq> None" if "i < length (packaged t)" for i
      using futures_set [OF reach that] that by auto
    moreover have "length (futures t) = length (packaged t)" using ok(2) by (simp add: tickets_ok_def)
    ultimately show ?thesis by (auto simp: in_set_conv_nth)
  qed
qed


text \<open>
  C34: A pool with one worker is a serial executor: the tasks that have finished are the first ones
  that were added, and the environment and the futures are those of running them in the order of
  the \<open>Add\<close>s.
\<close>

theorem one_worker_is_serial:
  assumes "pool_reach 1 e s"
  shows "\<exists>k. finished s = [0..<k] \<and> k \<le> length (packaged s) \<and>
    serial (packaged s) [0..<k] (e, replicate (length (packaged s)) None) = (env s, futures s)"
proof -
  have ok: "tickets_ok e s" using reach_pool_wf [OF assms] by (simp add: pool_wf_def)
  moreover have "length (threads s) = 1" using reach_length [OF assms] by simp
  ultimately have pre: "finished s @ running (threads s) @ task_queue s = [0..<length (packaged s)]"
    by (auto simp: tickets_ok_def simp flip: append_assoc)
  define k where "k = length (finished s)"
  have k: "k \<le> length (packaged s)"
    using arg_cong [OF pre, of length] by (simp add: k_def)
  have "finished s = take k (finished s @ running (threads s) @ task_queue s)" by (simp add: k_def)
  also have "\<dots> = [0..<k]" using k by (simp add: pre)
  finally have "finished s = [0..<k]" .
  with k ok show ?thesis by (auto simp: tickets_ok_def)
qed

text \<open>
  C18: No wake-up is lost, although \<open>Add\<close> notifies after it has released the mutex: while the pool is
  not stopped and holds no more unfinished tasks than workers, tests and notifications alone bring
  every queued task to a worker, in a bounded number of steps, without any task having to return.
  So the event loops the server adds, one per worker, all get a thread.
\<close>

theorem queued_tasks_start:
  assumes "pool_reach n e s" and "\<not> stop s"
    and "length (packaged s) \<le> nat n + length (finished s)"
  shows "(\<exists>ls t. exec starting_step ls s = Some t \<and> task_queue t = []) \<and>
    (\<forall>ls t. exec starting_step ls s = Some t \<longrightarrow>
       length ls \<le> nat n + 2 * unnotified s \<and>
       ((\<forall>l. starting_step l t = None) \<longrightarrow> task_queue t = []))"
  by (rule queued_start [OF assms])

text \<open>
  C12: The destructor returns, and the pool is drained by then. Once the destructor has set
  \<open>stop_\<close>, \<open>Add\<close> throws and changes nothing, and the workers and the destructor can take only
  boundedly many more steps: whatever the scheduling, a run that cannot go on has ended the
  destructor, and such a run exists. When it has ended, all workers have returned, and if there
  was a worker at all, no task is left in the queue and the future of every task is set.
\<close>

theorem destructor_drains:
  fixes s :: "('e, 'r) pool"
  assumes "pool_reach n e s" and "stop s"
  shows "ThreadPool_Add f s = Some (Inl (RuntimeError (''thread pool already stopped'' @ [LF])), s) \<and>
    (\<forall>ls t. exec closing_step ls s = Some t \<longrightarrow>
       length ls \<le> closing_measure s \<and>
       ((\<forall>l. closing_step l t = None) \<longrightarrow> dtor t = Destroyed) \<and>
       (dtor t = Destroyed \<longrightarrow> (\<forall>w \<in> set (threads t). w = Exited)) \<and>
       (dtor t = Destroyed \<and> 0 < n \<longrightarrow> task_queue t = [] \<and> None \<notin> set (futures t))) \<and>
    (\<exists>ls t. exec closing_step ls s = Some t \<and> dtor t = Destroyed)"
proof (intro conjI allI impI)
  have inv: "dtor_ok s \<and> stop s" using reach_pool_wf [OF assms(1)] assms(2) by (simp add: pool_wf_def)
  show "ThreadPool_Add f s = Some (Inl (RuntimeError (''thread pool already stopped'' @ [LF])), s)"
    using assms(2) by (simp only: ThreadPool_Add_def if_True)
  show "\<exists>ls t. exec closing_step ls s = Some t \<and> dtor t = Destroyed"
    by (rule closing.goal_reachable [OF inv])
  fix ls and t :: "('e, 'r) pool"
  assume run: "exec closing_step ls s = Some t"
  note drained = destroyed_drained [OF pool_reach_exec [OF assms(1) closing_exec [OF run]]]
  show "length ls \<le> closing_measure s" using closing.exec_bounded [OF inv run] by simp
  show "dtor t = Destroyed" if "\<forall>l. closing_step l t = None"
    using closing.ends_at_goal [OF inv run] that by blast
  show "\<forall>w \<in> set (threads t). w = Exited" if "dtor t = Destroyed" by (rule drained(1) [OF that])
  show "task_queue t = []" and "None \<notin> set (futures t)" if "dtor t = Destroyed \<and> 0 < n"
    using drained(2,3) that by blast+
qed

text \<open>
  A pool made with no thread, which is what \<open>hardware_concurrency()\<close> gives where it cannot
  tell, accepts tasks and never runs one: no task is ever taken, the environment never changes, no
  future is ever set, and the destructor ends with the tasks still queued.
\<close>

lemma no_threads_no_tasks:
  assumes "pool_reach n e s" and "n \<le> 0"
  shows "task_queue s = [0..<length (packaged s)] \<and> env s = e \<and>
    futures s = replicate (length (packaged s)) None"
proof -
  have ok: "tickets_ok e s" using reach_pool_wf [OF assms(1)] by (simp add: pool_wf_def)
  have "threads s = []" using reach_length [OF assms(1)] assms(2) by simp
  then have "finished s = taken s" using ok by (simp add: tickets_ok_def running_def)
  moreover have "taken s = []" using assms
  proof (induction rule: pool_reach.induct)
    case (pool_move s l t)
    then have "threads s = []" using reach_length by fastforce
    with pool_move show ?case
      by (auto elim!: pool_step_cases simp: worker_at_def notify_all_def)
  qed (simp add: ThreadPool_init_def)
  ultimately show ?thesis using ok by (simp add: tickets_ok_def)
qed

end
