(* ===== verification/Reactors.thy ===== *)
theory Reactors
  imports ServerBuild ThreadPool
begin

text \<open>
  The life of a server as a whole: how its constructor, its thread pool and its destructor fit
  together. The pool is given the loops of the sub reactors, tasks that never return: each gets a
  worker to itself, and from then on the pool cannot be destroyed. A server that was never started
  can, and closes what it opened.
\<close>

section \<open>What the constructor opens\<close>

text \<open>The descriptors a stretch of calls opened, and the calls that close descriptors.\<close>

fun opened :: "syscall list \<Rightarrow> int list" where
  "opened [] = []"
| "opened (CSocket (SysOk fd) # cs) = fd # opened cs"
| "opened (CEpollCreate (SysOk fd) # cs) = fd # opened cs"
| "opened (c # cs) = opened cs"

lemma opened_append [simp]: "opened (xs @ ys) = opened xs @ opened ys"
  by (induction xs rule: opened.induct) simp_all

text \<open>The kernel never hands out -1 as a descriptor.\<close>

definition opens_valid :: "'k os \<Rightarrow> bool" where
  "opens_valid os \<longleftrightarrow>
     (\<forall>k fd k'. sys_socket os k = (SysOk fd, k') \<longrightarrow> fd \<noteq> -1) \<and>
     (\<forall>k fd k'. sys_epoll_create os k = (SysOk fd, k') \<longrightarrow> fd \<noteq> -1)"

lemma new_EventLoop_opens:
  fixes s :: "('k, 'z) server_scheme"
  assumes "opens_valid os" and "new_EventLoop os s = Some (Inr l, t)"
  obtains ep k where "l = next_ptr s" "ep \<noteq> -1"
    "t = s\<lparr>kern := k, calls := calls s @ [CEpollCreate (SysOk ep)],
       event_loops := (event_loops s)(l \<mapsto> \<lparr>epfd = ep, el_quit = False\<rparr>), next_ptr := Suc l\<rparr>"
proof -
  obtain r k where ep: "sys_epoll_create os (kern s) = (r, k)" by force
  with assms(2) obtain fd where r: "r = SysOk fd"
    by (cases r) (auto simp: new_EventLoop_def new_Epoll_def total_def do_epoll_create_def syscall_def)
  with assms(1) ep have "fd \<noteq> -1" unfolding opens_valid_def by blast
  moreover have "l = next_ptr s" "t = s\<lparr>kern := k, calls := calls s @ [CEpollCreate (SysOk fd)],
       event_loops := (event_loops s)(l \<mapsto> \<lparr>epfd = fd, el_quit = False\<rparr>), next_ptr := Suc l\<rparr>"
    using assms(2) ep r
    by (auto simp: new_EventLoop_def new_Epoll_def total_def do_epoll_create_def syscall_def)
  ultimately show thesis using that by blast
qed

text \<open>A row of event loops: at fresh addresses, each with an epoll instance of its own.\<close>

definition loops_at :: "('k, 'z) server_scheme \<Rightarrow> nat list \<Rightarrow> int list \<Rightarrow> bool" where
  "loops_at s ls es \<longleftrightarrow> distinct ls \<and> -1 \<notin> set es \<and>
     list_all2 (\<lambda>l ep. \<exists>el. event_loops s l = Some el \<and> epfd el = ep) ls es"

lemma new_EventLoops_opens:
  fixes s :: "('k, 'z) server_scheme"
  assumes "opens_valid os" and "new_EventLoops os n s = Some (Inr ls, t)"
  shows "\<exists>es k. loops_at t ls es \<and> length ls = n \<and> (\<forall>l \<in> set ls. next_ptr s \<le> l) \<and>
    (\<forall>l < next_ptr s. event_loops t l = event_loops s l) \<and>
    t = s\<lparr>kern := k, calls := calls s @ map (\<lambda>ep. CEpollCreate (SysOk ep)) es,
      event_loops := event_loops t, next_ptr := next_ptr t\<rparr> \<and> next_ptr s \<le> next_ptr t"
  using assms(2)
proof (induction n arbitrary: s ls)
  case 0
  then show ?case by (auto simp: loops_at_def intro!: exI [of _ "[]"] exI [of _ "kern t"])
next
  case (Suc n)
  then obtain l u ms where l: "new_EventLoop os s = Some (Inr l, u)"
    and ms: "new_EventLoops os n u = Some (Inr ms, t)" "ls = l # ms" by (auto simp: bindC_returns)
  from new_EventLoop_opens [OF assms(1) l] obtain ep k where u: "l = next_ptr s" "ep \<noteq> -1"
    "u = s\<lparr>kern := k, calls := calls s @ [CEpollCreate (SysOk ep)],
       event_loops := (event_loops s)(l \<mapsto> \<lparr>epfd = ep, el_quit = False\<rparr>), next_ptr := Suc l\<rparr>"
    by blast
  from Suc.IH [OF ms(1)] obtain es k2 where rest: "loops_at t ms es" "length ms = n"
    "\<forall>m \<in> set ms. Suc l \<le> m" "\<forall>m < Suc l. event_loops t m = event_loops u m"
    "t = u\<lparr>kern := k2, calls := calls u @ map (\<lambda>ep. CEpollCreate (SysOk ep)) es,
      event_loops := event_loops t, next_ptr := next_ptr t\<rparr>" "Suc l \<le> next_ptr t"
    by (auto simp: u(3))
  have "loops_at t (l # ms) (ep # es)"
    using rest(1,3,4) u by (auto simp: loops_at_def)
  moreover have "t = s\<lparr>kern := k2, calls := calls s @ map (\<lambda>ep. CEpollCreate (SysOk ep)) (ep # es),
      event_loops := event_loops t, next_ptr := next_ptr t\<rparr>"
    by (subst rest(5)) (simp add: u(3))
  ultimately show ?case
    using rest(2,3,4,6) u ms(2)
    by (intro exI [of _ "ep # es"] exI [of _ k2]) (auto simp: less_Suc_eq)
qed

text \<open>The acceptor's socket, its one descriptor.\<close>

lemma Bind_Listen_calls:
  fixes s t :: "('k, 'z) world_scheme"
  assumes "bindC (Socket_Bind os fd ia) (\<lambda>ia'. Socket_Listen os fd) s = Some (Inr u, t)"
  shows "\<exists>k cs. t = s\<lparr>kern := k, calls := calls s @ cs\<rparr> \<and> opened cs = []"
proof -
  let ?cs = "[CBind fd (InetAddress_GetAddr ia) (SysOk ()), CListen fd (SysOk ())]"
  have "t = s\<lparr>kern := kern t, calls := calls s @ ?cs\<rparr>"
    using assms
    by (auto simp: Socket_Bind_def Socket_Listen_def bindC_returns total_def do_defs
        split: prod.splits sysres.splits)
  moreover have "opened ?cs = []" by simp
  ultimately show ?thesis by blast
qed

lemma new_Acceptor_opens:
  fixes s :: "('k, 'z) server_scheme"
  assumes "opens_valid os" and m: "event_loops s m = Some el"
    and run: "new_Acceptor os m ia s = Some (Inr a, t)"
  shows "\<exists>k cs ch. acc_sock a \<noteq> -1 \<and> opened cs = [acc_sock a] \<and> ch_fd ch = acc_sock a \<and>
    acc_channel a = next_ptr s \<and>
    t = s\<lparr>kern := k, calls := calls s @ cs, channels := (channels s)(next_ptr s \<mapsto> ch),
      next_ptr := Suc (next_ptr s)\<rparr>"
proof -
  let ?q = "next_ptr s"
  from run obtain fd s1 s2 where sock: "new_Socket os s = Some (Inr fd, s1)"
    and bind: "\<exists>u. bindC (Socket_Bind os fd ia) (\<lambda>ia'. Socket_Listen os fd) s1 = Some (Inr u, s2)"
    and rest: "bindC (new_Channel m fd) (\<lambda>q.
     seqC (Channel_SetReadCallBack q (Some AcceptConnectionCb))
    (seqC (unwinding (Channel_EnableRead os q)
                     (seqC (delete_Channel os q) (delete_Socket os fd)))
          (ret \<lparr>acc_sock = fd, acc_channel = q, has_new_connection_callback = False\<rparr>))) s2 =
      Some (Inr a, t)"
    unfolding new_Acceptor_def by (auto simp: bindC_returns dest!: unwinding_returns)
  from sock obtain k1 where "sys_socket os (kern s) = (SysOk fd, k1)"
    and s1: "s1 = s\<lparr>kern := k1, calls := calls s @ [CSocket (SysOk fd)]\<rparr>"
    unfolding new_Socket_def total_def do_socket_def syscall_def
    by (auto simp: bindC_returns split: prod.splits sysres.splits)
  with assms(1) have fd: "fd \<noteq> -1" unfolding opens_valid_def by blast
  from bind obtain k2 cs where s2: "s2 = s1\<lparr>kern := k2, calls := calls s1 @ cs\<rparr>" "opened cs = []"
    using Bind_Listen_calls by blast
  define ch where "ch = (Channel_init m fd)\<lparr>read_callback := Some AcceptConnectionCb\<rparr>"
  define s3 where "s3 = s2\<lparr>next_ptr := Suc ?q, channels := (channels s2)(?q \<mapsto> ch)\<rparr>"
  from rest have "(seqC (unwinding (Channel_EnableRead os ?q)
        (seqC (delete_Channel os ?q) (delete_Socket os fd)))
      (ret \<lparr>acc_sock = fd, acc_channel = ?q, has_new_connection_callback = False\<rparr>)) s3 = Some (Inr a, t)"
    by (simp add: new_Channel_def Channel_SetReadCallBack_def s3_def ch_def s2(1) s1)
  then have enable: "add_flags os (EPOLLIN OR EPOLLPRI) ?q s3 = Some (Inr (), t)"
    and a: "acc_sock a = fd" "acc_channel a = ?q"
    by (auto simp: seqC_returns EnableRead_add_flags dest!: unwinding_returns)
  have "channels s3 ?q = Some ch" "event_loops s3 (ch_loop ch) = Some el"
    using m by (simp_all add: s3_def s2(1) s1 ch_def Channel_init_def)
  from add_flags_ok [OF this enable] obtain k3 op ev where
    "t = s3\<lparr>kern := k3, calls := calls s3 @ [CEpollCtl (epfd el) op (ch_fd ch) ev (SysOk ())],
      channels := (channels s3)(?q \<mapsto> ch\<lparr>listen_events := listen_events ch OR (EPOLLIN OR EPOLLPRI),
        in_epoll := True\<rparr>)\<rparr>" by blast
  then show ?thesis
    using fd a s2(2)
    by (intro exI [of _ k3] exI [of _ "[CSocket (SysOk fd)] @ cs @
          [CEpollCtl (epfd el) op (ch_fd ch) ev (SysOk ())]"]
        exI [of _ "ch\<lparr>listen_events := listen_events ch OR (EPOLLIN OR EPOLLPRI), in_epoll := True\<rparr>"])
      (simp add: s3_def s2(1) s1 ch_def Channel_init_def)
qed

lemma Server_init_opens:
  fixes s :: "('k, 'z) server_scheme"
  assumes "opens_valid os" and "Server_init os inet_addr hw ip port s = Some (Inr u, t)"
  shows "\<exists>cs es ch el. opened cs = epfd el # acc_sock (the_acceptor t) # es \<and> calls t = calls s @ cs \<and>
    length (sub_reactors t) = hw \<and> loops_at t (sub_reactors t) es \<and>
    main_reactor t \<notin> set (sub_reactors t) \<and> event_loops t (main_reactor t) = Some el \<and> epfd el \<noteq> -1 \<and>
    channels t (acc_channel (the_acceptor t)) = Some ch \<and> ch_fd ch = acc_sock (the_acceptor t) \<and>
    acc_sock (the_acceptor t) \<noteq> -1 \<and> pool_tasks t = [] \<and> connections t = connections s"
proof -
  from assms(2) obtain m s1 a s3 ls s5 where m: "new_EventLoop os s = Some (Inr m, s1)" and
    a: "new_Acceptor os m (InetAddress_make inet_addr ip port) (s1\<lparr>main_reactor := m\<rparr>) = Some (Inr a, s3)" and
    ls: "new_EventLoops os hw (s3\<lparr>the_acceptor := Acceptor_SetNewConnectionCallBack a, pool_tasks := []\<rparr>) =
      Some (Inr ls, s5)" and t: "t = s5\<lparr>sub_reactors := ls\<rparr>"
    unfolding Server_init_def by (auto simp: bindC_returns seqC_returns)
  from new_EventLoop_opens [OF assms(1) m] obtain ep k where e: "m = next_ptr s" "ep \<noteq> -1"
    "s1 = s\<lparr>kern := k, calls := calls s @ [CEpollCreate (SysOk ep)],
       event_loops := (event_loops s)(m \<mapsto> \<lparr>epfd = ep, el_quit = False\<rparr>), next_ptr := Suc m\<rparr>"
    by blast
  have "event_loops (s1\<lparr>main_reactor := m\<rparr>) m = Some \<lparr>epfd = ep, el_quit = False\<rparr>" by (simp add: e(3))
  from new_Acceptor_opens [OF assms(1) this a] obtain k3 cs ch where
    acc: "acc_sock a \<noteq> -1" "opened cs = [acc_sock a]" "ch_fd ch = acc_sock a" "acc_channel a = Suc m"
    "s3 = s1\<lparr>main_reactor := m, kern := k3, calls := calls s1 @ cs,
      channels := (channels s1)(Suc m \<mapsto> ch), next_ptr := Suc (Suc m)\<rparr>" by (auto simp: e(3))
  define s4 where "s4 = s3\<lparr>the_acceptor := Acceptor_SetNewConnectionCallBack a, pool_tasks := []\<rparr>"
  from new_EventLoops_opens [OF assms(1) ls [folded s4_def]] obtain es k5 where
    sub: "loops_at s5 ls es" "length ls = hw" "\<forall>l \<in> set ls. next_ptr s4 \<le> l"
    "\<forall>l < next_ptr s4. event_loops s5 l = event_loops s4 l" and
    s5: "s5 = s4\<lparr>kern := k5, calls := calls s4 @ map (\<lambda>ep. CEpollCreate (SysOk ep)) es,
      event_loops := event_loops s5, next_ptr := next_ptr s5\<rparr>" by blast
  have n: "m < next_ptr s4" by (simp add: s4_def acc(5))
  have opens: "opened (map (\<lambda>ep. CEpollCreate (SysOk ep)) es) = es" by (induction es) simp_all
  have "event_loops s5 m = Some \<lparr>epfd = ep, el_quit = False\<rparr>"
    using sub(4) n by (simp add: s4_def acc(5) e(3))
  moreover have "calls s5 = calls s @ ([CEpollCreate (SysOk ep)] @ cs @ map (\<lambda>ep. CEpollCreate (SysOk ep)) es)"
    by (subst s5) (simp add: s4_def acc(5) e(3))
  moreover have "main_reactor s5 = m" "the_acceptor s5 = Acceptor_SetNewConnectionCallBack a"
    "pool_tasks s5 = []" "connections s5 = connections s" "channels s5 (Suc m) = Some ch"
    by (subst s5, simp add: s4_def acc(5) e(3))+
  moreover have "loops_at t ls es" using sub(1) by (simp add: loops_at_def t)
  moreover have "m \<notin> set ls" using sub(3) n by auto
  ultimately show ?thesis
    using sub(2) acc e(2) opens
    by (intro exI [of _ "[CEpollCreate (SysOk ep)] @ cs @ map (\<lambda>ep. CEpollCreate (SysOk ep)) es"]
        exI [of _ es] exI [of _ ch] exI [of _ "\<lparr>epfd = ep, el_quit = False\<rparr>"])
      (simp add: t Acceptor_SetNewConnectionCallBack_def)
qed

section \<open>Destroying a server that was not started\<close>

lemma delete_EventLoop_run:
  fixes s :: "('k, 'z) server_scheme"
  assumes "event_loops s l = Some el" and "epfd el \<noteq> -1"
  shows "delete_EventLoop os l s = Some (Inr (), s\<lparr>kern := sys_close os (epfd el) (kern s),
    calls := calls s @ [CClose (epfd el)], event_loops := (event_loops s)(l := None)\<rparr>)"
  using assms by (simp add: delete_EventLoop_def delete_Epoll_def do_close_def)

lemma delete_EventLoops_run:
  fixes s :: "('k, 'z) server_scheme"
  assumes "loops_at s ls es"
  shows "\<exists>k. delete_EventLoops os ls s = Some (Inr (), s\<lparr>kern := k,
    calls := calls s @ map CClose es, event_loops := event_loops s |` (- set ls)\<rparr>)"
  using assms
proof (induction ls arbitrary: s es)
  case Nil
  then show ?case by (auto simp: loops_at_def intro!: exI [of _ "kern s"])
next
  case (Cons l ls)
  then obtain el fs where es: "es = epfd el # fs" "event_loops s l = Some el" "epfd el \<noteq> -1"
    by (auto simp: loops_at_def list_all2_Cons1)
  define s1 where "s1 = s\<lparr>kern := sys_close os (epfd el) (kern s),
    calls := calls s @ [CClose (epfd el)], event_loops := (event_loops s)(l := None)\<rparr>"
  have del: "delete_EventLoop os l s = Some (Inr (), s1)"
    unfolding s1_def by (rule delete_EventLoop_run [OF es(2,3)])
  have "list_all2 (\<lambda>m ep. \<exists>el. event_loops s m = Some el \<and> epfd el = ep) ls fs" "l \<notin> set ls"
    using Cons.prems es(1) by (auto simp: loops_at_def)
  then have "list_all2 (\<lambda>m ep. \<exists>el. event_loops s1 m = Some el \<and> epfd el = ep) ls fs"
    by (auto simp: s1_def list_all2_conv_all_nth in_set_conv_nth)
  with Cons.prems es(1) have "loops_at s1 ls fs" by (simp add: loops_at_def)
  from Cons.IH [OF this] obtain k where "delete_EventLoops os ls s1 = Some (Inr (), s1\<lparr>kern := k,
    calls := calls s1 @ map CClose fs, event_loops := event_loops s1 |` (- set ls)\<rparr>)" by blast
  moreover have "(event_loops s)(l := None) |` (- set ls) = event_loops s |` (- set (l # ls))"
    by (auto simp: restrict_map_def fun_eq_iff)
  ultimately show ?case using del es(1) by (intro exI [of _ k]) (simp add: s1_def)
qed

text \<open>
  C28: The destructor of a server that was not started. It returns and closes what the constructor
  opened and nothing else: the epoll instance of every sub reactor, in order, then the acceptor's
  socket, and the epoll instance of the main reactor last. But the acceptor's descriptor, which its
  channel and its socket both own, is closed twice.
\<close>

theorem unstarted_server_closes_all:
  fixes s t :: "('k, 'z) server_scheme"
  assumes "opens_valid os" and "connections s = Map.empty"
    and "Server_init os inet_addr hw ip port s = Some (Inr u, t)"
  shows "\<exists>cs t' main listen es. calls t = calls s @ cs \<and> opened cs = main # listen # es \<and>
    length es = hw \<and> delete_Server os [] t = Some (Inr (), t') \<and>
    calls t' = calls t @ map CClose es @ [CClose listen, CClose listen, CClose main] \<and>
    event_loops t' (main_reactor t) = None \<and> (\<forall>l \<in> set (sub_reactors t). event_loops t' l = None)"
proof -
  from Server_init_opens [OF assms(1,3)] obtain cs es ch el where
    t: "opened cs = epfd el # acc_sock (the_acceptor t) # es" "calls t = calls s @ cs"
    "length (sub_reactors t) = hw" "loops_at t (sub_reactors t) es"
    "main_reactor t \<notin> set (sub_reactors t)" "event_loops t (main_reactor t) = Some el" "epfd el \<noteq> -1"
    "channels t (acc_channel (the_acceptor t)) = Some ch" "ch_fd ch = acc_sock (the_acceptor t)"
    "acc_sock (the_acceptor t) \<noteq> -1" "pool_tasks t = []" by blast
  let ?fd = "acc_sock (the_acceptor t)" and ?main = "main_reactor t"
  from delete_EventLoops_run [OF t(4), of os] obtain k where
    loops: "delete_EventLoops os (sub_reactors t) t = Some (Inr (), t\<lparr>kern := k,
      calls := calls t @ map CClose es, event_loops := event_loops t |` (- set (sub_reactors t))\<rparr>)" by blast
  define t1 where "t1 = t\<lparr>kern := k, calls := calls t @ map CClose es,
    event_loops := event_loops t |` (- set (sub_reactors t))\<rparr>"
  define t2 where "t2 = t1\<lparr>kern := sys_close os ?fd (sys_close os ?fd k),
    calls := calls t1 @ [CClose ?fd, CClose ?fd], channels := (channels t)(acc_channel (the_acceptor t) := None)\<rparr>"
  have acc: "delete_Acceptor os (the_acceptor t) t1 = Some (Inr (), t2)"
    using t(8-10) by (simp add: delete_Acceptor_def delete_Channel_def delete_Socket_def t1_def t2_def do_close_def)
  have "event_loops t2 ?main = Some el" using t(5,6) by (simp add: t2_def t1_def)
  note main = delete_EventLoop_run [OF this t(7), of os]
  have "length es = hw" using t(3,4) by (auto simp: loops_at_def dest: list_all2_lengthD)
  moreover have "delete_Server os [] t = Some (Inr (), t2\<lparr>kern := sys_close os (epfd el) (kern t2),
      calls := calls t2 @ [CClose (epfd el)], event_loops := (event_loops t2)(?main := None)\<rparr>)"
    using loops acc main t(11)
    by (simp add: delete_Server_def Server_destroy_loops_def join_pool_def t1_def) (simp add: t2_def t1_def)
  ultimately show ?thesis
    using t(1,2) by (intro exI [of _ cs] exI conjI) (auto simp: t2_def t1_def)
qed

section \<open>Loops in the pool\<close>

text \<open>The steps of a pool whose tasks never return.\<close>

definition looping_step :: "('e, 'r) label \<Rightarrow> ('e, 'r) pool \<Rightarrow> ('e, 'r) pool option" where
  "looping_step l s = (case l of LRun i \<Rightarrow> None | _ \<Rightarrow> pool_step l s)"

lemma looping_step_pool: "looping_step l s = Some t \<Longrightarrow> pool_step l s = Some t"
  by (cases l) (simp_all add: looping_step_def)

definition added :: "('e, 'r) label list \<Rightarrow> ('e, 'r) closure list" where
  "added ls = [f. LAdd f \<leftarrow> ls]"

lemma added_Cons: "added (l # ls) = (case l of LAdd f \<Rightarrow> [f] | _ \<Rightarrow> []) @ added ls"
  by (cases l) (simp_all add: added_def)

lemma looping_step_effect:
  assumes "looping_step l s = Some t"
  shows "finished t = finished s"
    and "packaged t = packaged s @ (if stop s then [] else added [l])"
  using looping_step_pool [OF assms] assms
  by (cases rule: pool_step_cases; auto simp: looping_step_def added_def notify_all_def)+

lemma looping_effect:
  assumes "exec looping_step ls s = Some t" and "\<not> stop t"
  shows "finished t = finished s \<and> packaged t = packaged s @ added ls \<and> \<not> stop s"
  using assms
proof (induction ls arbitrary: s)
  case (Cons l ls)
  from Cons.prems(1) obtain u where u: "looping_step l s = Some u" "exec looping_step ls u = Some t"
    by (rule exec_ConsE)
  have "\<not> stop s" using Cons.IH [OF u(2) Cons.prems(2)] stop_stays looping_step_pool [OF u(1)] by blast
  with Cons.IH [OF u(2) Cons.prems(2)] looping_step_effect [OF u(1)] show ?case
    by (simp add: added_Cons [of l ls] added_Cons [of l "[]"]) (simp add: added_def)
qed (simp add: added_def)

lemma starting_effect:
  assumes "exec starting_step ls s = Some t"
  shows "finished t = finished s \<and> packaged t = packaged s \<and> stop t = stop s"
proof (rule exec_relation [where P = "\<lambda>s. True" and step = starting_step and ls = ls, OF _ _ _ _ assms])
  fix l and s t :: "('a, 'b) pool"
  assume step: "starting_step l s = Some t"
  from starting_step_pool [OF step] step
  show "(finished t = finished s \<and> packaged t = packaged s \<and> stop t = stop s) \<and> True"
    by (cases rule: pool_step_cases) (auto simp: starting_step_def)
qed auto

text \<open>A pool all of whose workers are in a loop, and a destructor that has joined nobody.\<close>

definition all_looping :: "('e, 'r) pool \<Rightarrow> bool" where
  "all_looping s \<longleftrightarrow> threads s \<noteq> [] \<and> (\<forall>w \<in> set (threads s). \<exists>t. w = Running t) \<and>
     dtor s \<in> {Alive, StopSet, Joining 0}"

lemma all_looping_step: "all_looping s \<Longrightarrow> looping_step l s = Some t \<Longrightarrow> all_looping t"
proof -
  assume all: "all_looping s" and step: "looping_step l s = Some t"
  have "\<exists>t. w = Running t" if "worker_at i w s" for i w
    using all that unfolding all_looping_def worker_at_def by (metis nth_mem)
  then have not_at: "\<not> worker_at i AtTest s" "\<not> worker_at i Waiting s" "\<not> worker_at i Exited s" for i
    by blast+
  from looping_step_pool [OF step] step all not_at show ?thesis
    by (cases rule: pool_step_cases)
      (auto simp: looping_step_def all_looping_def notify_all_def wake_worker_def)
qed

lemma all_looping_stays: "all_looping s \<Longrightarrow> exec looping_step ls s = Some t \<Longrightarrow> dtor t \<noteq> Destroyed"
  using exec_invariant [of all_looping looping_step s ls t, OF all_looping_step]
  by (auto simp: all_looping_def)

text \<open>As many loops as workers: when no worker can take a task any more, each runs one of them.\<close>

lemma loops_settle:
  fixes q :: "('e, 'r) pool"
  assumes reach: "pool_reach (int n) e q" and "\<not> stop q" and "finished q = []"
    and "length (packaged q) = n" and "0 < n" and "task_queue q = []"
  shows "all_looping q" and "mset (map ((!) (packaged q)) (running (threads q))) = mset (packaged q)"
proof -
  have wf: "tickets_ok e q" "dtor_ok q" using reach_pool_wf [OF reach] by (simp_all add: pool_wf_def)
  have len: "length (threads q) = n" using reach_length [OF reach] by simp
  have run: "mset (running (threads q)) = mset [0..<n]"
    using wf(1) assms(3,4,6) by (simp add: tickets_ok_def)
  then have "length (running (threads q)) = n" using size_mset by (metis length_upt minus_nat.diff_0)
  then have "count_where (\<lambda>w. \<exists>t. w = Running t) (threads q) = length (threads q)"
    by (simp add: length_running len)
  from count_where_all [OF this] have "\<forall>w \<in> set (threads q). \<exists>t. w = Running t" by simp
  then show "all_looping q"
    using wf(2) assms(2,5) len by (auto simp: all_looping_def dtor_ok_def)
  have "mset (map ((!) (packaged q)) (running (threads q))) = mset (map ((!) (packaged q)) [0..<n])"
    using run by (metis mset_map)
  then show "mset (map ((!) (packaged q)) (running (threads q))) = mset (packaged q)"
    using map_nth [of "packaged q"] by (simp only: assms(4))
qed


end
