(* ===== verification/ReactorsWitnesses.thy ===== *)
theory ReactorsWitnesses
  imports Reactors ServerScript
begin

text \<open>
  The server of the scripted kernel with two sub reactors: destroyed before it is started, and its
  two loops in a pool of two workers.
\<close>

lemma script_opens_valid: "opens_valid script_os"
  by (auto simp: opens_valid_def)

theorem unstarted_server_closes_all_witness:
  "\<exists>t'. delete_Server script_os [] server_up = Some (Inr (), t') \<and>
     (\<exists>main listen es. opened (calls server_up) = main # listen # es \<and> length es = 2 \<and>
       calls t' = calls server_up @ map CClose es @ [CClose listen, CClose listen, CClose main])"
proof -
  have "connections (server_blank hello_script) = Map.empty" "calls (server_blank hello_script) = []"
    by (simp_all add: server_blank_def)
  with unstarted_server_closes_all [OF script_opens_valid _ server_up_run] show ?thesis by auto
qed

text \<open>A loop as a task: it would count the rounds; the runs here never let it return.\<close>

definition loop_task :: "nat \<Rightarrow> (nat, unit) closure" where
  "loop_task l = (\<lambda>n. (Inr (), Suc n))"

definition two_loops :: "(nat, unit) label list" where
  "two_loops = [LAdd (loop_task 2), LTest 1, LAdd (loop_task 3), LNotify None]"

definition looping_pool :: "(nat, unit) pool" where
  "looping_pool = \<lparr>threads = [AtTest, Running 0], task_queue = [1], stop = False,
     packaged = [loop_task 2, loop_task 3], futures = [None, None], env = 0, unnotified = 1,
     dtor = Alive, taken = [0], finished = []\<rparr>"

lemma two_loops_run: "exec looping_step two_loops (ThreadPool_init (int 2) 0) = Some looping_pool"
  by (simp add: two_loops_def looping_pool_def looping_step_def ThreadPool_init_def ThreadPool_Add_def
      worker_test_def worker_at_def wait_over_def dequeue_def enqueue_def someone_waits_def
      numeral_2_eq_2)

definition both_looping :: "(nat, unit) pool" where
  "both_looping = looping_pool\<lparr>threads := [Running 1, Running 0], task_queue := [], unnotified := 0,
     taken := [0, 1]\<rparr>"

lemma looping_pool_starts: "exec starting_step [LTest 0, LNotify None] looping_pool = Some both_looping"
  by (simp add: looping_pool_def both_looping_def starting_step_def worker_test_def worker_at_def
      wait_over_def dequeue_def someone_waits_def)

lemma both_looping_settled: "starting_step l both_looping = None"
proof (cases l)
  case (LNotify w)
  then show ?thesis by (cases w) (simp_all add: starting_step_def both_looping_def)
next
  case (LTest i)
  have "\<not> worker_at i AtTest both_looping"
    by (simp add: both_looping_def worker_at_def nth_Cons split: nat.splits)
  with LTest show ?thesis by (simp add: starting_step_def)
qed (simp_all add: starting_step_def)


end
