(* ===== verification/Clients.thy ===== *)
theory Clients
  imports EchoPair Reactors
begin

text \<open>
  The clients of \<open>src/test\<close>: the thread function of \<open>echo_multi_clients.cpp\<close> and the program
  \<open>echo_single_client.cpp\<close>. They use the same classes as the server, on a connection without a
  reactor. Nobody sets the delete callback of such a connection, so \<open>Close\<close> always throws; and as
  clients hold their objects by plain pointers, what an exception skips is never destroyed.
\<close>

section \<open>The clients\<close>

text \<open>\<open>msg.c_str()\<close> is this string, with a NUL behind it.\<close>

definition client_message :: "int \<Rightarrow> nat \<Rightarrow> string" where
  "client_message thread_id i =
     ''echo from client fd '' @ show_int thread_id @ '', count '' @ show_int (int i + 1)"

text \<open>
  The loop of \<open>ClientFunc\<close> from its round \<open>i\<close> on, with \<open>n\<close> rounds left. Time is not modelled, so
  neither is the \<open>sleep\<close> before it.
\<close>

fun client_rounds :: "'k os \<Rightarrow> nat \<Rightarrow> int \<Rightarrow> nat \<Rightarrow> nat \<Rightarrow> (('k, 'z) server_scheme, unit) cpp" where
  "client_rounds os p thread_id i 0 = ret ()"
| "client_rounds os p thread_id i (Suc n) =
     seqC (with_connection p (call_SetWriteBuffer (client_message thread_id i @ [NUL])))
    (seqC (with_connection p (Connection_Write os))
    (bindC (the_connection p) (\<lambda>c.
     if Connection_GetState c = Closed then Connection_Close os p
     else
       seqC (with_connection p (Connection_Read os))
      (bindC (the_connection p) (\<lambda>c.
       seqC (modify (print_out (before_nul (Connection_ReadBuffer c) @ endl)))
            (client_rounds os p thread_id (Suc i) n))))))"

definition ClientFunc :: "'k os \<Rightarrow> (string \<Rightarrow> 32 word) \<Rightarrow> nat \<Rightarrow> int \<Rightarrow>
    (('k, 'z) server_scheme, unit) cpp" where
  "ClientFunc os inet_addr num_msgs thread_id =
     bindC (new_Socket os) (\<lambda>fd.
     seqC (Socket_Connect_ip os inet_addr fd ''127.0.0.1'' 8000)
    (bindC (new_Connection os None fd) (\<lambda>p.
     seqC (client_rounds os p thread_id 0 num_msgs)
          (delete_Connection os p))))"

text \<open>
  A round of the interactive client, with the standard input as an argument: the input that is
  left, or \<open>None\<close> when the loop is left.
\<close>

definition chat_round :: "'k os \<Rightarrow> nat \<Rightarrow> string \<Rightarrow> (('k, 'z) server_scheme, string option) cpp" where
  "chat_round os p input =
     bindC (the_connection p) (\<lambda>c.
     seqC (set_connection p (\<lambda>c. fst (Connection_GetLineWriteBuffer input c)))
    (seqC (with_connection p (Connection_Write os))
    (bindC (the_connection p) (\<lambda>c1.
     if Connection_GetState c1 = Closed then
       seqC (Connection_Close os p)
      (seqC (modify (print_out (''connection closed'' @ endl))) (ret None))
     else
       seqC (with_connection p (Connection_Read os))
      (bindC (the_connection p) (\<lambda>c2.
       seqC (modify (print_out (''message from server: '' @ before_nul (Connection_ReadBuffer c2) @ endl)))
            (ret (Some (snd (Connection_GetLineWriteBuffer input c))))))))))"

partial_function (option) chat_loop :: "'k os \<Rightarrow> nat \<Rightarrow> string \<Rightarrow> ('k, 'z) server_scheme \<Rightarrow>
    ((fault + unit) \<times> ('k, 'z) server_scheme) option" where
  "chat_loop os p input s =
     (case chat_round os p input s of
        None \<Rightarrow> None
      | Some (r, t) \<Rightarrow>
          (case r of
             Inl e \<Rightarrow> Some (Inl e, t)
           | Inr left \<Rightarrow>
               (case left of
                  None \<Rightarrow> Some (Inr (), t)
                | Some rest \<Rightarrow> chat_loop os p rest t)))"

definition single_client :: "'k os \<Rightarrow> (string \<Rightarrow> 32 word) \<Rightarrow> string \<Rightarrow>
    (('k, 'z) server_scheme, unit) cpp" where
  "single_client os inet_addr input =
     bindC (new_Socket os) (\<lambda>fd.
     seqC (Socket_Connect_ip os inet_addr fd ''127.0.0.1'' 8000)
    (bindC (new_Connection os None fd) (\<lambda>p.
     seqC (chat_loop os p input)
    (seqC (delete_Socket os fd)
          (delete_Connection os p)))))"

section \<open>Operations on a client's connection\<close>

text \<open>
  \<open>used p cs c s t\<close>: from \<open>s\<close> to \<open>t\<close> the calls \<open>cs\<close> were made, and the connection at \<open>p\<close> became \<open>c\<close>,
  with the links it had; no other connection changed.
\<close>

definition used :: "nat \<Rightarrow> syscall list \<Rightarrow> connection \<Rightarrow> ('k, 'z) server_scheme \<Rightarrow>
    ('k, 'z) server_scheme \<Rightarrow> bool" where
  "used p cs c s t \<longleftrightarrow> calls t = calls s @ cs \<and> conns t = (conns s)(p \<mapsto> c) \<and>
     (\<exists>c0. conns s p = Some c0 \<and> same_links c0 c)"

lemma used_trans: "used p cs c s t \<Longrightarrow> used p ds d t u \<Longrightarrow> used p (cs @ ds) d s u"
  by (auto simp: used_def same_links_def)

lemma used_at: "used p cs c s t \<Longrightarrow> conns t p = Some c"
  by (simp add: used_def)

lemma used_refl: "conns s p = Some c \<Longrightarrow> used p [] c s s"
  by (auto simp: used_def)

lemma used_print: "used p cs c s t \<Longrightarrow> used p cs c s (print_out m t)"
  using world_more_fields(1) [of "print_out m t" t] by (simp add: used_def)

lemma used_local:
  assumes "local_step m" and "conns s p = Some c" and "m (c, s) = Some (r, (c', s'))"
    and "calls s' = calls s @ cs"
  shows "with_connection p m s = Some (r, s'\<lparr>conns := (conns s')(p \<mapsto> c')\<rparr>)"
    and "used p cs c' s (s'\<lparr>conns := (conns s')(p \<mapsto> c')\<rparr>)"
proof -
  have local: "same_links c c'" "world.more s' = world.more s"
    using assms(1,3) unfolding local_step_def by blast+
  show "with_connection p m s = Some (r, s'\<lparr>conns := (conns s')(p \<mapsto> c')\<rparr>)"
    using assms(2,3) by (simp add: with_connection_def)
  show "used p cs c' s (s'\<lparr>conns := (conns s')(p \<mapsto> c')\<rparr>)"
    using assms(2,4) local world_more_fields(1) [OF local(2)] by (simp add: used_def)
qed

lemma used_set_buffer:
  assumes "conns s p = Some c" and "nul_free m"
  obtains t where "with_connection p (call_SetWriteBuffer (m @ [NUL])) s = Some (Inr (), t)"
    "used p [] (c\<lparr>write_buffer := (write_buffer c)\<lparr>buf := m\<rparr>\<rparr>) s t"
  using assms by (simp add: with_connection_def call_SetWriteBuffer_at used_def)

text \<open>The sockets of a client are blocking: nothing makes them otherwise.\<close>

definition blocking_sockets :: "'k os \<Rightarrow> bool" where
  "blocking_sockets os \<longleftrightarrow> (\<forall>fd. blocking_fd os fd)"

lemma blocking_socketsD:
  assumes "blocking_sockets os"
  shows "\<not> Socket_IsNonBlocking os fd w" and "sys_rcvbuf os fd k < 2 ^ 31"
  using assms fd_modes unfolding blocking_sockets_def by metis+

text \<open>What a \<open>read\<close> or a \<open>write\<close> leaves of the state: an error closes.\<close>

fun failed :: "syscall \<Rightarrow> bool" where
  "failed (CRead fd n (SysErr e)) = True"
| "failed (CWrite fd bs (SysErr e)) = True"
| "failed c = False"

lemma used_write:
  assumes "blocking_sockets os" and "conns s p = Some c" and "cstate c = Connected"
  obtains r t c' where "with_connection p (Connection_Write os) s = Some (Inr (), t)"
    "used p [CWrite (sock c) (buf (write_buffer c)) r] c' s t"
    "cstate c' = (if failed (CWrite (sock c) (buf (write_buffer c)) r) then Closed else Connected)"
proof -
  from Write_blocking_spec [OF assms(3) blocking_socketsD(1) [OF assms(1)], of s] obtain r c' s' where
    run: "Connection_Write os (c, s) = Some (Inr (), (c', s'))"
      "calls s' = calls s @ [CWrite (sock c) (buf (write_buffer c)) r]"
      "cstate c' = (case r of SysOk n \<Rightarrow> Connected | SysErr e \<Rightarrow> Closed)" by blast
  show thesis
    by (rule that, rule used_local(1) [OF Write_local assms(2) run(1,2)],
        rule used_local(2) [OF Write_local assms(2) run(1,2)])
      (use run(3) in \<open>simp split: sysres.splits\<close>)
qed

lemma used_read:
  assumes "blocking_sockets os" and "read_bounded os" and "conns s p = Some c"
    and "cstate c = Connected"
  obtains n r t c' where "with_connection p (Connection_Read os) s = Some (Inr (), t)"
    "used p [CRead (sock c) n r] c' s t"
    "cstate c' = (if failed (CRead (sock c) n r) then Closed else Connected)"
proof -
  from Read_blocking_spec [OF assms(2,4) blocking_socketsD [OF assms(1)], of s] obtain r c' s' where
    run: "Connection_Read os (c, s) = Some (Inr (), (c', s'))"
      "calls s' = calls s @ [CRead (sock c) (sys_rcvbuf os (sock c) (kern s)) r]"
      "cstate c' = (case r of SysOk n \<Rightarrow> Connected | SysErr e \<Rightarrow> Closed)" by blast
  have "local_step (Connection_Read os)" by (rule Read_local [OF assms(2)])
  note l = used_local [OF this assms(3) run(1,2)]
  show thesis by (rule that, rule l(1), rule l(2)) (use run(3) in \<open>simp split: sysres.splits\<close>)
qed

section \<open>A run of \<open>ClientFunc\<close>\<close>

text \<open>What a stretch of calls offered to the socket \<open>fd\<close>, whole, and the descriptors it closed.\<close>

fun offered :: "int \<Rightarrow> syscall list \<Rightarrow> string list" where
  "offered fd [] = []"
| "offered fd (CWrite fd' bs r # cs) = (if fd' = fd then bs # offered fd cs else offered fd cs)"
| "offered fd (c # cs) = offered fd cs"

fun closes :: "syscall list \<Rightarrow> int list" where
  "closes [] = []"
| "closes (CClose fd # cs) = fd # closes cs"
| "closes (c # cs) = closes cs"

lemma offered_append [simp]: "offered fd (xs @ ys) = offered fd xs @ offered fd ys"
  by (induction fd xs rule: offered.induct) auto

lemma closes_append [simp]: "closes (xs @ ys) = closes xs @ closes ys"
  by (induction xs rule: closes.induct) auto

lemma nul_free_client_message [simp]: "nul_free (client_message thread_id i)"
  by (simp add: client_message_def)

text \<open>
  How the loop ends: with all messages offered, or by the exception of \<open>Close\<close> behind the call that
  failed.
\<close>

definition rounds_end :: "int \<Rightarrow> int \<Rightarrow> nat \<Rightarrow> nat \<Rightarrow> syscall list \<Rightarrow> fault + unit \<Rightarrow> connection \<Rightarrow> bool" where
  "rounds_end fd thread_id i n cs r c \<longleftrightarrow>
     (\<exists>k \<le> n. offered fd cs = map (client_message thread_id) [i..<i + k] \<and> closes cs = [] \<and>
        (r = Inr () \<and> k = n \<or>
         r = Inl BadFunctionCall \<and> cstate c = Closed \<and> cs \<noteq> [] \<and> failed (last cs)))"

lemma client_rounds_closed:
  assumes "conns s p = Some c" and "cstate c = Closed" and "delete_connection_callback c = None"
  obtains t c' where "client_rounds os p thread_id i n s = Some (if n = 0 then Inr () else Inl BadFunctionCall, t)"
    "used p [] c' s t" "cstate c' = Closed"
proof (cases n)
  case 0
  then show thesis using that [of s c] assms by (simp add: used_refl)
next
  case (Suc m)
  let ?c = "c\<lparr>write_buffer := (write_buffer c)\<lparr>buf := client_message thread_id i\<rparr>\<rparr>"
  obtain t where t: "with_connection p (call_SetWriteBuffer (client_message thread_id i @ [NUL])) s = Some (Inr (), t)"
    "used p [] ?c s t"
    by (rule used_set_buffer [OF assms(1) nul_free_client_message])
  note c = used_at [OF t(2)]
  have off: "Connection_Write os (?c, t) = Some (Inr (), (?c, print_out (''connection is disconnected'' @ endl) t))"
    using assms(2) by (simp add: Connection_Write_def)
  have "calls (print_out (''connection is disconnected'' @ endl) t) = calls t @ []" by simp
  note w = used_local [OF Write_local c off this]
  obtain v where v: "with_connection p (Connection_Write os) t = Some (Inr (), v)" "used p [] ?c s v"
    using w(1) used_trans [OF t(2) w(2)] by simp
  have "Connection_Close os p v = Some (Inl BadFunctionCall, v)"
    using used_at [OF v(2)] assms(3) by (simp add: Connection_Close_def the_connection_run)
  then have "client_rounds os p thread_id i n s = Some (Inl BadFunctionCall, v)"
    using assms(2) t(1) v(1) used_at [OF v(2)] Suc by (simp add: the_connection_run)
  then show thesis using that [OF _ v(2)] assms(2) Suc by simp
qed

lemma used_links: "used p cs c s t \<Longrightarrow> conns s p = Some c0 \<Longrightarrow> same_links c0 c"
  by (auto simp: used_def)

lemma rounds_end_Suc:
  assumes "rounds_end fd thread_id (Suc i) n cs r c"
  shows "rounds_end fd thread_id i (Suc n)
    (CWrite fd (client_message thread_id i) (SysOk b) # CRead fd m x # cs) r c"
proof -
  from assms(1) obtain k where k: "k \<le> n"
    "offered fd cs = map (client_message thread_id) [Suc i..<Suc i + k]" "closes cs = []"
    "r = Inr () \<and> k = n \<or> r = Inl BadFunctionCall \<and> cstate c = Closed \<and> cs \<noteq> [] \<and> failed (last cs)"
    unfolding rounds_end_def by blast
  have "[i..<i + Suc k] = i # [Suc i..<Suc i + k]" by (simp add: upt_rec)
  with k show ?thesis
    unfolding rounds_end_def by (intro exI [of _ "Suc k"]) auto
qed

text \<open>A round of a connected client: the \<open>write\<close> fails, or it is answered by a \<open>read\<close>.\<close>

lemma client_round:
  assumes "blocking_sockets os" and "read_bounded os"
    and c: "conns s p = Some c" "cstate c = Connected" "delete_connection_callback c = None"
  obtains (broken) e t c' where
      "client_rounds os p thread_id i (Suc n) s = Some (Inl BadFunctionCall, t)"
      "used p [CWrite (sock c) (client_message thread_id i) (SysErr e)] c' s t" "cstate c' = Closed"
  | (answered) b m r t c' where
      "client_rounds os p thread_id i (Suc n) s = client_rounds os p thread_id (Suc i) n t"
      "used p [CWrite (sock c) (client_message thread_id i) (SysOk b), CRead (sock c) m r] c' s t"
      "cstate c' = (if failed (CRead (sock c) m r) then Closed else Connected)"
proof -
  let ?m = "client_message thread_id i"
  obtain t where t: "with_connection p (call_SetWriteBuffer (?m @ [NUL])) s = Some (Inr (), t)"
    "used p [] (c\<lparr>write_buffer := (write_buffer c)\<lparr>buf := ?m\<rparr>\<rparr>) s t"
    by (rule used_set_buffer [OF c(1) nul_free_client_message])
  obtain r1 u c1 where u: "with_connection p (Connection_Write os) t = Some (Inr (), u)"
    and u2: "used p [CWrite (sock c) ?m r1] c1 t u"
    and c1: "cstate c1 = (if failed (CWrite (sock c) ?m r1) then Closed else Connected)"
    by (rule used_write [OF assms(1) used_at [OF t(2)], simplified, OF c(2)])
  note su = used_trans [OF t(2) u2, simplified]
  have links: "delete_connection_callback c1 = None" "sock c1 = sock c"
    using used_links [OF su c(1)] c(3) by (simp_all add: same_links_def)
  show thesis
  proof (cases r1)
    case (SysErr e)
    have "Connection_Close os p u = Some (Inl BadFunctionCall, u)"
      using used_at [OF u2] links(1) by (simp add: Connection_Close_def the_connection_run)
    then have "client_rounds os p thread_id i (Suc n) s = Some (Inl BadFunctionCall, u)"
      using t(1) u used_at [OF u2] c1 SysErr by (simp add: the_connection_run)
    then show thesis using broken su c1 SysErr by simp
  next
    case (SysOk b)
    then have con: "cstate c1 = Connected" using c1 by simp
    obtain m r2 v c2 where
      v: "with_connection p (Connection_Read os) u = Some (Inr (), v)" and
      v2: "used p [CRead (sock c) m r2] c2 u v" and
      c2: "cstate c2 = (if failed (CRead (sock c) m r2) then Closed else Connected)"
      by (rule used_read [OF assms(1,2) used_at [OF u2] con, unfolded links(2)])
    have "client_rounds os p thread_id i (Suc n) s = client_rounds os p thread_id (Suc i) n
        (print_out (before_nul (Connection_ReadBuffer c2) @ endl) v)"
      using t(1) u v used_at [OF u2] used_at [OF v2] con by (simp add: the_connection_run)
    moreover have "used p [CWrite (sock c) ?m (SysOk b), CRead (sock c) m r2] c2 s
        (print_out (before_nul (Connection_ReadBuffer c2) @ endl) v)"
      using used_print [OF used_trans [OF su v2]] SysOk by simp
    ultimately show thesis using answered c2 by blast
  qed
qed

lemma client_rounds_run:
  assumes "blocking_sockets os" and "read_bounded os"
    and "conns s p = Some c" and "cstate c = Connected" and "delete_connection_callback c = None"
  shows "\<exists>r t cs c'. client_rounds os p thread_id i n s = Some (r, t) \<and> used p cs c' s t \<and>
    rounds_end (sock c) thread_id i n cs r c'"
  using assms(3-5)
proof (induction n arbitrary: s c i)
  case 0
  then show ?case
    by (intro exI [of _ "Inr ()"] exI [of _ s] exI [of _ "[]"] exI [of _ c])
      (simp add: used_refl rounds_end_def)
next
  case (Suc n)
  show ?case
  proof (cases rule: client_round [OF assms(1,2) Suc.prems, of thread_id i n])
    case (1 e t c')
    have "rounds_end (sock c) thread_id i (Suc n) [CWrite (sock c) (client_message thread_id i) (SysErr e)]
        (Inl BadFunctionCall) c'"
      using 1(3) unfolding rounds_end_def by (intro exI [of _ 1]) simp
    with 1(1,2) show ?thesis by blast
  next
    case (2 b m r t c')
    have links: "delete_connection_callback c' = None" "sock c' = sock c"
      using used_links [OF 2(2) Suc.prems(1)] Suc.prems(3) by (simp_all add: same_links_def)
    show ?thesis
    proof (cases "cstate c' = Connected")
      case True
      from Suc.IH [OF used_at [OF 2(2)] True links(1), of "Suc i"] obtain x u cs c2 where
        u: "client_rounds os p thread_id (Suc i) n t = Some (x, u)" "used p cs c2 t u"
          "rounds_end (sock c) thread_id (Suc i) n cs x c2" unfolding links(2) by blast
      with rounds_end_Suc [OF u(3), of b m r] used_trans [OF 2(2) u(2)] 2(1) show ?thesis
        by (auto simp del: client_rounds.simps)
    next
      case False
      then have fail: "cstate c' = Closed" "failed (CRead (sock c) m r)"
        using 2(3) by (simp_all split: if_splits)
      obtain u c2 where u: "client_rounds os p thread_id (Suc i) n t =
          Some (if n = 0 then Inr () else Inl BadFunctionCall, u)" "used p [] c2 t u" "cstate c2 = Closed"
        by (rule client_rounds_closed [OF used_at [OF 2(2)] fail(1) links(1)])
      have "rounds_end (sock c) thread_id i (Suc n)
          [CWrite (sock c) (client_message thread_id i) (SysOk b), CRead (sock c) m r]
          (if n = 0 then Inr () else Inl BadFunctionCall) c2"
        using u(3) fail(2) unfolding rounds_end_def by (intro exI [of _ 1]) auto
      with used_trans [OF 2(2) u(2), simplified] u(1) 2(1) show ?thesis by metis
    qed
  qed
qed

section \<open>Opening and closing\<close>

text \<open>
  \<open>Connect\<close> on a blocking socket is one call. A connection without a reactor is an object and a
  socket that nobody closes; destroying it closes the descriptor it was given.
\<close>

lemma Connect_blocking:
  assumes "blocking_sockets os"
  obtains r t where "calls t = calls s @ [CConnect fd (addr (InetAddress_make inet_addr ip port)) r]"
    "world.more t = world.more s"
    "Socket_Connect_ip os inet_addr fd ip port s =
       Some (case r of SysOk u \<Rightarrow> Inr () | SysErr e \<Rightarrow> Inl (RuntimeError ''socket connect error''), t)"
proof -
  obtain r t where c: "do_connect os fd (addr (InetAddress_make inet_addr ip port)) s = (r, t)" by force
  then have "calls t = calls s @ [CConnect fd (addr (InetAddress_make inet_addr ip port)) r]"
    "world.more t = world.more s"
    unfolding do_connect_def by (auto dest: syscall_frame)
  then show thesis
    using that [of t r] c blocking_socketsD(1) [OF assms, of fd s]
    by (auto simp: Socket_Connect_ip_def Socket_Connect_def InetAddress_GetAddr_def split: sysres.splits)
qed

lemma new_Socket_cases:
  obtains e t where "new_Socket os s = Some (Inl (RuntimeError ''socket create error''), t)"
      "calls t = calls s @ [CSocket (SysErr e)]" "world.more t = world.more s"
  | fd k t where "new_Socket os s = Some (Inr fd, t)" "calls t = calls s @ [CSocket (SysOk fd)]"
      "world.more t = world.more s" "sys_socket os k = (SysOk fd, kern t)"
proof -
  obtain r t where c: "do_socket os s = (r, t)" by force
  then have t: "calls t = calls s @ [CSocket r]" "world.more t = world.more s"
      "sys_socket os (kern s) = (r, kern t)"
    unfolding do_socket_def by (auto dest: syscall_frame)
  show thesis
  proof (cases r)
    case (SysOk fd)
    with c t show thesis using that(2) [of fd t "kern s"] by (simp add: new_Socket_def total_def)
  next
    case (SysErr e)
    with c t show thesis using that(1) [of t e] by (simp add: new_Socket_def total_def)
  qed
qed

definition client_connection :: "int \<Rightarrow> connection" where
  "client_connection fd = \<lparr>read_buffer = Buffer_init, write_buffer = Buffer_init, sock = fd,
     conn_channel = None, delete_connection_callback = None, on_connect_callback = None,
     on_message_callback = None, cstate = Connected\<rparr>"

lemma new_client_connection:
  fixes s :: "('k, 'z) server_scheme"
  assumes "new_Socket os s = Some (Inr own, t)" and "world.more t = world.more s"
  obtains u where "new_Connection os None fd s = Some (Inr (next_ptr s), u)"
    "calls u = calls t" "conns u = (conns s)(next_ptr s \<mapsto> client_connection fd)"
  using assms(1) world_more_fields [OF assms(2)]
  by (simp add: new_Connection_def client_connection_def)

lemma delete_client_connection:
  fixes s :: "('k, 'z) server_scheme"
  assumes "conns s p = Some c" and "conn_channel c = None" and "sock c \<noteq> -1"
  obtains t where "delete_Connection os p s = Some (Inr (), t)"
    "calls t = calls s @ [CClose (sock c)]" "conns t = (conns s)(p := None)"
proof -
  have "conns (do_close os (sock c) s) = conns s"
    by (rule world_more_fields(1)) simp
  with assms show thesis
    using that by (simp add: delete_Connection_def delete_Socket_def the_connection_run)
qed

text \<open>How both clients begin.\<close>

lemma client_opening:
  fixes s :: "('k, 'z) server_scheme" and body :: "int \<Rightarrow> nat \<Rightarrow> (('k, 'z) server_scheme, unit) cpp"
    and inet_addr :: "string \<Rightarrow> 32 word" and ip :: string and port :: "16 word"
  assumes "blocking_sockets os" and "opens_valid os"
  defines "client \<equiv> bindC (new_Socket os) (\<lambda>fd.
    seqC (Socket_Connect_ip os inet_addr fd ip port) (bindC (new_Connection os None fd) (body fd)))"
  obtains (refused) e t cs where "client s = Some (Inl (RuntimeError e), t)" "conns t = conns s"
      "calls t = calls s @ cs" "\<forall>fd. offered fd cs = []" "closes cs = []"
  | (connected) fd t cs where "client s = body fd (next_ptr s) t" "fd \<noteq> -1"
      "conns t = (conns s)(next_ptr s \<mapsto> client_connection fd)"
      "calls t = calls s @ cs" "\<forall>fd. offered fd cs = []" "closes cs = []"
proof (cases rule: new_Socket_cases [of os s])
  case (1 e t)
  show thesis
    by (rule refused [of _ t "[CSocket (SysErr e)]"]) (use 1 world_more_fields(1) [OF 1(3)] in \<open>simp_all add: client_def\<close>)
next
  case (2 fd k t)
  then have fd: "fd \<noteq> -1" using assms(2) unfolding opens_valid_def by blast
  obtain r t1 where con:
    "calls t1 = calls t @ [CConnect fd (addr (InetAddress_make inet_addr ip port)) r]"
    "world.more t1 = world.more t"
    "Socket_Connect_ip os inet_addr fd ip port t =
       Some (case r of SysOk u \<Rightarrow> Inr () | SysErr e \<Rightarrow> Inl (RuntimeError ''socket connect error''), t1)"
    by (rule Connect_blocking [OF assms(1)])
  note same = world_more_fields [OF trans [OF con(2) 2(3)]]
  show thesis
  proof (cases r)
    case (SysErr e)
    show thesis
      by (rule refused [of _ t1 "[CSocket (SysOk fd),
          CConnect fd (addr (InetAddress_make inet_addr ip port)) r]"])
        (use 2 con same SysErr in \<open>simp_all add: client_def\<close>)
  next
    case (SysOk u)
    then have to: "client s = bindC (new_Connection os None fd) (body fd) t1"
      using 2 con by (simp add: client_def)
    show thesis
    proof (cases rule: new_Socket_cases [of os t1])
      case (1 e t2)
      show thesis
        by (rule refused [of _ t2 "[CSocket (SysOk fd),
            CConnect fd (addr (InetAddress_make inet_addr ip port)) r, CSocket (SysErr e)]"])
          (use 1 2 con same world_more_fields(1) [OF 1(3)] in \<open>simp_all add: to new_Connection_def\<close>)
    next
      case own: (2 own k2 t2)
      obtain t3 where "new_Connection os None fd t1 = Some (Inr (next_ptr t1), t3)"
        "calls t3 = calls t2" "conns t3 = (conns t1)(next_ptr t1 \<mapsto> client_connection fd)"
        by (rule new_client_connection [OF own(1,3)])
      with own 2 con same show thesis
        by (intro connected [of fd t3 "[CSocket (SysOk fd),
            CConnect fd (addr (InetAddress_make inet_addr ip port)) r, CSocket (SysOk own)]", OF _ fd]) (simp_all add: to)
    qed
  qed
qed


section \<open>The interactive client\<close>

text \<open>
  \<open>main\<close> of the interactive client has statements behind its loop, and never comes to them: the one
  way out of the loop is \<open>Close\<close>, which throws.
\<close>

definition client_state :: "nat \<Rightarrow> ('k, 'z) server_scheme \<Rightarrow> bool" where
  "client_state p s \<longleftrightarrow> (\<exists>c. conns s p = Some c \<and> delete_connection_callback c = None)"

lemma client_state_print [simp]: "client_state p (print_out m s) = client_state p s"
  using world_more_fields(1) [of "print_out m s" s] by (simp add: client_state_def)

lemma client_state_local:
  assumes "local_step m" and "client_state p s" and "with_connection p m s = Some (r, t)"
  shows "client_state p t"
proof -
  from assms(2) obtain c where c: "conns s p = Some c" "delete_connection_callback c = None"
    unfolding client_state_def by blast
  with assms(3) obtain c' s' where m: "m (c, s) = Some (r, (c', s'))" "t = s'\<lparr>conns := (conns s')(p \<mapsto> c')\<rparr>"
    by (auto simp: with_connection_def split: option.splits prod.splits)
  with assms(1) have "same_links c c'" unfolding local_step_def by blast
  with m c show ?thesis by (simp add: client_state_def same_links_def)
qed

lemma chat_round_returns:
  assumes "read_bounded os" and "client_state p s" and "chat_round os p input s = Some (Inr left, t)"
  shows "client_state p t \<and> left \<noteq> None"
proof -
  from assms(2) obtain c where c: "conns s p = Some c" "delete_connection_callback c = None"
    unfolding client_state_def by blast
  define s1 where "s1 = s\<lparr>conns := (conns s)(p \<mapsto> fst (Connection_GetLineWriteBuffer input c))\<rparr>"
  have s1: "client_state p s1"
    using c(2) by (simp add: s1_def client_state_def Connection_GetLineWriteBuffer_def split: prod.splits)
  have set: "set_connection p (\<lambda>c. fst (Connection_GetLineWriteBuffer input c)) s = Some (Inr (), s1)"
    by (simp add: set_connection_run [OF c(1)] s1_def)
  from assms(3) obtain s2 c2 where
    s2: "with_connection p (Connection_Write os) s1 = Some (Inr (), s2)"
      "the_connection p s2 = Some (Inr c2, s2)" and
    rest: "(if Connection_GetState c2 = Closed then
       seqC (Connection_Close os p) (seqC (modify (print_out (''connection closed'' @ endl))) (ret None))
     else seqC (with_connection p (Connection_Read os)) (bindC (the_connection p) (\<lambda>c2.
       seqC (modify (print_out (''message from server: '' @ before_nul (Connection_ReadBuffer c2) @ endl)))
            (ret (Some (snd (Connection_GetLineWriteBuffer input c))))))) s2 = Some (Inr left, t)"
    unfolding chat_round_def bindC_at(3) [where m = "the_connection p", OF the_connection_run [OF c(1)]]
      seqC_at(3) [where m = "set_connection p f" for f, OF set]
    by (auto simp: bindC_returns seqC_returns the_connection_def split: option.splits)
  have state2: "client_state p s2" by (rule client_state_local [OF Write_local s1 s2(1)])
  then have "Connection_Close os p s2 = Some (Inl BadFunctionCall, s2)"
    by (auto simp: client_state_def Connection_Close_def the_connection_run)
  with rest obtain s3 c3 where s3: "with_connection p (Connection_Read os) s2 = Some (Inr (), s3)"
    "the_connection p s3 = Some (Inr c3, s3)"
    "left = Some (snd (Connection_GetLineWriteBuffer input c))"
    "t = print_out (''message from server: '' @ before_nul (Connection_ReadBuffer c3) @ endl) s3"
    by (auto simp: bindC_returns seqC_returns the_connection_def split: if_splits option.splits)
  have "client_state p s3"
    by (rule client_state_local [OF Read_local [OF assms(1)] state2 s3(1)])
  with s3(3,4) show ?thesis by simp
qed

lemma chat_loop_throws:
  assumes "chat_loop os p input s = Some y" and "read_bounded os" and "client_state p s"
  shows "\<exists>e. fst y = Inl e"
proof -
  have "read_bounded os \<longrightarrow> client_state p s \<longrightarrow> (\<exists>e. fst y = Inl e)"
  proof (rule chat_loop.raw_induct
      [where P = "\<lambda>os p input s y. read_bounded os \<longrightarrow> client_state p s \<longrightarrow> (\<exists>e. fst y = Inl e)",
       OF _ assms(1)], intro impI)
    fix loop and os :: "'a os" and p input and s :: "('a, 'b) server_scheme" and y
    assume IH: "\<And>os p input s y. loop os p input s = Some y \<Longrightarrow>
        read_bounded os \<longrightarrow> client_state p s \<longrightarrow> (\<exists>e. fst y = Inl e)"
      and eq: "(case chat_round os p input s of None \<Rightarrow> None
         | Some (r, t) \<Rightarrow> (case r of Inl e \<Rightarrow> Some (Inl e, t)
             | Inr left \<Rightarrow> (case left of None \<Rightarrow> Some (Inr (), t) | Some rest \<Rightarrow> loop os p rest t))) = Some y"
      and os: "read_bounded os" and state: "client_state p s"
    show "\<exists>e. fst y = Inl e"
    proof (cases "\<exists>rest t. chat_round os p input s = Some (Inr (Some rest), t)")
      case True
      then obtain rest t where run: "chat_round os p input s = Some (Inr (Some rest), t)" by blast
      with eq have "loop os p rest t = Some y" by simp
      from IH [OF this] os chat_round_returns [OF os state run] show ?thesis by simp
    next
      case False
      with eq show ?thesis
        by (auto split: option.splits prod.splits sum.splits dest: chat_round_returns [OF os state])
    qed
  qed
  with assms(2,3) show ?thesis by blast
qed

lemma single_client_throws:
  fixes s :: "('k, 'z) server_scheme"
  assumes "blocking_sockets os" and "read_bounded os" and "opens_valid os"
    and "single_client os inet_addr input s = Some (r, t)"
  shows "\<exists>e. r = Inl e"
proof (cases rule: client_opening [OF assms(1,3), of inet_addr "''127.0.0.1''" 8000
    "\<lambda>fd p. seqC (chat_loop os p input) (seqC (delete_Socket os fd) (delete_Connection os p))" s,
    folded single_client_def])
  case (1 e u cs)
  with assms(4) show ?thesis by auto
next
  case (2 fd u cs)
  then have "client_state (next_ptr s) u" by (simp add: client_state_def client_connection_def)
  note throws = chat_loop_throws [OF _ assms(2) this]
  show ?thesis
  proof (cases "chat_loop os (next_ptr s) input u")
    case (Some y)
    from throws [OF this] Some 2(1) assms(4) show ?thesis by (cases y) auto
  qed (use 2(1) assms(4) in simp)
qed

end
