(* ===== verification/ClientsWitnesses.thy ===== *)
theory ClientsWitnesses
  imports Clients ServerScript
begin

text \<open>
  A client on the scripted kernel, with blocking sockets: the server answers its first message, and
  its second cannot be sent.
\<close>

definition blocking_os :: "script os" where
  "blocking_os = script_os\<lparr>sys_getfl := (\<lambda>fd k. 0)\<rparr>"

lemma blocking_os_fields [simp]:
  "sys_getfl blocking_os fd k = 0" "sys_rcvbuf blocking_os fd k = 8192"
  "sys_socket blocking_os k = (SysOk (int (sk_next k)), k\<lparr>sk_next := sk_next k + 1\<rparr>)"
  "sys_connect blocking_os fd a k = (SysOk (), k)"
  "sys_read blocking_os = script_read" "sys_write blocking_os = script_write"
  "sys_epoll_create blocking_os k = (SysOk (int (sk_next k)), k\<lparr>sk_next := sk_next k + 1\<rparr>)"
  by (simp_all add: blocking_os_def script_os_def)

lemma blocking_os_contracts: "blocking_sockets blocking_os" "read_bounded blocking_os" "opens_valid blocking_os"
  using script_read_bounded
  by (auto simp: blocking_sockets_def blocking_fd_def read_bounded_def opens_valid_def)

definition one_answer :: script where
  "one_answer = script0\<lparr>sk_writes := [SysOk 99, SysErr (EOTHER 104)], sk_reads := [SysOk ''ok'']\<rparr>"

lemma ok_append: "Buffer_Append_sized ''ok'' 2 b = Inr (b\<lparr>buf := buf b @ ''ok''\<rparr>)"
  using Buffer_Append_sized_eq [of 2 "''ok''" b] by simp

lemma set_message:
  "call_SetWriteBuffer (client_message i n @ [NUL]) (c, w) =
     Some (Inr (), (c\<lparr>write_buffer := (write_buffer c)\<lparr>buf := client_message i n\<rparr>\<rparr>, w))"
  by (rule call_SetWriteBuffer_at) simp

lemma conns_print: "conns (print_out m s) = conns s"
  by (rule world_more_fields(1)) simp

text \<open>The first round goes well, the second ends the client.\<close>

lemma message_set:
  "conns s p = Some c \<Longrightarrow>
   \<exists>t c'. with_connection p (call_SetWriteBuffer (client_message i k @ [NUL])) s = Some (Inr (), t) \<and>
     conns t p = Some c' \<and> kern t = kern s \<and> cstate c' = cstate c \<and>
     delete_connection_callback c' = delete_connection_callback c"
  by (simp add: with_connection_def set_message)

lemma message_written:
  fixes s :: "script server"
  assumes "conns s p = Some c" and "cstate c = Connected" and "sk_writes (kern s) = r # ws"
  shows "\<exists>t c'. with_connection p (Connection_Write blocking_os) s = Some (Inr (), t) \<and>
    conns t p = Some c' \<and> sk_writes (kern t) = ws \<and> sk_reads (kern t) = sk_reads (kern s) \<and>
    cstate c' = (case r of SysOk n \<Rightarrow> Connected | SysErr e \<Rightarrow> Closed) \<and>
    delete_connection_callback c' = delete_connection_callback c"
  using assms
  by (cases r) (simp_all add: with_connection_def Connection_Write_def Connection_WriteBlocking_def
      do_write_def syscall_def script_write_def Socket_IsNonBlocking_def conns_print)

lemma answer_read:
  fixes s :: "script server"
  assumes "conns s p = Some c" and "cstate c = Connected" and "sk_reads (kern s) = SysOk ''ok'' # rs"
  shows "\<exists>t c'. with_connection p (Connection_Read blocking_os) s = Some (Inr (), t) \<and>
    conns t p = Some c' \<and> sk_writes (kern t) = sk_writes (kern s) \<and>
    cstate c' = Connected \<and> delete_connection_callback c' = delete_connection_callback c"
  using assms
  by (simp add: with_connection_def Connection_Read_def Connection_ReadBlocking_def Let_def
      do_read_def syscall_def script_read_def Socket_IsNonBlocking_def ok_append
      to_int32_of_nat [of 2, simplified])

lemma round_answered:
  fixes s :: "script server"
  assumes "conns s p = Some c" and "cstate c = Connected" and "delete_connection_callback c = None"
    and "sk_writes (kern s) = SysOk 99 # ws" and "sk_reads (kern s) = SysOk ''ok'' # rs"
  shows "\<exists>t c'. client_rounds blocking_os p i k (Suc n) s = client_rounds blocking_os p i (Suc k) n t \<and>
    conns t p = Some c' \<and> cstate c' = Connected \<and> delete_connection_callback c' = None \<and>
    sk_writes (kern t) = ws"
proof -
  from message_set [OF assms(1), of i k] assms obtain s1 c1 where
    s1: "with_connection p (call_SetWriteBuffer (client_message i k @ [NUL])) s = Some (Inr (), s1)"
      "conns s1 p = Some c1" "kern s1 = kern s" "cstate c1 = Connected"
      "delete_connection_callback c1 = None" by auto
  from message_written [OF s1(2,4), of "SysOk 99" ws] s1(3,5) assms(4,5) obtain s2 c2 where
    s2: "with_connection p (Connection_Write blocking_os) s1 = Some (Inr (), s2)" "conns s2 p = Some c2"
      "sk_writes (kern s2) = ws" "sk_reads (kern s2) = SysOk ''ok'' # rs" "cstate c2 = Connected"
      "delete_connection_callback c2 = None" by auto
  from answer_read [OF s2(2,5,4)] s2(3,6) obtain s3 c3 where
    s3: "with_connection p (Connection_Read blocking_os) s2 = Some (Inr (), s3)" "conns s3 p = Some c3"
      "sk_writes (kern s3) = ws" "cstate c3 = Connected" "delete_connection_callback c3 = None" by auto
  have "client_rounds blocking_os p i k (Suc n) s = client_rounds blocking_os p i (Suc k) n
      (print_out (before_nul (Connection_ReadBuffer c3) @ endl) s3)"
    using s1 s2 s3 by (simp add: the_connection_run)
  with s3 show ?thesis by (metis conns_print print_out_frame(1))
qed

lemma round_refused:
  fixes s :: "script server"
  assumes "conns s p = Some c" and "cstate c = Connected" and "delete_connection_callback c = None"
    and "sk_writes (kern s) = SysErr e # ws"
  shows "\<exists>t. client_rounds blocking_os p i k (Suc n) s = Some (Inl BadFunctionCall, t)"
proof -
  from message_set [OF assms(1), of i k] assms obtain s1 c1 where
    s1: "with_connection p (call_SetWriteBuffer (client_message i k @ [NUL])) s = Some (Inr (), s1)"
      "conns s1 p = Some c1" "kern s1 = kern s" "cstate c1 = Connected"
      "delete_connection_callback c1 = None" by auto
  from message_written [OF s1(2,4), of "SysErr e" ws] s1(3,5) assms(4) obtain s2 c2 where
    "with_connection p (Connection_Write blocking_os) s1 = Some (Inr (), s2)" "conns s2 p = Some c2"
      "cstate c2 = Closed" "delete_connection_callback c2 = None" by auto
  with s1(1) show ?thesis by (simp add: the_connection_run Connection_Close_def)
qed

lemma client_run:
  "\<exists>t. ClientFunc blocking_os loopback 3 7 (server_blank one_answer) = Some (Inl BadFunctionCall, t)"
proof -
  let ?k = "one_answer\<lparr>sk_next := 5\<rparr>"
  obtain s where s: "ClientFunc blocking_os loopback 3 7 (server_blank one_answer) =
      seqC (client_rounds blocking_os 0 7 0 3) (delete_Connection blocking_os 0) s"
    "conns s 0 = Some (client_connection 3)" "kern s = ?k"
    by (simp add: ClientFunc_def new_Socket_def total_def do_defs Socket_Connect_ip_def
      Socket_Connect_def Socket_IsNonBlocking_def new_Connection_def server_blank_def
      client_connection_def one_answer_def script0_def)
  have c: "cstate (client_connection 3) = Connected" "delete_connection_callback (client_connection 3) = None"
    "sk_writes (kern s) = [SysOk 99, SysErr (EOTHER 104)]" "sk_reads (kern s) = [SysOk ''ok'']"
    by (simp_all add: s(3) client_connection_def one_answer_def)
  from round_answered [OF s(2) c, of 7 0 2] obtain t c' where
    t: "client_rounds blocking_os 0 7 0 3 s = client_rounds blocking_os 0 7 (Suc 0) 2 t"
      "conns t 0 = Some c'" "cstate c' = Connected" "delete_connection_callback c' = None"
      "sk_writes (kern t) = [SysErr (EOTHER 104)]" by (auto simp: numeral_3_eq_3)
  from round_refused [OF t(2-5), of 7 "Suc 0" 1] t(1) s(1) show ?thesis
    by (auto simp: numeral_2_eq_2)
qed


end
