(* ===== verification/HttpData.thy ===== *)
theory HttpData
  imports Prelude
begin

text \<open>
  The data of the HTTP layer: the enumerations of \<open>http_class.h\<close>, the tables of \<open>http_enums.h\<close>,
  \<open>MimeTypes\<close> of \<open>http_class.cpp\<close>, and the icon \<open>http_class.h\<close> carries.
\<close>

section \<open>Enumerations of the parser\<close>

datatype process_state =
    STATE_PARSE_URI | STATE_PARSE_HEADERS | STATE_RECV_BODY | STATE_ANALYSIS | STATE_FINISH

fun process_state_code :: "process_state \<Rightarrow> int" where
  "process_state_code STATE_PARSE_URI = 1"
| "process_state_code STATE_PARSE_HEADERS = 2"
| "process_state_code STATE_RECV_BODY = 3"
| "process_state_code STATE_ANALYSIS = 4"
| "process_state_code STATE_FINISH = 5"

datatype uri_state = PARSE_URI_SUCCESS | PARSE_URI_ERROR

fun uri_state_code :: "uri_state \<Rightarrow> int" where
  "uri_state_code PARSE_URI_SUCCESS = 1"
| "uri_state_code PARSE_URI_ERROR = 2"

datatype header_state = PARSE_HEADER_SUCCESS | PARSE_HEADER_ERROR
datatype analysis_state = ANALYSIS_SUCCESS | ANALYSIS_ERROR
datatype parse_result = PARSE_SUCCESS | PARSE_ERROR

datatype parse_state =
    H_START | H_KEY | H_COLON | H_SPACES_AFTER_COLON | H_VALUE | H_CR | H_LF | H_END_CR | H_END_LF

datatype http_connection_state = H_CONNECTED | H_DISCONNECTING | H_DISCONNECTED
datatype http_method = METHOD_POST | METHOD_GET | METHOD_HEAD
datatype http_version = HTTP_10 | HTTP_11

section \<open>Tables of status codes and methods\<close>

text \<open>
  \<open>HTTP_STATUS_MAP\<close> and \<open>HTTP_METHOD_MAP\<close>: the rows of number, name and text that the enumerations
  \<open>HttpStatus\<close> and \<open>HttpMethod\<close> are generated from; the enumerators take the name with \<open>HTTP_\<close> in
  front, and \<open>HTTP_INVALID_METHOD\<close> follows the last method.
\<close>

definition HTTP_STATUS_MAP :: "(nat \<times> string \<times> string) list" where
  "HTTP_STATUS_MAP =
     [(100, ''CONTINUE'', ''Continue''),
      (101, ''SWITCHING_PROTOCOLS'', ''Switching Protocols''),
      (102, ''PROCESSING'', ''Processing''),
      (200, ''OK'', ''OK''),
      (201, ''CREATED'', ''Created''),
      (202, ''ACCEPTED'', ''Accepted''),
      (203, ''NON_AUTHORITATIVE_INFORMATION'', ''Non - Authoritative Information''),
      (204, ''NO_CONTENT'', ''No Content''),
      (205, ''RESET_CONTENT'', ''Reset Content''),
      (206, ''PARTIAL_CONTENT'', ''Partial Content''),
      (207, ''MULTI_STATUS'', ''Multi - Status''),
      (208, ''ALREADY_REPORTED'', ''Already Reported''),
      (226, ''IM_USED'', ''IM Used''),
      (300, ''MULTIPLE_CHOICES'', ''Multiple Choices''),
      (301, ''MOVED_PERMANENTLY'', ''Moved Permanently''),
      (302, ''FOUND'', ''Found''),
      (303, ''SEE_OTHER'', ''See Other''),
      (304, ''NOT_MODIFIED'', ''Not Modified''),
      (305, ''USE_PROXY'', ''Use Proxy''),
      (307, ''TEMPORARY_REDIRECT'', ''Temporary Redirect''),
      (308, ''PERMANENT_REDIRECT'', ''Permanent Redirect''),
      (400, ''BAD_REQUEST'', ''Bad Request''),
      (401, ''UNAUTHORIZED'', ''Unauthorized''),
      (402, ''PAYMENT_REQUIRED'', ''Payment Required''),
      (403, ''FORBIDDEN'', ''Forbidden''),
      (404, ''NOT_FOUND'', ''Not Found''),
      (405, ''METHOD_NOT_ALLOWED'', ''Method Not Allowed''),
      (406, ''NOT_ACCEPTABLE'', ''Not Acceptable''),
      (407, ''PROXY_AUTHENTICATION_REQUIRED'', ''Proxy Authentication Required''),
      (408, ''REQUEST_TIMEOUT'', ''Request Timeout''),
      (409, ''CONFLICT'', ''Conflict''),
      (410, ''GONE'', ''Gone''),
      (411, ''LENGTH_REQUIRED'', ''Length Required''),
      (412, ''PRECONDITION_FAILED'', ''Precondition Failed''),
      (413, ''PAYLOAD_TOO_LARGE'', ''Payload Too Large''),
      (414, ''URI_TOO_LONG'', ''URI Too Long''),
      (415, ''UNSUPPORTED_MEDIA_TYPE'', ''Unsupported Media Type''),
      (416, ''RANGE_NOT_SATISFIABLE'', ''Range Not Satisfiable''),
      (417, ''EXPECTATION_FAILED'', ''Expectation Failed''),
      (421, ''MISDIRECTED_REQUEST'', ''Misdirected Request''),
      (422, ''UNPROCESSABLE_ENTITY'', ''Unprocessable Entity''),
      (423, ''LOCKED'', ''Locked''),
      (424, ''FAILED_DEPENDENCY'', ''Failed Dependency''),
      (426, ''UPGRADE_REQUIRED'', ''Upgrade Required''),
      (428, ''PRECONDITION_REQUIRED'', ''Precondition Required''),
      (429, ''TOO_MANY_REQUESTS'', ''Too Many Requests''),
      (431, ''REQUEST_HEADER_FIELDS_TOO_LARGE'', ''Request Header Fields Too Large''),
      (451, ''UNAVAILABLE_FOR_LEGAL_REASONS'', ''Unavailable For Legal Reasons''),
      (500, ''INTERNAL_SERVER_ERROR'', ''Internal Server Error''),
      (501, ''NOT_IMPLEMENTED'', ''Not Implemented''),
      (502, ''BAD_GATEWAY'', ''Bad Gateway''),
      (503, ''SERVICE_UNAVAILABLE'', ''Service Unavailable''),
      (504, ''GATEWAY_TIMEOUT'', ''Gateway Timeout''),
      (505, ''HTTP_VERSION_NOT_SUPPORTED'', ''HTTP Version Not Supported''),
      (506, ''VARIANT_ALSO_NEGOTIATES'', ''Variant Also Negotiates''),
      (507, ''INSUFFICIENT_STORAGE'', ''Insufficient Storage''),
      (508, ''LOOP_DETECTED'', ''Loop Detected''),
      (510, ''NOT_EXTENDED'', ''Not Extended''),
      (511, ''NETWORK_AUTHENTICATION_REQUIRED'', ''Network Authentication Required'')]"

definition HTTP_METHOD_MAP :: "(nat \<times> string \<times> string) list" where
  "HTTP_METHOD_MAP =
     [(0, ''DELETE'', ''DELETE''),
      (1, ''GET'', ''GET''),
      (2, ''HEAD'', ''HEAD''),
      (3, ''POST'', ''POST''),
      (4, ''PUT'', ''PUT''),
      (5, ''CONNECT'', ''CONNECT''),
      (6, ''OPTIONS'', ''OPTIONS''),
      (7, ''TRACE'', ''TRACE''),
      (8, ''COPY'', ''COPY''),
      (9, ''LOCK'', ''LOCK''),
      (10, ''MKCOL'', ''MKCOL''),
      (11, ''MOVE'', ''MOVE''),
      (12, ''PROPFIND'', ''PROPFIND''),
      (13, ''PROPPATCH'', ''PROPPATCH''),
      (14, ''SEARCH'', ''SEARCH''),
      (15, ''UNLOCK'', ''UNLOCK''),
      (16, ''BIND'', ''BIND''),
      (17, ''REBIND'', ''REBIND''),
      (18, ''UNBIND'', ''UNBIND''),
      (19, ''ACL'', ''ACL''),
      (20, ''REPORT'', ''REPORT''),
      (21, ''MKACTIVITY'', ''MKACTIVITY''),
      (22, ''CHECKOUT'', ''CHECKOUT''),
      (23, ''MERGE'', ''MERGE''),
      (24, ''MSEARCH'', ''M - SEARCH''),
      (25, ''NOTIFY'', ''NOTIFY''),
      (26, ''SUBSCRIBE'', ''SUBSCRIBE''),
      (27, ''UNSUBSCRIBE'', ''UNSUBSCRIBE''),
      (28, ''PATCH'', ''PATCH''),
      (29, ''PURGE'', ''PURGE''),
      (30, ''MKCALENDAR'', ''MKCALENDAR''),
      (31, ''LINK'', ''LINK''),
      (32, ''UNLINK'', ''UNLINK''),
      (33, ''SOURCE'', ''SOURCE'')]"

definition enumerators :: "(nat \<times> string \<times> string) list \<Rightarrow> (string \<times> nat) list" where
  "enumerators rows = map (\<lambda>(num, name, str). (''HTTP_'' @ name, num)) rows"

definition HttpStatus :: "(string \<times> nat) list" where
  "HttpStatus = enumerators HTTP_STATUS_MAP"

definition HttpMethod :: "(string \<times> nat) list" where
  "HttpMethod = enumerators HTTP_METHOD_MAP @ [(''HTTP_INVALID_METHOD'', Suc (fst (last HTTP_METHOD_MAP)))]"

section \<open>MIME types\<close>

definition mime_rows :: "(string \<times> string) list" where
  "mime_rows =
     [(''.html'', ''text/html''),
      (''.avi'', ''video/x-msvideo''),
      (''.bmp'', ''image/bmp''),
      (''.c'', ''text/plain''),
      (''.doc'', ''application/msword''),
      (''.gif'', ''image/gif''),
      (''.gz'', ''application/x-gzip''),
      (''.htm'', ''text/html''),
      (''.ico'', ''image/x-icon''),
      (''.jpg'', ''image/jpeg''),
      (''.png'', ''image/png''),
      (''.txt'', ''text/plain''),
      (''.mp3'', ''audio/mp3''),
      (''default'', ''text/html'')]"

text \<open>The static map and the \<open>pthread_once\<close> flag that guards filling it.\<close>

record mime_types =
  mime :: "string \<rightharpoonup> string"
  initialised :: bool

definition mime_start :: mime_types where
  "mime_start = \<lparr>mime = Map.empty, initialised = False\<rparr>"

definition MimeTypes_Init :: "mime_types \<Rightarrow> mime_types" where
  "MimeTypes_Init m = m\<lparr>mime := fold (\<lambda>(k, v) f. f(k \<mapsto> v)) mime_rows (mime m)\<rparr>"

definition mime_once :: "mime_types \<Rightarrow> mime_types" where
  "mime_once m = (if initialised m then m else (MimeTypes_Init m)\<lparr>initialised := True\<rparr>)"

text \<open>\<open>operator[]\<close> of the map: a missing key is inserted with an empty string.\<close>

definition mime_at :: "string \<Rightarrow> mime_types \<Rightarrow> string \<times> mime_types" where
  "mime_at k m =
     (case mime m k of
        Some v \<Rightarrow> (v, m)
      | None \<Rightarrow> ([], m\<lparr>mime := (mime m)(k \<mapsto> [])\<rparr>))"

definition MimeTypes_GetMime :: "string \<Rightarrow> mime_types \<Rightarrow> string \<times> mime_types" where
  "MimeTypes_GetMime suffix m =
     (let m1 = mime_once m in
      if mime m1 suffix \<noteq> None then mime_at suffix m1 else mime_at ''default'' m1)"

section \<open>The icon\<close>

definition favicon :: "nat list" where
  "favicon =
    [137, 80, 78, 71, 13, 10, 26, 10, 0, 0, 0, 13, 73, 72, 68, 82, 0, 0, 0, 16, 0, 0, 0, 16,
     8, 6, 0, 0, 0, 31, 243, 255, 97, 0, 0, 0, 25, 116, 69, 88, 116, 83, 111, 102, 116, 119, 97, 114,
     101, 0, 65, 100, 111, 98, 101, 32, 73, 109, 97, 103, 101, 82, 101, 97, 100, 121, 113, 201, 101, 60, 0, 0,
     1, 205, 73, 68, 65, 84, 120, 218, 148, 147, 57, 72, 3, 65, 20, 134, 255, 93, 98, 167, 4, 82, 196, 109,
     34, 30, 160, 70, 36, 8, 22, 22, 118, 10, 54, 186, 74, 154, 128, 8, 65, 180, 113, 133, 88, 137, 71, 176,
     73, 169, 81, 36, 205, 166, 8, 164, 72, 99, 145, 66, 11, 175, 86, 193, 70, 180, 21, 207, 34, 88, 152, 11,
     84, 72, 138, 100, 147, 141, 251, 70, 103, 201, 26, 20, 125, 240, 102, 118, 102, 223, 124, 239, 231, 103, 70, 168,
     213, 106, 72, 36, 18, 42, 0, 5, 191, 71, 212, 239, 247, 47, 54, 236, 18, 32, 30, 143, 215, 170, 213, 234,
     175, 73, 53, 70, 170, 84, 95, 159, 34, 65, 42, 149, 10, 131, 229, 114, 57, 100, 179, 89, 150, 153, 76, 6,
     233, 116, 154, 37, 133, 44, 203, 84, 167, 196, 98, 49, 181, 94, 0, 3, 104, 154, 198, 22, 130, 32, 88, 82,
     20, 69, 54, 83, 148, 203, 101, 120, 189, 94, 170, 85, 84, 35, 76, 192, 224, 226, 193, 143, 0, 158, 188, 9,
     65, 124, 62, 31, 131, 68, 34, 17, 213, 84, 64, 63, 56, 128, 119, 229, 51, 7, 184, 92, 46, 72, 146, 4,
     135, 195, 129, 64, 32, 64, 103, 152, 233, 54, 26, 166, 103, 21, 4, 227, 215, 200, 189, 21, 225, 105, 183, 67,
     171, 234, 120, 47, 106, 88, 146, 187, 24, 32, 159, 207, 51, 195, 184, 233, 78, 167, 211, 108, 74, 0, 105, 54,
     124, 142, 225, 254, 86, 132, 231, 60, 159, 114, 43, 58, 66, 123, 55, 102, 119, 174, 142, 14, 243, 189, 82, 169,
     100, 2, 66, 175, 133, 50, 102, 70, 186, 12, 217, 159, 29, 154, 108, 34, 230, 199, 58, 44, 128, 239, 193, 21,
     144, 7, 147, 162, 40, 160, 83, 106, 177, 184, 223, 41, 53, 67, 14, 63, 88, 252, 152, 218, 121, 106, 80, 64,
     0, 135, 174, 27, 23, 66, 180, 58, 63, 190, 121, 199, 10, 38, 182, 238, 217, 154, 96, 20, 147, 219, 143, 13,
     10, 46, 233, 35, 149, 41, 88, 0, 39, 235, 110, 86, 112, 188, 214, 203, 214, 71, 171, 61, 108, 125, 184, 210,
     221, 160, 96, 131, 186, 239, 95, 164, 234, 204, 2, 78, 174, 94, 112, 26, 236, 179, 64, 57, 172, 254, 242, 145,
     137, 103, 145, 133, 33, 168, 135, 183, 88, 126, 126, 133, 187, 205, 78, 78, 98, 116, 64, 250, 147, 137, 236, 30,
     236, 134, 2, 72, 38, 147, 208, 117, 29, 127, 9, 50, 149, 191, 31, 219, 215, 99, 138, 26, 247, 92, 193, 255,
     34, 74, 195, 135, 0, 3, 0, 75, 187, 248, 214, 42, 118, 152, 73, 0, 0, 0, 0, 73, 69, 78, 68, 174,
     66, 96, 130]"

text \<open>A PNG file: the signature, then chunks of a length, a type, the data and a checksum.\<close>

definition be32 :: "nat list \<Rightarrow> nat" where
  "be32 bs = foldl (\<lambda>n b. 256 * n + b) 0 (take 4 bs)"

fun png_chunks :: "nat \<Rightarrow> nat list \<Rightarrow> (nat list \<times> nat) list option" where
  "png_chunks 0 bs = None"
| "png_chunks (Suc fuel) bs =
     (if bs = [] then Some []
      else if length bs < 12 + be32 bs then None
      else (case png_chunks fuel (drop (12 + be32 bs) bs) of
              None \<Rightarrow> None
            | Some cs \<Rightarrow> Some ((take 4 (drop 4 bs), be32 bs) # cs)))"

section \<open>Properties\<close>

lemma fold_upd: "fold (\<lambda>(k, v) f. f(k \<mapsto> v)) xs m k = (case map_of (rev xs) k of Some v \<Rightarrow> Some v | None \<Rightarrow> m k)"
proof (induction xs arbitrary: m)
  case (Cons x xs)
  obtain a b where "x = (a, b)" by force
  with Cons show ?case by (auto simp: map_add_def split: option.splits)
qed simp

lemma mime_rows_distinct: "distinct (map fst mime_rows)"
  by (simp add: mime_rows_def)

lemma map_of_rev_distinct: "distinct (map fst xs) \<Longrightarrow> map_of (rev xs) = map_of xs"
  by (rule map_of_eqI) (auto simp: image_iff rev_map[symmetric])

lemma mime_filled: "mime (mime_once mime_start) k = map_of mime_rows k"
  using map_of_rev_distinct [OF mime_rows_distinct]
  by (simp add: mime_once_def mime_start_def MimeTypes_Init_def fold_upd split: option.split)

lemma mime_default: "map_of mime_rows ''default'' = Some ''text/html''"
  by (simp add: mime_rows_def)

lemma mime_once_idem: "mime_once (mime_once m) = mime_once m"
  by (simp add: mime_once_def)

lemma GetMime_run:
  assumes "m \<in> {mime_start, mime_once mime_start}"
  shows "MimeTypes_GetMime k m =
    (case map_of mime_rows k of Some v \<Rightarrow> v | None \<Rightarrow> ''text/html'', mime_once mime_start)"
proof -
  have "mime_once m = mime_once mime_start" using assms mime_once_idem by auto
  then show ?thesis
    by (simp add: MimeTypes_GetMime_def Let_def mime_at_def mime_filled mime_default split: option.split)
qed

text \<open>
  \<open>GetMime\<close> is a pure lookup: whatever has been asked before, it answers with the row of the
  table for the suffix, and with \<open>text/html\<close> for a suffix without one; the first call fills the
  map and no call ever changes it again, so no lookup leaves a key behind.
\<close>

theorem GetMime_is_lookup:
  "fst (MimeTypes_GetMime k (fold (\<lambda>q m. snd (MimeTypes_GetMime q m)) ks mime_start)) =
     (case map_of mime_rows k of Some v \<Rightarrow> v | None \<Rightarrow> ''text/html'') \<and>
   snd (MimeTypes_GetMime k (fold (\<lambda>q m. snd (MimeTypes_GetMime q m)) ks mime_start)) =
     mime_once mime_start"
proof -
  have "fold (\<lambda>q m. snd (MimeTypes_GetMime q m)) ks m \<in> {mime_start, mime_once mime_start}"
    if "m \<in> {mime_start, mime_once mime_start}" for m
    using that
  proof (induction ks arbitrary: m)
    case (Cons q ks)
    show ?case using Cons.IH [of "mime_once mime_start"] GetMime_run [OF Cons.prems] by simp
  qed simp
  then show ?thesis by (simp add: GetMime_run)
qed

lemma status_codes:
  "map snd HttpStatus = map fst HTTP_STATUS_MAP"
  "map snd (enumerators HTTP_METHOD_MAP) = map fst HTTP_METHOD_MAP"
  by (simp_all add: HttpStatus_def enumerators_def split_beta comp_def)

lemma HTTP_names: "distinct (map fst (enumerators rows)) \<longleftrightarrow> distinct (map (\<lambda>r. fst (snd r)) rows)"
proof -
  have "map fst (enumerators rows) = map ((@) ''HTTP_'') (map (\<lambda>r. fst (snd r)) rows)"
    by (simp add: enumerators_def split_beta)
  then show ?thesis by (simp add: distinct_map inj_on_def del: map_map)
qed

text \<open>
  The generated enumerations are well-formed: the status codes increase strictly from 100 to
  511 under different names, so that a code names one status; the methods are numbered from zero
  without a gap, so that a number below 34 is an index into the table, and
  \<open>HTTP_INVALID_METHOD\<close> is the first number that is not.
\<close>

theorem http_enums_well_formed:
  "sorted_wrt (<) (map snd HttpStatus) \<and> distinct (map fst HttpStatus) \<and>
   snd (hd HttpStatus) = 100 \<and> snd (last HttpStatus) = 511 \<and>
   map snd HttpMethod = [0..<35] \<and> distinct (map fst HttpMethod) \<and>
   last HttpMethod = (''HTTP_INVALID_METHOD'', 34)"
proof (intro conjI)
  show "sorted_wrt (<) (map snd HttpStatus)"
    unfolding status_codes by (simp add: HTTP_STATUS_MAP_def)
  show "distinct (map fst HttpStatus)"
    unfolding HttpStatus_def HTTP_names by code_simp
  show "snd (hd HttpStatus) = 100" "snd (last HttpStatus) = 511"
    by (simp_all add: HttpStatus_def enumerators_def HTTP_STATUS_MAP_def)
  show "map snd HttpMethod = [0..<35]" by code_simp
  show "distinct (map fst HttpMethod)" by code_simp
  show "last HttpMethod = (''HTTP_INVALID_METHOD'', 34)"
    by (simp add: HttpMethod_def HTTP_METHOD_MAP_def)
qed

lemma be32_Cons: "be32 (a # b # c # d # bs) = 16777216 * a + 65536 * b + 256 * c + d"
  by (simp add: be32_def)

text \<open>
  The icon fills its array and is a PNG file: after the signature come a header of 13 bytes, one
  text chunk, one data chunk and the end chunk, and their lengths add up to the size of the array
  exactly.
\<close>

theorem favicon_is_png:
  "length favicon = 555 \<and> take 8 favicon = [137, 80, 78, 71, 13, 10, 26, 10] \<and>
   png_chunks (Suc (Suc (Suc (Suc (Suc 0))))) (drop 8 favicon) =
     Some [(map of_char ''IHDR'', 13), (map of_char ''tEXt'', 25), (map of_char ''IDAT'', 461),
       (map of_char ''IEND'', 0)]"
  by (simp add: favicon_def be32_Cons)

end
