(* ===== verification/Http.thy ===== *)
theory Http
  imports Server HttpData
begin

text \<open>
  \<open>HttpParser\<close> and \<open>HttpManager\<close> (\<open>http_class.h\<close>, \<open>http_class.cpp\<close>) and the program
  \<open>test/http_server.cpp\<close> that puts them on the server. \<open>ParseURI\<close> and \<open>ParseHeaders\<close> are declared and
  never defined: they are parameters, operations on the parser and the server's state. The
  manager's map is a field of that state; it owns the connections it files.
\<close>

section \<open>State\<close>

record http_parser =
  parser_connection :: "nat option"
  parser_error :: bool
  parser_conn_state :: http_connection_state
  parser_method :: http_method
  parser_version :: http_version
  parser_file :: string
  parser_path :: string
  parser_pos :: int
  parser_state :: process_state
  parser_hstate :: parse_state
  keep_alive :: bool
  headers :: "string \<rightharpoonup> string"

record 'k http_server = "'k server" +
  parsers :: "nat \<rightharpoonup> http_parser"

type_synonym ('k, 'z, 'a) http_op = "(http_parser \<times> ('k, 'z) http_server_scheme, 'a) cpp"

text \<open>\<open>make_shared<HttpParser>()\<close>: the pointer to the connection starts out null.\<close>

definition HttpParser_init :: http_parser where
  "HttpParser_init = \<lparr>parser_connection = None, parser_error = False,
     parser_conn_state = H_CONNECTED, parser_method = METHOD_GET, parser_version = HTTP_11,
     parser_file = [], parser_path = [], parser_pos = 0, parser_state = STATE_PARSE_URI,
     parser_hstate = H_START, keep_alive = False, headers = Map.empty\<rparr>"

definition HttpParser_Reset :: "http_parser \<Rightarrow> http_parser" where
  "HttpParser_Reset h = h\<lparr>parser_file := [], parser_path := [], parser_pos := 0,
     parser_state := STATE_PARSE_URI, parser_hstate := H_START, headers := Map.empty\<rparr>"

definition HttpParser_HandleClose :: "http_parser \<Rightarrow> http_parser" where
  "HttpParser_HandleClose h = h"

section \<open>\<open>std::stoi\<close>\<close>

definition is_space :: "char \<Rightarrow> bool" where
  "is_space c \<longleftrightarrow> c \<in> {CHR '' '', CHR 0x09, LF, CHR 0x0B, CHR 0x0C, CR}"

fun stoi_sign :: "string \<Rightarrow> bool \<times> string" where
  "stoi_sign [] = (False, [])"
| "stoi_sign (c # cs) =
     (if c = CHR ''-'' then (True, cs) else if c = CHR ''+'' then (False, cs) else (False, c # cs))"

definition stoi :: "string \<Rightarrow> fault + int" where
  "stoi s =
     (case stoi_sign (dropWhile is_space s) of
        (neg, t) \<Rightarrow>
          let ds = takeWhile is_digit t;
              v = (if neg then - int (read_nat ds) else int (read_nat ds))
          in if ds = [] then Inl InvalidArgument
             else if - (2 ^ 31) \<le> v \<and> v < 2 ^ 31 then Inr v
             else Inl OutOfRange)"

section \<open>The parser\<close>

text \<open>An operation of the server, and a dereference of \<open>connection_\<close>.\<close>

definition on_server :: "(('k, 'z) http_server_scheme, 'a) cpp \<Rightarrow> ('k, 'z, 'a) http_op" where
  "on_server m = (\<lambda>(h, s). case m s of None \<Rightarrow> None | Some (r, t) \<Rightarrow> Some (r, (h, t)))"

definition deref_connection :: "('k, 'z, nat) http_op" where
  "deref_connection = bindC (gets (\<lambda>(h, s). parser_connection h)) (\<lambda>p.
     case p of None \<Rightarrow> throw (Undefined NullDeref) | Some q \<Rightarrow> ret q)"

definition parser_buffer :: "('k, 'z, buffer) http_op" where
  "parser_buffer = bindC deref_connection (\<lambda>q.
     bindC (on_server (the_connection q)) (\<lambda>c. ret (Connection_GetReadBuffer c)))"

definition set_parser :: "(http_parser \<Rightarrow> http_parser) \<Rightarrow> ('k, 'z, unit) http_op" where
  "set_parser f = modify (\<lambda>(h, s). (f h, s))"

definition parse_failure :: "('k, 'z, parse_result) http_op" where
  "parse_failure = seqC (set_parser (\<lambda>h. h\<lparr>parser_error := True\<rparr>)) (ret PARSE_ERROR)"

definition go_to :: "process_state \<Rightarrow> ('k, 'z, unit) http_op" where
  "go_to st = set_parser (\<lambda>h. h\<lparr>parser_state := st\<rparr>)"

definition AnalysisRequest :: "('k, 'z, analysis_state) http_op" where
  "AnalysisRequest = ret ANALYSIS_SUCCESS"

text \<open>The condition on the length of the body.\<close>

definition body_complete :: "('k, 'z, bool) http_op" where
  "body_complete = bindC (gets (\<lambda>(h, s). headers h ''Content-length'')) (\<lambda>v.
     case v of
       None \<Rightarrow> ret False
     | Some str \<Rightarrow>
         (case stoi str of
            Inl e \<Rightarrow> throw e
          | Inr n \<Rightarrow> bindC parser_buffer (\<lambda>b. ret (n \<le> Buffer_Size b))))"

text \<open>\<open>ParseRequest\<close> from the test for \<open>STATE_ANALYSIS\<close> on, and from that for \<open>STATE_RECV_BODY\<close> on.\<close>

definition Parse_analysis :: "('k, 'z, parse_result) http_op" where
  "Parse_analysis = bindC (gets (\<lambda>(h, s). parser_state h)) (\<lambda>st.
     if st = STATE_ANALYSIS then
       bindC AnalysisRequest (\<lambda>a.
       if a = ANALYSIS_SUCCESS then seqC (go_to STATE_FINISH) (ret PARSE_SUCCESS) else parse_failure)
     else ret PARSE_SUCCESS)"

definition Parse_body :: "('k, 'z, parse_result) http_op" where
  "Parse_body = bindC (gets (\<lambda>(h, s). parser_state h)) (\<lambda>st.
     if st = STATE_RECV_BODY then
       bindC body_complete (\<lambda>ok.
       if ok then seqC (go_to STATE_ANALYSIS) Parse_analysis else parse_failure)
     else Parse_analysis)"

text \<open>
  \<open>ParseRequest\<close>. After \<open>ParseURI\<close> the code tests the enumerator \<open>PARSE_URI_ERROR\<close> itself, not the
  result.
\<close>

definition HttpParser_ParseRequest ::
  "('k, 'z, uri_state) http_op \<Rightarrow> ('k, 'z, header_state) http_op \<Rightarrow> ('k, 'z, parse_result) http_op"
  where
  "HttpParser_ParseRequest parse_uri parse_headers =
     bindC parser_buffer (\<lambda>b.
     if 0 = Buffer_Size b then parse_failure
     else
       bindC (gets (\<lambda>(h, s). parser_state h)) (\<lambda>st.
       if st = STATE_PARSE_URI then
         bindC parse_uri (\<lambda>uri_state.
         if uri_state_code PARSE_URI_ERROR \<noteq> 0 then parse_failure
         else seqC (go_to STATE_PARSE_HEADERS) Parse_body)
       else if st = STATE_PARSE_HEADERS then
         bindC parse_headers (\<lambda>header_state.
         if header_state = PARSE_HEADER_ERROR then parse_failure
         else
           bindC (gets (\<lambda>(h, s). parser_method h)) (\<lambda>m.
           seqC (go_to (if m = METHOD_POST then STATE_RECV_BODY else STATE_ANALYSIS)) Parse_body))
       else Parse_body))"

text \<open>The response \<open>HandleError\<close> builds, header and body.\<close>

abbreviation CRLF :: string where "CRLF \<equiv> [CR, LF]"

definition error_body :: "int \<Rightarrow> string \<Rightarrow> string" where
  "error_body error_num msg =
     ''<html><title>something is wrong</title>'' @ ''<body bgcolor='' @ [CHR 0x22] @ ''ffffff'' @
     [CHR 0x22] @ ''>'' @ show_int error_num @ msg @ ''<hr><em> CppServer</em>'' @ [LF] @
     ''</body></html>''"

definition error_response :: "int \<Rightarrow> string \<Rightarrow> string" where
  "error_response error_num msg =
     (let msg1 = '' '' @ msg; body = error_body error_num msg1 in
      ''HTTP/1.1 '' @ show_int error_num @ msg1 @ CRLF @
      ''Content-Type: text/html'' @ CRLF @
      ''Connection: Close'' @ CRLF @
      ''Content-Length: '' @ show_nat (length body) @ CRLF @
      ''Server: LinYa'' @ [CHR 0x27] @ ''s Web Server'' @ CRLF @
      CRLF @ body)"

definition HttpParser_HandleError :: "'k os \<Rightarrow> int \<Rightarrow> string \<Rightarrow> ('k, 'z, unit) http_op" where
  "HttpParser_HandleError os error_num msg =
     seqC (bindC deref_connection (\<lambda>q.
             on_server (with_connection q (call_SetWriteBuffer (error_response error_num msg @ [NUL])))))
          (bindC deref_connection (\<lambda>q. on_server (with_connection q (Connection_Write os))))"

definition HttpParser_HandleRequest ::
  "'k os \<Rightarrow> ('k, 'z, uri_state) http_op \<Rightarrow> ('k, 'z, header_state) http_op \<Rightarrow> ('k, 'z, unit) http_op"
  where
  "HttpParser_HandleRequest os parse_uri parse_headers =
     bindC (HttpParser_ParseRequest parse_uri parse_headers) (\<lambda>parse_result.
     seqC (if parse_result = PARSE_ERROR then HttpParser_HandleError os 400 ''Bad Request'' else ret ())
          (bindC AnalysisRequest (\<lambda>state. ret ())))"

section \<open>The manager\<close>

text \<open>A new entry of the map owns the connection; the parser of an old one is replaced.\<close>

definition RegisterConn :: "nat \<Rightarrow> (('k, 'z) http_server_scheme, unit) cpp" where
  "RegisterConn p = modify (\<lambda>s. s\<lparr>parsers := (parsers s)(p \<mapsto> HttpParser_init),
     use_count := (if parsers s p = None then (use_count s)(p := Suc (use_count s p)) else use_count s)\<rparr>)"

definition HttpManager_OnConnection :: "nat \<Rightarrow> (('k, 'z) http_server_scheme, unit) cpp" where
  "HttpManager_OnConnection p = RegisterConn p"

definition with_parser :: "nat \<Rightarrow> ('k, 'z, unit) http_op \<Rightarrow> (('k, 'z) http_server_scheme, unit) cpp" where
  "with_parser p m = (\<lambda>s. case parsers s p of
      None \<Rightarrow> Some (Inl (Undefined NullDeref), s)
    | Some h \<Rightarrow> (case m (h, s) of
        None \<Rightarrow> None
      | Some (r, (h', s')) \<Rightarrow> Some (r, s'\<lparr>parsers := (parsers s')(p \<mapsto> h')\<rparr>)))"

definition HttpManager_OnMessage ::
  "'k os \<Rightarrow> ('k, 'z, uri_state) http_op \<Rightarrow> ('k, 'z, header_state) http_op \<Rightarrow> nat \<Rightarrow>
   (('k, 'z) http_server_scheme, unit) cpp" where
  "HttpManager_OnMessage os parse_uri parse_headers p =
     seqC (bindC (gets parsers) (\<lambda>ps.
             if ps p \<noteq> None then with_parser p (HttpParser_HandleRequest os parse_uri parse_headers)
             else ret ()))
          (modify (print_out (''cannot find corresponding http parser'' @ endl)))"

definition HttpManager_GetParser :: "nat \<Rightarrow> ('k, 'z) http_server_scheme \<Rightarrow> http_parser option" where
  "HttpManager_GetParser p s = (if parsers s p \<noteq> None then parsers s p else None)"

section \<open>The program\<close>

text \<open>The callbacks \<open>main\<close> of \<open>http_server.cpp\<close> gives the server.\<close>

definition http_connect_cb :: user_callback where "http_connect_cb = UserCb 1"
definition http_message_cb :: user_callback where "http_message_cb = UserCb 0"

definition http_usr ::
  "'k os \<Rightarrow> ('k, 'z, uri_state) http_op \<Rightarrow> ('k, 'z, header_state) http_op \<Rightarrow>
   user_callback \<Rightarrow> nat \<Rightarrow> (('k, 'z) http_server_scheme, unit) cpp" where
  "http_usr os parse_uri parse_headers u =
     (if u = http_connect_cb then HttpManager_OnConnection
      else if u = http_message_cb then HttpManager_OnMessage os parse_uri parse_headers
      else (\<lambda>p. ret ()))"

end
