(* ===== verification/Programs.thy ===== *)
theory Programs
  imports EchoServer Http
begin

text \<open>
  The \<open>main\<close> functions of the servers in \<open>src/test\<close>, and the callbacks of \<open>http_echo_server.cpp\<close>,
  which answers every message with one page. Their loggers are the parameter \<open>log\<close>; \<open>hw\<close> is
  \<open>std::thread::hardware_concurrency()\<close>. What makes a \<open>main\<close> of this kind end is in
  \<open>serving_throws\<close>: an exception or a fault in the main reactor, never a return.
\<close>

section \<open>The echo server\<close>

definition echo_main :: "'k os \<Rightarrow> (string \<Rightarrow> (('k, 'z) server_scheme, unit) cpp) \<Rightarrow>
    (string \<Rightarrow> 32 word) \<Rightarrow> nat \<Rightarrow> (('k, 'z) server_scheme, unit) cpp" where
  "echo_main os log inet_addr hw =
     seqC (Server_init os inet_addr hw ''0.0.0.0'' 8000)
    (seqC (Server_SetOnConnectCallback (Some echo_connect_cb))
    (seqC (Server_SetOnMessageCallback (Some echo_message_cb))
    (seqC (log ''server start'')
    (seqC (Server_Start os (echo_usr os log))
          (log ''server terminated'')))))"

section \<open>The server of one page\<close>

text \<open>The text of the response; \<open>page\<close> is what the stream of the file gave, empty if it is missing.\<close>

definition page_response :: "string \<Rightarrow> string" where
  "page_response page =
     ''HTTP/1.1 200 OK'' @ [CR, LF] @ ''Connection: keep-alive'' @ [CR, LF] @
     ''Content-Type: text'' @ [CR, LF] @ [CR, LF] @ page"

definition page_on_connect ::
  "(string \<Rightarrow> (('k, 'z) server_scheme, unit) cpp) \<Rightarrow> nat \<Rightarrow> (('k, 'z) server_scheme, unit) cpp" where
  "page_on_connect log p =
     bindC (the_connection p) (\<lambda>c. log (''new connection fd: '' @ show_int (Connection_GetSocket c)))"

definition page_on_message ::
  "'k os \<Rightarrow> string \<Rightarrow> nat \<Rightarrow> (('k, 'z) server_scheme, unit) cpp" where
  "page_on_message os response p =
     bindC (the_connection p) (\<lambda>c.
     if Connection_GetState c = Connected
     then seqC (with_connection p (call_SetWriteBuffer (response @ [NUL])))
               (with_connection p (Connection_Write os))
     else ret ())"

definition page_usr ::
  "'k os \<Rightarrow> (string \<Rightarrow> (('k, 'z) server_scheme, unit) cpp) \<Rightarrow> string \<Rightarrow> ('k, 'z) usr" where
  "page_usr os log response u = (if u = echo_connect_cb then page_on_connect log
     else if u = echo_message_cb then page_on_message os response else (\<lambda>p. ret ()))"

definition page_main :: "'k os \<Rightarrow> (string \<Rightarrow> (('k, 'z) server_scheme, unit) cpp) \<Rightarrow> string \<Rightarrow>
    (string \<Rightarrow> 32 word) \<Rightarrow> nat \<Rightarrow> (('k, 'z) server_scheme, unit) cpp" where
  "page_main os log page inet_addr hw =
     seqC (Server_init os inet_addr hw ''0.0.0.0'' 8000)
    (seqC (Server_SetOnConnectCallback (Some echo_connect_cb))
    (seqC (Server_SetOnMessageCallback (Some echo_message_cb))
          (Server_Start os (page_usr os log (page_response page)))))"

section \<open>The HTTP server\<close>

definition http_main ::
  "'k os \<Rightarrow> ('k, 'z, uri_state) http_op \<Rightarrow> ('k, 'z, header_state) http_op \<Rightarrow>
   (string \<Rightarrow> 32 word) \<Rightarrow> nat \<Rightarrow> (('k, 'z) http_server_scheme, unit) cpp" where
  "http_main os parse_uri parse_headers inet_addr hw =
     seqC (Server_init os inet_addr hw ''0.0.0.0'' 8000)
    (seqC (modify (\<lambda>s. s\<lparr>parsers := Map.empty\<rparr>))
    (seqC (Server_SetOnConnectCallback (Some http_connect_cb))
    (seqC (Server_SetOnMessageCallback (Some http_message_cb))
          (Server_Start os (http_usr os parse_uri parse_headers)))))"

section \<open>They end by a fault\<close>

lemma page_usr_ok:
  assumes log: "\<And>m. world_only world.more (log m)"
  shows "usr_ok (page_usr os log response)"
  unfolding usr_ok_def
proof (intro allI impI)
  fix u p and held :: "nat \<Rightarrow> nat"
  assume held: "0 < held p"
  let ?live = "\<lambda>s. server_wf {} held s \<and> conns s p \<noteq> None"
  have set: "local_step (call_SetWriteBuffer (response @ [NUL]))"
    by (auto simp: local_step_def call_SetWriteBuffer_def Connection_SetWriteBuffer_def
        Buffer_SetBuf_terminated)
  have "triple ?live (if cstate c = Connected
      then seqC (with_connection p (call_SetWriteBuffer (response @ [NUL])))
                (with_connection p (Connection_Write os))
      else ret ()) (\<lambda>x. ?live) (fails held)" for c
    by (rule triple_if, rule triple_seqC [OF triple_with_connection [OF set]
        triple_with_connection [OF Write_local]]) (simp add: triple_def)
  then have "triple ?live (page_on_message os response p) (\<lambda>x. ?live) (fails held)"
    unfolding page_on_message_def connection_getters by (intro triple_bindC [OF triple_the_conn])
  moreover have "triple ?live (page_on_connect log p) (\<lambda>x. ?live) (fails held)"
    unfolding page_on_connect_def by (intro triple_bindC [OF triple_the_conn] triple_world_conn log)
  moreover have "triple ?live (ret ()) (\<lambda>x. ?live) (fails held)" by (simp add: triple_def)
  ultimately have "triple ?live (page_usr os log response u p) (\<lambda>x. ?live) (fails held)"
    unfolding page_usr_def by auto
  moreover have "?live s" if "server_wf {} held s" for s :: "('a, 'b) server_scheme"
    using that held wf_held [OF that, of p] wf_counted [OF that, of p] by simp
  ultimately have "triple (server_wf {} held) (page_usr os log response u p) (\<lambda>x. ?live) (fails held)"
    by (rule triple_pre)
  then show "triple (server_wf {} held) (page_usr os log response u p) (\<lambda>x. server_wf {} held) (fails held)"
    by (rule triple_post) simp_all
qed

text \<open>\<open>Start\<close> on a well-formed server, which is what the statements before it make of a blank state.\<close>

lemma serving_throws:
  assumes "read_bounded os" and "usr_ok usr" and "server_wf {} (\<lambda>p. 0) s"
    and "Server_Start os usr s = Some (r, t)"
  shows "\<exists>e. r = Inl e"
proof -
  define s1 where "s1 = s\<lparr>pool_tasks := pool_tasks s @ sub_reactors s\<rparr>"
  have "server_wf {} (\<lambda>p. 0) s1" using assms(3) by (simp add: s1_def wf_defs)
  moreover have "EventLoop_Loop os (run_callback os usr) (main_reactor s1) s1 = Some (r, t)"
    using assms(4) by (simp add: Server_Start_def add_loops_at s1_def)
  ultimately show ?thesis using Loop_stops [OF assms(1,2)] by blast
qed

definition set_up :: "'k os \<Rightarrow> (string \<Rightarrow> 32 word) \<Rightarrow> nat \<Rightarrow> user_callback \<Rightarrow> user_callback \<Rightarrow>
    (('k, 'z) server_scheme, unit) cpp" where
  "set_up os inet_addr hw connect message =
     seqC (Server_init os inet_addr hw ''0.0.0.0'' 8000)
    (seqC (Server_SetOnConnectCallback (Some connect)) (Server_SetOnMessageCallback (Some message)))"

lemma set_up_wf:
  fixes usr :: "('k, 'z) usr" and s t :: "('k, 'z) server_scheme"
  assumes "read_bounded os" and "usr_ok usr" and "blank s" and "0 < hw"
    and "set_up os inet_addr hw connect message s = Some (Inr u, t)"
  shows "server_wf {} (\<lambda>p. 0) t"
proof -
  obtain a b where run: "Server_init os inet_addr hw ''0.0.0.0'' 8000 s = Some (Inr (), a)"
    "Server_SetOnConnectCallback (Some connect) a = Some (Inr (), b)"
    "Server_SetOnMessageCallback (Some message) b = Some (Inr u, t)"
    using assms(5) by (auto simp: set_up_def seqC_returns)
  have "server_reach os usr t"
    by (rule sr_message [OF sr_connect [OF sr_init [OF assms(3,4) run(1)] run(2)] run(3)])
  with reach_wf assms(1,2) show ?thesis by blast
qed

lemma echo_main_throws:
  assumes "read_bounded os" and log: "\<And>m. world_only world.more (log m)"
    and "blank s" and "0 < hw" and "echo_main os log inet_addr hw s = Some (r, t)"
  shows "\<exists>e. r = Inl e"
proof (cases r)
  case (Inr u)
  have usr: "usr_ok (echo_usr os log)" by (rule echo_usr_ok [OF log])
  from assms(5) Inr obtain a b c where
    run: "set_up os inet_addr hw echo_connect_cb echo_message_cb s = Some (Inr (), a)"
      "log ''server start'' a = Some (Inr (), b)" "Server_Start os (echo_usr os log) b = Some (Inr (), c)"
    by (auto simp: echo_main_def set_up_def seqC_returns)
  have "server_wf {} (\<lambda>p. 0) b"
    using set_up_wf [OF assms(1) usr assms(3,4) run(1)] wf_world [OF world_onlyD(1) [OF log run(2)]] by simp
  from serving_throws [OF assms(1) usr this run(3)] show ?thesis by simp
qed simp

lemma page_main_throws:
  assumes "read_bounded os" and log: "\<And>m. world_only world.more (log m)"
    and "blank s" and "0 < hw" and "page_main os log page inet_addr hw s = Some (r, t)"
  shows "\<exists>e. r = Inl e"
proof (cases r)
  case (Inr u)
  have usr: "usr_ok (page_usr os log (page_response page))" by (rule page_usr_ok [OF log])
  from assms(5) Inr obtain a where
    run: "set_up os inet_addr hw echo_connect_cb echo_message_cb s = Some (Inr (), a)"
      "Server_Start os (page_usr os log (page_response page)) a = Some (r, t)"
    by (auto simp: page_main_def set_up_def seqC_returns)
  from serving_throws [OF assms(1) usr set_up_wf [OF assms(1) usr assms(3,4) run(1)] run(2)] show ?thesis .
qed simp

end
