(* ===== verification/Interest.thy ===== *)
theory Interest
  imports ServerProps
begin

text \<open>
  The interest lists of the program's epoll instances hold raw pointers to channels, and the
  kernel hands them back. This theory has the invariant that makes following them safe: every
  pointer registered for a descriptor is that of a live channel on this descriptor. Each operation
  of the program keeps it, the destructors included, because a channel closes its descriptor
  before it goes away.
\<close>

unbundle bit_operations_syntax

type_synonym 'k lists = "'k \<Rightarrow> int \<Rightarrow> int \<Rightarrow> epoll_event option"

section \<open>Documented behaviour of the interest lists\<close>

text \<open>
  Only \<open>epoll_ctl\<close> adds or modifies registrations, and only for open descriptors, so never for -1;
  \<open>close\<close> removes the descriptor from every list (the program never duplicates descriptors, so this
  is its last reference); a new epoll instance starts with an empty list; and \<open>epoll_wait\<close> reports
  what is registered with the instance.
\<close>

definition keeps_lists :: "'k lists \<Rightarrow> ('k \<Rightarrow> 'r \<times> 'k) \<Rightarrow> bool" where
  "keeps_lists reg f \<longleftrightarrow> (\<forall>k. reg (snd (f k)) = reg k)"

definition only_removes :: "'k lists \<Rightarrow> ('k \<Rightarrow> 'k) \<Rightarrow> bool" where
  "only_removes reg f \<longleftrightarrow> (\<forall>k ep fd. reg (f k) ep fd = None \<or> reg (f k) ep fd = reg k ep fd)"

definition interest_contract :: "'k os \<Rightarrow> 'k lists \<Rightarrow> bool" where
  "interest_contract os reg \<longleftrightarrow>
     epoll_ctl_contract os reg \<and> (\<forall>ep op ev k. is_err (fst (sys_epoll_ctl os ep op (-1) ev k))) \<and>
     keeps_lists reg (sys_socket os) \<and> (\<forall>fd a n. keeps_lists reg (sys_bind os fd a n)) \<and>
     (\<forall>fd. keeps_lists reg (sys_listen os fd)) \<and> (\<forall>fd. keeps_lists reg (sys_accept os fd)) \<and>
     (\<forall>fd fl k. reg (sys_setfl os fd fl k) = reg k) \<and>
     (\<forall>fd n. keeps_lists reg (sys_read os fd n)) \<and> (\<forall>fd bs. keeps_lists reg (sys_write os fd bs)) \<and>
     (\<forall>fd. only_removes reg (sys_close os fd)) \<and> (\<forall>fd k ep. reg (sys_close os fd k) ep fd = None) \<and>
     only_removes reg (snd \<circ> sys_epoll_create os) \<and>
     (\<forall>ep n t. keeps_lists reg (sys_epoll_wait os ep n t)) \<and>
     (\<forall>ep n t k evs k'. sys_epoll_wait os ep n t k = (SysOk evs, k') \<longrightarrow>
        (\<forall>e \<in> set evs. \<exists>fd ev. reg k ep fd = Some ev \<and> ev_ptr e = ev_ptr ev))"

lemma interest_contractD:
  assumes "interest_contract os reg"
  shows "epoll_ctl_contract os reg" "is_err (fst (sys_epoll_ctl os ep op (-1) ev k))"
    "keeps_lists reg (sys_socket os)" "keeps_lists reg (sys_bind os fd a len)"
    "keeps_lists reg (sys_listen os fd)" "keeps_lists reg (sys_accept os fd)"
    "reg (sys_setfl os fd fl k) = reg k" "keeps_lists reg (sys_read os fd n)"
    "keeps_lists reg (sys_write os fd bs)" "only_removes reg (sys_close os fd)"
    "reg (sys_close os fd k) ep fd = None" "only_removes reg (snd \<circ> sys_epoll_create os)"
    "keeps_lists reg (sys_epoll_wait os ep n t)"
  using assms unfolding interest_contract_def by simp_all

lemma interest_contract_wait:
  assumes "interest_contract os reg" and "sys_epoll_wait os ep n t k = (SysOk evs, k')" and "e \<in> set evs"
  shows "\<exists>fd ev. reg k ep fd = Some ev \<and> ev_ptr e = ev_ptr ev"
  using assms unfolding interest_contract_def by blast

lemma syscall_keeps_lists:
  "keeps_lists reg f \<Longrightarrow> syscall f tag s = (r, t) \<Longrightarrow> reg (kern t) = reg (kern s)"
  by (auto simp: syscall_def keeps_lists_def split: prod.splits dest: spec [of _ "kern s"])

section \<open>The invariant\<close>

definition interest_ok :: "'k lists \<Rightarrow> ('k, 'z) reactor_scheme \<Rightarrow> bool" where
  "interest_ok reg s \<longleftrightarrow> (\<forall>q. channels s q \<noteq> None \<longrightarrow> q < next_ptr s) \<and>
     (\<forall>ep fd ev. reg (kern s) ep fd = Some ev \<longrightarrow>
        fd \<noteq> -1 \<and> (\<exists>ch. channels s (ev_ptr ev) = Some ch \<and> ch_fd ch = fd))"

lemma interest_okD:
  "interest_ok reg s \<Longrightarrow> reg (kern s) ep fd = Some ev \<Longrightarrow>
   fd \<noteq> -1 \<and> (\<exists>ch. channels s (ev_ptr ev) = Some ch \<and> ch_fd ch = fd)"
  "interest_ok reg s \<Longrightarrow> channels s q \<noteq> None \<Longrightarrow> q < next_ptr s"
  unfolding interest_ok_def by blast+

lemma interest_same:
  assumes "reg (kern t) = reg (kern s)" and "channels t = channels s" and "next_ptr t = next_ptr s"
  shows "interest_ok reg t = interest_ok reg s"
  using assms by (simp add: interest_ok_def)

lemma interest_fewer:
  assumes "interest_ok reg s" and "channels t = channels s" and "next_ptr s \<le> next_ptr t"
    and "\<And>ep fd. reg (kern t) ep fd = None \<or> reg (kern t) ep fd = reg (kern s) ep fd"
  shows "interest_ok reg t"
  unfolding interest_ok_def
proof (intro conjI allI impI)
  fix q
  assume "channels t q \<noteq> None"
  with assms(1-3) interest_okD(2) [of reg s q] show "q < next_ptr t" by simp
next
  fix ep fd ev
  assume "reg (kern t) ep fd = Some ev"
  with assms(4) [of ep fd] have "reg (kern s) ep fd = Some ev" by auto
  from interest_okD(1) [OF assms(1) this] assms(2)
  show "fd \<noteq> -1" and "\<exists>ch. channels t (ev_ptr ev) = Some ch \<and> ch_fd ch = fd" by simp_all
qed

text \<open>Writing to a channel, except to its descriptor, creating one, and destroying one.\<close>

lemma interest_update:
  assumes "interest_ok reg s" and "channels s q = Some ch" and "ch_fd ch' = ch_fd ch"
  shows "interest_ok reg (s\<lparr>channels := (channels s)(q \<mapsto> ch')\<rparr>)"
  using assms unfolding interest_ok_def by auto fastforce+

lemma interest_new:
  assumes "interest_ok reg s"
  shows "interest_ok reg (s\<lparr>channels := (channels s)(next_ptr s \<mapsto> ch), next_ptr := Suc (next_ptr s)\<rparr>)"
proof -
  have "channels s (next_ptr s) = None"
    using interest_okD(2) [OF assms, of "next_ptr s"] by (cases "channels s (next_ptr s)") auto
  then show ?thesis using assms unfolding interest_ok_def by (auto simp: less_Suc_eq) fastforce+
qed

lemma interest_destroy:
  assumes "interest_ok reg s" and "channels s q = Some ch"
    and "\<And>ep. reg (kern t) ep (ch_fd ch) = None"
    and "\<And>ep fd. reg (kern t) ep fd = None \<or> reg (kern t) ep fd = reg (kern s) ep fd"
    and "channels t = (channels s)(q := None)" and "next_ptr t = next_ptr s"
  shows "interest_ok reg t"
  unfolding interest_ok_def
proof (intro conjI allI impI)
  fix q'
  assume "channels t q' \<noteq> None"
  with assms(1,5,6) interest_okD(2) [of reg s q'] show "q' < next_ptr t" by (auto split: if_splits)
next
  fix ep fd ev
  assume ev: "reg (kern t) ep fd = Some ev"
  with assms(4) [of ep fd] have "reg (kern s) ep fd = Some ev" by auto
  from interest_okD(1) [OF assms(1) this] obtain c where
    c: "fd \<noteq> -1" "channels s (ev_ptr ev) = Some c" "ch_fd c = fd" by blast
  with ev assms(2,3) have "ev_ptr ev \<noteq> q" by auto
  with c assms(5) show "fd \<noteq> -1" and "\<exists>ch. channels t (ev_ptr ev) = Some ch \<and> ch_fd ch = fd" by simp_all
qed

text \<open>Registering a channel.\<close>

lemma interest_register:
  assumes "interest_ok reg s" and "channels s q = Some ch" and "ch_fd ch' = ch_fd ch" and "ch_fd ch \<noteq> -1"
    and "reg (kern t) = (reg (kern s))(ep := (reg (kern s) ep)(ch_fd ch := Some ev))" and "ev_ptr ev = q"
    and "channels t = (channels s)(q \<mapsto> ch')" and "next_ptr t = next_ptr s"
  shows "interest_ok reg t"
proof -
  have "interest_ok reg (s\<lparr>channels := (channels s)(q \<mapsto> ch')\<rparr>)"
    by (rule interest_update [OF assms(1-3)])
  then show ?thesis using assms(2-8) unfolding interest_ok_def by auto
qed

section \<open>Operations on the world alone\<close>

text \<open>Everything but the output, the trace and the part of the kernel that is not interest lists.\<close>

definition outer :: "'k lists \<Rightarrow> ('k, 'z) world_scheme \<Rightarrow> 'z \<times> (int \<Rightarrow> int \<Rightarrow> epoll_event option)" where
  "outer reg s = (world.more s, reg (kern s))"

lemma outer_syscall: "keeps_lists reg f \<Longrightarrow> syscall f tag s = (r, t) \<Longrightarrow> outer reg t = outer reg s"
  by (simp add: outer_def syscall_frame(3) syscall_keeps_lists)

lemma outer_print [simp]: "outer reg (print_out m s) = outer reg s"
  by (simp add: outer_def)

lemma interest_outer:
  fixes s t :: "('k, 'z) reactor_scheme"
  assumes "outer reg t = outer reg s"
  shows "interest_ok reg t = interest_ok reg s"
proof (rule interest_same)
  show "reg (kern t) = reg (kern s)" using assms by (simp add: outer_def)
  have "world.more t = world.more s" using assms by (simp add: outer_def)
  then have t: "t = s\<lparr>kern := kern t, cout := cout t, calls := calls t\<rparr>" by (cases s; cases t) simp
  show "channels t = channels s" and "next_ptr t = next_ptr s" by (subst t, simp)+
qed

lemma preserves_outer:
  fixes m :: "(('k, 'z) reactor_scheme, 'a) cpp"
  assumes "world_only (outer reg) m"
  shows "preserves (interest_ok reg) m"
proof (rule preservesI)
  fix s r t
  assume "interest_ok reg s" and "m s = Some (r, t)"
  then show "interest_ok reg t" using interest_outer [OF world_onlyD(1) [OF assms]] by blast
qed

lemma outer_calls:
  assumes "interest_contract os reg"
  shows "do_socket os s = (r1, t) \<Longrightarrow> outer reg t = outer reg s"
    and "do_bind os fd a n s = (r2, t) \<Longrightarrow> outer reg t = outer reg s"
    and "do_listen os fd s = (r2, t) \<Longrightarrow> outer reg t = outer reg s"
    and "do_accept os fd s = (r3, t) \<Longrightarrow> outer reg t = outer reg s"
    and "do_read os fd m s = (r4, t) \<Longrightarrow> outer reg t = outer reg s"
    and "do_write os fd bs s = (r5, t) \<Longrightarrow> outer reg t = outer reg s"
    and "do_epoll_wait os ep m timeout s = (r6, t) \<Longrightarrow> outer reg t = outer reg s"
    and "outer reg (do_setfl os fd fl s) = outer reg s"
  unfolding do_socket_def do_bind_def do_listen_def do_accept_def do_read_def do_write_def
    do_epoll_wait_def
  by (erule outer_syscall [rotated], rule interest_contractD(3-6,8,9,13) [OF assms])+
    (simp add: outer_def do_setfl_def interest_contractD(7) [OF assms])

lemma world_only_sysres:
  "(\<And>e. world_only rest (f e)) \<Longrightarrow> (\<And>x. world_only rest (g x)) \<Longrightarrow>
   world_only rest (case r of SysErr e \<Rightarrow> f e | SysOk x \<Rightarrow> g x)"
  by (cases r) simp_all

lemma outer_sockets:
  assumes "interest_contract os reg"
  shows "world_only (outer reg) (new_Socket os)"
    and "world_only (outer reg) (Socket_of_fd fd)"
    and "world_only (outer reg) (Socket_Setnonblocking os fd)"
    and "world_only (outer reg) (Socket_Accept os fd ia)"
    and "world_only (outer reg) (Socket_Bind os fd ia)"
    and "world_only (outer reg) (Socket_Listen os fd)"
  unfolding new_Socket_def Socket_of_fd_def Socket_Setnonblocking_def Socket_Bind_def Socket_Listen_def
  by (intro world_only_bindC world_only_seqC world_only_rules world_only_sysres
      world_only_Accept_rest; (erule outer_calls [OF assms])?; (rule outer_calls [OF assms])?)+

section \<open>Every operation keeps the invariant\<close>

lemma preserves_option [preserving]:
  "preserves P m \<Longrightarrow> (\<And>x. preserves P (f x)) \<Longrightarrow>
   preserves P (case v of None \<Rightarrow> m | Some x \<Rightarrow> f x)"
  by (cases v) simp_all

lemma preserves_sysres [preserving]:
  "(\<And>e. preserves P (f e)) \<Longrightarrow> (\<And>x. preserves P (g x)) \<Longrightarrow>
   preserves P (case r of SysErr e \<Rightarrow> f e | SysOk x \<Rightarrow> g x)"
  by (cases r) simp_all

lemma interest_fields [simp]:
  "interest_ok reg (s\<lparr>event_loops := e\<rparr>) = interest_ok reg s"
  "interest_ok reg (s\<lparr>calls := cs\<rparr>) = interest_ok reg s"
  "interest_ok reg (s\<lparr>cout := out\<rparr>) = interest_ok reg s"
  "interest_ok reg (print_out m s) = interest_ok reg s"
  by (simp_all add: interest_ok_def)

lemma interest_server_fields [simp]:
  "interest_ok reg (s\<lparr>conns := c\<rparr>) = interest_ok reg s"
  "interest_ok reg (s\<lparr>use_count := n\<rparr>) = interest_ok reg s"
  "interest_ok reg (s\<lparr>connections := m\<rparr>) = interest_ok reg s"
  "interest_ok reg (s\<lparr>sub_reactors := ls\<rparr>) = interest_ok reg s"
  "interest_ok reg (s\<lparr>main_reactor := l\<rparr>) = interest_ok reg s"
  "interest_ok reg (s\<lparr>the_acceptor := a\<rparr>) = interest_ok reg s"
  "interest_ok reg (s\<lparr>on_connection_cb := f\<rparr>) = interest_ok reg s"
  "interest_ok reg (s\<lparr>on_message_cb := f\<rparr>) = interest_ok reg s"
  "interest_ok reg (s\<lparr>pool_tasks := ls\<rparr>) = interest_ok reg s"
  by (simp_all add: interest_ok_def)

lemma interest_bump: "interest_ok reg s \<Longrightarrow> interest_ok reg (s\<lparr>next_ptr := Suc (next_ptr s)\<rparr>)"
  by (auto simp: interest_ok_def less_Suc_eq)

text \<open>Closing a descriptor only removes registrations.\<close>

lemma interest_close:
  assumes "interest_contract os reg" and "interest_ok reg s"
  shows "interest_ok reg (do_close os fd s)"
  by (rule interest_fewer [OF assms(2)])
    (use interest_contractD(10) [OF assms(1)] in \<open>simp_all add: only_removes_def\<close>)

lemma preserves_delete_Socket [preserving]:
  "interest_contract os reg \<Longrightarrow> preserves (interest_ok reg) (delete_Socket os fd)"
  unfolding delete_Socket_def by (intro preserving) (rule interest_close)

lemma preserves_delete_Epoll [preserving]:
  "interest_contract os reg \<Longrightarrow> preserves (interest_ok reg) (delete_Epoll os fd)"
  unfolding delete_Epoll_def by (intro preserving) (rule interest_close)

lemma preserves_delete_EventLoop [preserving]:
  "interest_contract os reg \<Longrightarrow> preserves (interest_ok reg) (delete_EventLoop os l)"
  unfolding delete_EventLoop_def by (intro preserving) (auto simp del: fun_upd_apply)

lemma preserves_new_EventLoop [preserving]:
  assumes "interest_contract os reg"
  shows "preserves (interest_ok reg) (new_EventLoop os)"
proof -
  have create: "interest_ok reg t" if "interest_ok reg s" "do_epoll_create os s = (r, t)" for s r t
  proof (rule interest_fewer [OF that(1)])
    note frame = syscall_reactor_frame [OF that(2) [unfolded do_epoll_create_def]]
    show "channels t = channels s" "next_ptr s \<le> next_ptr t" using frame by simp_all
    have "kern t = snd (sys_epoll_create os (kern s))"
      using that(2) by (auto simp: do_epoll_create_def syscall_def split: prod.splits)
    with interest_contractD(12) [OF assms]
    show "reg (kern t) ep fd = None \<or> reg (kern t) ep fd = reg (kern s) ep fd" for ep fd
      unfolding only_removes_def by simp
  qed
  have "preserves (interest_ok reg) (new_Epoll os)"
    unfolding new_Epoll_def by (intro preserving) (erule (1) create)
  moreover have "preserves (interest_ok reg) (\<lambda>s. Some (Inr (next_ptr s),
       s\<lparr>event_loops := (event_loops s)(next_ptr s \<mapsto> \<lparr>epfd = ep, el_quit = False\<rparr>),
         next_ptr := Suc (next_ptr s)\<rparr>))" for ep
    by (auto simp: preserves_def interest_ok_def less_Suc_eq)
  ultimately show ?thesis unfolding new_EventLoop_def by (rule preserves_bindC)
qed

lemma preserves_new_Channel [preserving]: "preserves (interest_ok reg) (new_Channel l fd)"
  by (auto simp: preserves_def new_Channel_def interest_new)

lemma preserves_delete_Channel [preserving]:
  assumes "interest_contract os reg"
  shows "preserves (interest_ok reg) (delete_Channel os q)"
proof (rule preservesI)
  fix s r t
  assume ok: "interest_ok reg s" and run: "delete_Channel os q s = Some (r, t)"
  show "interest_ok reg t"
  proof (cases "channels s q")
    case None
    with ok run show ?thesis by (simp add: delete_Channel_def)
  next
    case (Some ch)
    define u where "u = (if ch_fd ch \<noteq> -1 then do_close os (ch_fd ch) s else s)"
    have t: "t = u\<lparr>channels := (channels s)(q := None)\<rparr>"
      using run Some by (auto simp: delete_Channel_def u_def)
    have "reg (kern u) ep (ch_fd ch) = None" for ep
      using interest_contractD(11) [OF assms] interest_okD(1) [OF ok, of ep "-1"]
      by (cases "reg (kern s) ep (-1)") (auto simp: u_def)
    moreover have "reg (kern u) ep fd = None \<or> reg (kern u) ep fd = reg (kern s) ep fd" for ep fd
      using interest_contractD(10) [OF assms] by (simp add: u_def only_removes_def)
    ultimately show ?thesis
      by (intro interest_destroy [OF ok Some]) (simp_all add: t u_def)
  qed
qed

text \<open>Registering a channel, or modifying its registration: the pointer stored is the channel's own.\<close>

lemma preserves_add_flags:
  assumes "interest_contract os reg"
  shows "preserves (interest_ok reg) (add_flags os m q)"
proof (rule preservesI)
  fix s r t
  assume ok: "interest_ok reg s" and run: "add_flags os m q s = Some (r, t)"
  show "interest_ok reg t"
  proof (cases "channels s q")
    case None
    with ok run show ?thesis by (simp add: add_flags_def)
  next
    case ch: (Some ch)
    let ?c = "ch\<lparr>listen_events := listen_events ch OR m\<rparr>"
    show ?thesis
    proof (cases "event_loops s (ch_loop ch)")
      case None
      with run ch have "t = s\<lparr>channels := (channels s)(q \<mapsto> ?c)\<rparr>"
        by (simp add: add_flags_def EventLoop_UpdateChannel_def)
      with ok ch show ?thesis by (simp add: interest_update)
    next
      case (Some el)
      let ?op = "if in_epoll ch then EPOLL_CTL_MOD else EPOLL_CTL_ADD"
      from add_flags_cases [OF ch Some, of os m] run obtain x k b cs where
        ctl: "sys_epoll_ctl os (epfd el) ?op (ch_fd ch) (chan_event q ?c) (kern s) = (x, k)" and
        t: "t = s\<lparr>kern := k, calls := cs, channels := (channels s)(q \<mapsto> ?c\<lparr>in_epoll := b\<rparr>)\<rparr>" by auto
      show ?thesis
      proof (cases "is_err x")
        case True
        have "reg k = reg (kern s)"
          by (rule epoll_ctl_contractD(1) [OF interest_contractD(1) [OF assms] ctl True])
        then have "interest_ok reg t = interest_ok reg
            (s\<lparr>channels := (channels s)(q \<mapsto> ?c\<lparr>in_epoll := b\<rparr>)\<rparr>)"
          by (intro interest_same) (simp_all add: t)
        with ok ch show ?thesis by (simp add: interest_update)
      next
        case False
        have "reg k = (reg (kern s))(epfd el := (reg (kern s) (epfd el))(ch_fd ch := Some (chan_event q ?c)))"
          by (rule epoll_ctl_contractD(2) [OF interest_contractD(1) [OF assms] ctl False])
        moreover have "ch_fd ch \<noteq> -1"
          using False ctl interest_contractD(2) [OF assms, of "epfd el" ?op "chan_event q ?c" "kern s"]
          by (metis fst_conv)
        ultimately show ?thesis
          by (intro interest_register [OF ok ch, where ch' = "?c\<lparr>in_epoll := b\<rparr>"
              and ev = "chan_event q ?c"])
            (simp_all add: t chan_event_def)
      qed
    qed
  qed
qed

lemma preserves_EnableRead [preserving]:
  "interest_contract os reg \<Longrightarrow> preserves (interest_ok reg) (Channel_EnableRead os q)"
  unfolding EnableRead_add_flags by (rule preserves_add_flags)

lemma preserves_UseET [preserving]:
  "interest_contract os reg \<Longrightarrow> preserves (interest_ok reg) (Channel_UseET os q)"
  unfolding UseET_add_flags by (rule preserves_add_flags)

lemma preserves_SetReadCallBack [preserving]:
  "preserves (interest_ok reg) (Channel_SetReadCallBack q f)"
  unfolding Channel_SetReadCallBack_def by (rule preserves_set_channel) (simp add: interest_update)

lemma preserves_interest_Poll [preserving]:
  assumes "interest_contract os reg"
  shows "preserves (interest_ok reg) (Epoll_Poll os ep timeout)"
  by (rule preserves_Poll) (simp_all add: interest_update interest_outer [OF outer_calls(7) [OF assms]])

subsection \<open>Connections\<close>

text \<open>The methods of a connection read, write and print.\<close>

definition outer_step :: "'k lists \<Rightarrow> (connection \<times> ('k, 'z) world_scheme, unit) cpp \<Rightarrow> bool" where
  "outer_step reg m \<longleftrightarrow> (\<forall>c w r y. m (c, w) = Some (r, y) \<longrightarrow> outer reg (snd y) = outer reg w)"

lemma outer_stepI:
  "(\<And>c w r c' w'. m (c, w) = Some (r, (c', w')) \<Longrightarrow> outer reg w' = outer reg w) \<Longrightarrow> outer_step reg m"
  by (auto simp: outer_step_def)

lemma outer_reads:
  assumes "interest_contract os reg"
  shows "reads os s y \<Longrightarrow> outer reg (snd (snd y)) = outer reg (snd s)"
  by (induction rule: reads.induct) (auto dest: outer_calls(5) [OF assms])

lemma outer_writes:
  assumes "interest_contract os reg"
  shows "writes os bs left s y \<Longrightarrow> outer reg (snd (snd y)) = outer reg (snd s)"
  by (induction rule: writes.induct) (auto dest: outer_calls(6) [OF assms])

lemma outer_step_Read:
  assumes "interest_contract os reg" and "read_bounded os"
  shows "outer_step reg (Connection_Read os)"
proof (rule outer_stepI)
  fix c and w :: "('a, 'b) world_scheme" and r c' w'
  assume run: "Connection_Read os (c, w) = Some (r, (c', w'))"
  let ?c1 = "c\<lparr>read_buffer := Buffer_ClearBuffer (read_buffer c)\<rparr>"
  consider "w' = print_out (''connection is disconnected'' @ endl) w"
    | "Connection_ReadNonBlocking os (?c1, w) = Some (r, (c', w'))"
    | "Connection_ReadBlocking os (?c1, w) = Some (r, (c', w'))"
    using run by (auto simp: Connection_Read_def Let_def split: if_splits)
  then show "outer reg w' = outer reg w"
  proof cases
    case 2
    from outer_reads [OF assms(1) ReadNonBlocking_reads [OF assms(2) 2]] show ?thesis by simp
  next
    case 3
    then show ?thesis
      by (auto simp: Connection_ReadBlocking_def Let_def
          split: prod.splits sysres.splits if_splits sum.splits dest: outer_calls(5) [OF assms(1)])
  qed simp
qed

lemma outer_step_Write:
  assumes "interest_contract os reg"
  shows "outer_step reg (Connection_Write os)"
proof (rule outer_stepI)
  fix c and w :: "('a, 'b) world_scheme" and r c' w'
  assume run: "Connection_Write os (c, w) = Some (r, (c', w'))"
  consider "w' = print_out (''connection is disconnected'' @ endl) w"
    | x c1 where "Connection_WriteNonBlocking os (c, w) = Some (x, (c1, w'))"
    | x c1 where "Connection_WriteBlocking os (c, w) = Some (x, (c1, w'))"
    using run by (auto simp: Connection_Write_def split: if_splits elim!: seqC_Some_cases)
  then show "outer reg w' = outer reg w"
  proof cases
    case 2
    then show ?thesis
      by (auto simp: Connection_WriteNonBlocking_def Let_def split: if_splits
          dest!: Write_loop_writes outer_writes [OF assms])
  next
    case 3
    then show ?thesis
      by (auto simp: Connection_WriteBlocking_def split: prod.splits sysres.splits
          dest: outer_calls(6) [OF assms])
  qed simp
qed

lemma outer_step_SetWriteBuffer: "outer_step reg (call_SetWriteBuffer str)"
  by (auto simp: outer_step_def call_SetWriteBuffer_def split: sum.splits)

lemma preserves_with_connection:
  fixes m :: "(connection \<times> ('k, 'z) server_scheme, unit) cpp"
  assumes "outer_step reg m"
  shows "preserves (interest_ok reg) (with_connection p m)"
proof (rule preservesI)
  fix s :: "('k, 'z) server_scheme" and r t
  assume ok: "interest_ok reg s" and run: "with_connection p m s = Some (r, t)"
  show "interest_ok reg t"
  proof (cases "conns s p")
    case None
    with ok run show ?thesis by (simp add: with_connection_def)
  next
    case (Some c)
    with run obtain y where m: "m (c, s) = Some (r, y)"
      and t: "t = (snd y)\<lparr>conns := (conns (snd y))(p \<mapsto> fst y)\<rparr>"
      by (auto simp: with_connection_def split: option.splits)
    from assms m have "outer reg (snd y) = outer reg s" unfolding outer_step_def by blast
    from interest_outer [OF this] ok show ?thesis by (simp add: t)
  qed
qed

lemma preserves_the_connection [preserving]: "preserves P (the_connection p)"
  by (auto simp: preserves_def the_connection_def split: option.splits)

lemma preserves_set_connection [preserving]: "preserves (interest_ok reg) (set_connection p f)"
  unfolding set_connection_def by (rule preserves_with_connection) (auto simp: outer_step_def)

lemma preserves_share [preserving]: "preserves (interest_ok reg) (share p)"
  unfolding share_def by (intro preserving) simp

lemma preserves_delete_Connection [preserving]:
  "interest_contract os reg \<Longrightarrow> preserves (interest_ok reg) (delete_Connection os p)"
  unfolding delete_Connection_def by (intro preserving) simp_all

lemma preserves_unshare [preserving]:
  "interest_contract os reg \<Longrightarrow> preserves (interest_ok reg) (unshare os p)"
  unfolding unshare_def by (intro preserving) simp_all

lemma preserves_shared_from_this [preserving]: "preserves (interest_ok reg) (shared_from_this p)"
  unfolding shared_from_this_def by (intro preserving)

lemma preserves_new_Connection [preserving]:
  assumes "interest_contract os reg"
  shows "preserves (interest_ok reg) (new_Connection os loop fd)"
proof -
  have fin: "preserves (interest_ok reg) (\<lambda>s. Some (Inr (next_ptr s),
      s\<lparr>conns := (conns s)(next_ptr s \<mapsto> c), next_ptr := Suc (next_ptr s)\<rparr>))" for c
    by (auto simp: preserves_def interest_ok_def less_Suc_eq)
  show ?thesis
    unfolding new_Connection_def
    by (intro preserving fin preserves_outer outer_sockets assms)
qed

lemma preserves_SetOnMessageCallBack [preserving]:
  "preserves (interest_ok reg) (Connection_SetOnMessageCallBack p func)"
  unfolding Connection_SetOnMessageCallBack_def by (intro preserving)

lemma preserves_SetDeleteConnectionCallBack [preserving]:
  "preserves (interest_ok reg) (Connection_SetDeleteConnectionCallBack p func)"
  unfolding Connection_SetDeleteConnectionCallBack_def by (intro preserving)

lemma preserves_DeleteConnection [preserving]:
  "interest_contract os reg \<Longrightarrow> preserves (interest_ok reg) (Server_DeleteConnection os fd)"
  unfolding Server_DeleteConnection_def by (intro preserving) simp_all

lemma preserves_Close [preserving]:
  assumes "interest_contract os reg"
  shows "preserves (interest_ok reg) (Connection_Close os p)"
proof -
  have "preserves (interest_ok reg) (case cb of DeleteConnectionCb \<Rightarrow> Server_DeleteConnection os fd)"
    for cb fd by (cases cb) (simp add: preserves_DeleteConnection [OF assms])
  then show ?thesis unfolding Connection_Close_def by (intro preserving)
qed

subsection \<open>Handlers, for every application\<close>

text \<open>An application whose callbacks keep the invariant, as those made of the operations above do.\<close>

definition usr_interest_ok :: "'k lists \<Rightarrow> ('k, 'z) usr \<Rightarrow> bool" where
  "usr_interest_ok reg usr \<longleftrightarrow> (\<forall>u p. preserves (interest_ok reg) (usr u p))"

lemma preserves_usr:
  "usr_interest_ok reg usr \<Longrightarrow> preserves (interest_ok reg) (usr u p)"
  by (simp add: usr_interest_ok_def)

lemma preserves_BusinessLogic [preserving]:
  assumes "interest_contract os reg" and "read_bounded os" and "usr_interest_ok reg usr"
  shows "preserves (interest_ok reg) (Connection_BusinessLogic os usr p)"
  unfolding Connection_BusinessLogic_def
  by (intro preserving preserves_with_connection outer_step_Read preserves_usr [OF assms(3)] assms(1,2))

lemma preserves_NewConnection [preserving]:
  assumes "interest_contract os reg" and "usr_interest_ok reg usr"
  shows "preserves (interest_ok reg) (Server_NewConnection os usr fd)"
  unfolding Server_NewConnection_def
  by (intro preserving preserves_usr [OF assms(2)] assms(1)) simp_all

lemma preserves_prod [preserving]:
  "(\<And>x y. preserves P (f x y)) \<Longrightarrow> preserves P (case v of (x, y) \<Rightarrow> f x y)"
  by (cases v) simp

lemma preserves_AcceptConnection [preserving]:
  assumes "interest_contract os reg" and "usr_interest_ok reg usr"
  shows "preserves (interest_ok reg) (Acceptor_AcceptConnection os usr)"
  unfolding Acceptor_AcceptConnection_def
  by (intro preserving preserves_outer outer_sockets [OF assms(1)] assms)

lemma preserves_run_callback [preserving]:
  assumes "interest_contract os reg" and "read_bounded os" and "usr_interest_ok reg usr"
  shows "preserves (interest_ok reg) (run_callback os usr cb)"
  by (cases cb) (simp_all add: preserves_AcceptConnection [OF assms(1,3)] preserves_BusinessLogic [OF assms])

subsection \<open>Constructing and destroying the server\<close>

lemma preserves_new_Acceptor [preserving]:
  "interest_contract os reg \<Longrightarrow> preserves (interest_ok reg) (new_Acceptor os l ia)"
  unfolding new_Acceptor_def by (intro preserving preserves_outer outer_sockets)

lemma preserves_new_EventLoops [preserving]:
  "interest_contract os reg \<Longrightarrow> preserves (interest_ok reg) (new_EventLoops os n)"
  by (induction n) (simp_all add: preserving)

lemma preserves_Server_init [preserving]:
  "interest_contract os reg \<Longrightarrow> preserves (interest_ok reg) (Server_init os inet_addr hw ip port)"
  unfolding Server_init_def by (intro preserving) simp_all

lemma preserves_delete_EventLoops [preserving]:
  "interest_contract os reg \<Longrightarrow> preserves (interest_ok reg) (delete_EventLoops os ls)"
  by (induction ls) (simp_all add: preserving)

lemma preserves_clear_connections [preserving]:
  assumes "interest_contract os reg"
  shows "preserves (interest_ok reg) (clear_connections os fds)"
proof (induction fds)
  case Nil
  show ?case unfolding clear_connections.simps by (rule preserves_basic)
next
  case (Cons fd fds)
  then show ?case unfolding clear_connections.simps by (intro preserving assms) simp_all
qed

lemma preserves_delete_Server [preserving]:
  assumes "interest_contract os reg"
  shows "preserves (interest_ok reg) (delete_Server os fds)"
proof -
  have "preserves (interest_ok reg) join_pool" by (auto simp: preserves_def join_pool_def)
  then show ?thesis
    unfolding delete_Server_def Server_destroy_loops_def delete_Acceptor_def by (intro preserving assms)
qed

end
