(* ===== verification/Pointers.thy ===== *)
theory Pointers
  imports Interest Programs
begin

text \<open>
  The reactors of a server side by side, each with the batch of channels its last \<open>epoll_wait\<close>
  reported and it has not handled yet. The pointers \<open>epoll_wait\<close> hands back are live at that
  moment, for every application; and when the application closes nothing, as the echo server, they
  are still live when their turn comes, whatever the other reactors have done in between.
\<close>

unbundle bit_operations_syntax

section \<open>Polling\<close>

lemma Poll_pointers:
  fixes s :: "('k, 'z) reactor_scheme"
  assumes contract: "interest_contract os reg" and ok: "interest_ok reg s"
    and run: "Epoll_Poll os ep timeout s = Some (r, t)"
  shows "(r = Inl (RuntimeError ''epoll wait error'') \<or>
      (\<exists>qs. r = Inr qs \<and> (\<forall>q \<in> set qs. channels t q \<noteq> None))) \<and>
    (\<forall>q. channels t q = None \<longleftrightarrow> channels s q = None)"
proof -
  obtain x w where wait: "do_epoll_wait os ep MAX_EVENTS timeout s = (x, w)" by force
  note frame = syscall_reactor_frame [OF wait [unfolded do_epoll_wait_def]]
  show ?thesis
  proof (cases x)
    case (SysErr e)
    with run wait frame show ?thesis by (auto simp: Epoll_Poll_def)
  next
    case (SysOk evs)
    have "sys_epoll_wait os ep MAX_EVENTS timeout (kern s) = (SysOk evs, kern w)"
      using syscall_frame(4) [OF wait [unfolded do_epoll_wait_def]] SysOk by simp
    note reported = interest_contract_wait [OF contract this]
    have "\<forall>e \<in> set evs. channels w (ev_ptr e) \<noteq> None"
    proof
      fix e
      assume "e \<in> set evs"
      then obtain fd ev where "reg (kern s) ep fd = Some ev" "ev_ptr e = ev_ptr ev"
        using reported by blast
      with interest_okD(1) [OF ok, of ep fd ev] frame(1) show "channels w (ev_ptr e) \<noteq> None" by auto
    qed
    note live = this
    from Poll_channels_run [OF live] obtain cs where
      cs: "Poll_channels evs w = Some (Inr (map ev_ptr evs), w\<lparr>channels := cs\<rparr>)"
      and at: "\<forall>p. cs p = (case map_of (rev (map (\<lambda>e. (ev_ptr e, ev_events e)) evs)) p of
          None \<Rightarrow> channels w p
        | Some v \<Rightarrow> map_option (\<lambda>ch. ch\<lparr>ready_events := v\<rparr>) (channels w p))" by blast
    have same: "cs p = None \<longleftrightarrow> channels s p = None" for p
      using at frame(1) by (simp split: option.split)
    have "r = Inr (map ev_ptr evs)" "t = w\<lparr>channels := cs\<rparr>"
      using run wait SysOk cs by (simp_all add: Epoll_Poll_def)
    with live same frame(1) show ?thesis by auto
  qed
qed

section \<open>The reactors side by side\<close>

text \<open>
  \<open>b l\<close> is the rest of the batch of loop \<open>l\<close>: a loop polls when it has handled its batch. Between
  the steps the kernel may do anything except change the interest lists. A step that throws ends
  the program, so the machine goes on only from steps that return.
\<close>

inductive sys_reach :: "'k os \<Rightarrow> 'k lists \<Rightarrow> ('k, 'z) usr \<Rightarrow>
    ('k, 'z) server_scheme \<Rightarrow> (nat \<Rightarrow> nat list) \<Rightarrow> bool" for os reg usr where
  sy_init: "blank s \<Longrightarrow> (\<And>ep fd. reg (kern s) ep fd = None) \<Longrightarrow> 0 < hw \<Longrightarrow>
     Server_init os inet_addr hw ip port s = Some (Inr u, t) \<Longrightarrow> sys_reach os reg usr t (\<lambda>l. [])"
| sy_connect: "sys_reach os reg usr s b \<Longrightarrow> Server_SetOnConnectCallback func s = Some (r, t) \<Longrightarrow>
     sys_reach os reg usr t b"
| sy_message: "sys_reach os reg usr s b \<Longrightarrow> Server_SetOnMessageCallback func s = Some (r, t) \<Longrightarrow>
     sys_reach os reg usr t b"
| sy_kernel: "sys_reach os reg usr s b \<Longrightarrow> reg k = reg (kern s) \<Longrightarrow>
     sys_reach os reg usr (s\<lparr>kern := k\<rparr>) b"
| sy_poll: "sys_reach os reg usr s b \<Longrightarrow> b l = [] \<Longrightarrow> event_loops s l = Some el \<Longrightarrow>
     Epoll_Poll os (epfd el) (-1) s = Some (Inr qs, t) \<Longrightarrow> sys_reach os reg usr t (b(l := qs))"
| sy_handle: "sys_reach os reg usr s b \<Longrightarrow> b l = q # qs \<Longrightarrow>
     Channel_HandleEvent (run_callback os usr) q s = Some (Inr u, t) \<Longrightarrow>
     sys_reach os reg usr t (b(l := qs))"

text \<open>Its states are states the server reaches, and the rounds of a loop that runs alone are among its runs.\<close>

lemma sys_server_reach: "sys_reach os reg usr s b \<Longrightarrow> server_reach os usr s"
proof (induction rule: sys_reach.induct)
  case (sy_poll s b l el qs t)
  show ?case by (rule sr_poll [OF sy_poll.IH sy_poll.hyps(4)]) (simp add: ended_def)
next
  case (sy_handle s b l q qs u t)
  show ?case by (rule sr_handle [OF sy_handle.IH sy_handle.hyps(3)]) (simp add: ended_def)
qed (auto intro: server_reach.intros)

lemma HandleEvents_reach:
  assumes "sys_reach os reg usr s b" and "b l = qs"
    and "HandleEvents (run_callback os usr) qs s = Some (Inr u, t)"
  shows "sys_reach os reg usr t (b(l := []))"
  using assms
proof (induction qs arbitrary: s b)
  case Nil
  then show ?case by (simp add: fun_upd_idem)
next
  case (Cons q qs)
  then obtain s1 where s1: "Channel_HandleEvent (run_callback os usr) q s = Some (Inr (), s1)"
    and rest: "HandleEvents (run_callback os usr) qs s1 = Some (Inr u, t)"
    by (auto simp: seqC_returns)
  have "sys_reach os reg usr s1 (b(l := qs))" by (rule sy_handle [OF Cons.prems(1,2) s1])
  from Cons.IH [OF this fun_upd_same rest] show ?case by (simp del: fun_upd_apply)
qed

lemma Loop_round_reach:
  assumes "sys_reach os reg usr s b" and "b l = []"
    and "Loop_round os (run_callback os usr) l s = Some (Inr u, t)"
  shows "sys_reach os reg usr t b"
proof -
  from assms(3) obtain el qs s1 where el: "event_loops s l = Some el"
    and poll: "Epoll_Poll os (epfd el) (-1) s = Some (Inr qs, s1)"
    and handle: "HandleEvents (run_callback os usr) qs s1 = Some (Inr u, t)"
    by (auto simp: Loop_round_def bindC_returns the_loop_def split: option.splits)
  have "sys_reach os reg usr s1 (b(l := qs))" by (rule sy_poll [OF assms(1,2) el poll])
  from HandleEvents_reach [OF this fun_upd_same handle] assms(2) show ?thesis
    by (simp add: fun_upd_idem del: fun_upd_apply)
qed

text \<open>The registered pointers are live in every reachable state, for every application that keeps them so.\<close>

lemma sys_interest_ok:
  fixes usr :: "('k, 'z) usr"
  assumes "interest_contract os reg" and "read_bounded os" and "usr_interest_ok reg usr"
    and "sys_reach os reg usr s b"
  shows "interest_ok reg s"
  using assms(4)
proof (induction rule: sys_reach.induct)
  case (sy_init s hw inet_addr ip port u t)
  have "interest_ok reg s" using sy_init(1,2) by (simp add: interest_ok_def blank_def)
  then show ?case by (rule preservesD [OF preserves_Server_init [OF assms(1)] sy_init(4)])
next
  case (sy_kernel s b k)
  have "interest_ok reg (s\<lparr>kern := k\<rparr>) = interest_ok reg s"
    by (rule interest_same) (simp_all add: sy_kernel.hyps)
  with sy_kernel.IH show ?case by simp
next
  case (sy_poll s b l el qs t)
  show ?case by (rule preservesD [OF preserves_interest_Poll [OF assms(1)] sy_poll.hyps(4) sy_poll.IH])
next
  case (sy_handle s b l q qs u t)
  show ?case
    by (rule preservesD [OF preserves_HandleEvent [OF preserves_run_callback [OF assms(1-3)]]
        sy_handle.hyps(3) sy_handle.IH])
qed (auto simp: Server_SetOnConnectCallback_def Server_SetOnMessageCallback_def)

section \<open>Applications that close nothing\<close>

text \<open>
  What a callback leaves alone when it only reads, writes, prints and logs: the channels, the
  owners and the map of the connections, and the interest lists.
\<close>

definition closes_nothing :: "'k lists \<Rightarrow> ('k, 'z) usr \<Rightarrow> bool" where
  "closes_nothing reg usr \<longleftrightarrow> (\<forall>u p s r t. usr u p s = Some (r, t) \<longrightarrow>
     channels t = channels s \<and> next_ptr t = next_ptr s \<and> connections t = connections s \<and>
     use_count t = use_count s \<and> reg (kern t) = reg (kern s))"

lemma closes_nothingD:
  assumes "closes_nothing reg usr" and "usr u p s = Some (r, t)"
  shows "channels t = channels s" "next_ptr t = next_ptr s" "connections t = connections s"
    "use_count t = use_count s" "reg (kern t) = reg (kern s)"
  using assms unfolding closes_nothing_def by blast+

lemma closes_nothing_interest:
  assumes "closes_nothing reg usr"
  shows "usr_interest_ok reg usr"
  unfolding usr_interest_ok_def
proof (intro allI preservesI)
  fix u p s r t
  assume "interest_ok reg s" and run: "usr u p s = Some (r, t)"
  note same = closes_nothingD [OF assms run]
  from interest_same [OF same(5,1,2)] \<open>interest_ok reg s\<close> show "interest_ok reg t" by simp
qed

text \<open>What a step of such a server leaves alone, and how it may grow.\<close>

definition quiet_step :: "'k lists \<Rightarrow> ('k, 'z) server_scheme \<Rightarrow> ('k, 'z) server_scheme \<Rightarrow> bool" where
  "quiet_step reg s t \<longleftrightarrow> channels t = channels s \<and> connections t = connections s \<and>
     reg (kern t) = reg (kern s)"

lemma quiet_step_simps [simp]:
  "quiet_step reg s s"
  "quiet_step reg s (t\<lparr>use_count := n\<rparr>) = quiet_step reg s t"
  "quiet_step reg s (t\<lparr>conns := c\<rparr>) = quiet_step reg s t"
  by (simp_all add: quiet_step_def)

lemma quiet_step_trans: "quiet_step reg s t \<Longrightarrow> quiet_step reg t u \<Longrightarrow> quiet_step reg s u"
  by (simp add: quiet_step_def)

lemma quiet_outer:
  fixes s t :: "('k, 'z) server_scheme"
  assumes "outer reg t = outer reg s"
  shows "quiet_step reg s t" and "use_count t = use_count s" and "conns t = conns s"
proof -
  have "world.more t = world.more s" using assms by (simp add: outer_def)
  from world_more_fields [OF this] assms
  show "quiet_step reg s t" and "use_count t = use_count s" and "conns t = conns s"
    by (simp_all add: quiet_step_def outer_def)
qed

lemma quiet_wait:
  fixes s t :: "('k, 'z) server_scheme"
  shows "interest_contract os reg \<Longrightarrow> do_epoll_wait os ep n timeout s = (r, t) \<Longrightarrow> quiet_step reg s t"
  by (rule quiet_outer(1), rule outer_calls(7))

definition filed_registered :: "'k lists \<Rightarrow> ('k, 'z) server_scheme \<Rightarrow> bool" where
  "filed_registered reg s \<longleftrightarrow>
     (\<forall>fd. connections s fd \<noteq> None \<longrightarrow> (\<exists>ep. reg (kern s) ep fd \<noteq> None))"

definition grows :: "'k lists \<Rightarrow> ('k, 'z) server_scheme \<Rightarrow> ('k, 'z) server_scheme \<Rightarrow> bool" where
  "grows reg s t \<longleftrightarrow> (\<forall>q. channels s q \<noteq> None \<longrightarrow> channels t q \<noteq> None) \<and>
     (filed_registered reg s \<longrightarrow> filed_registered reg t)"

lemma quiet_grows: "quiet_step reg s t \<Longrightarrow> grows reg s t"
  by (simp add: quiet_step_def grows_def filed_registered_def)

lemma grows_trans: "grows reg s t \<Longrightarrow> grows reg t u \<Longrightarrow> grows reg s u"
  by (simp add: grows_def)

text \<open>Calling a callback with a reference of its own does not drop the last one.\<close>

lemma scoped_returns:
  "scoped m clean s = Some (Inr x, t) \<Longrightarrow> \<exists>u. m s = Some (Inr (), u) \<and> clean u = Some (Inr x, t)"
  by (auto simp: scoped_def seqC_returns dest: unwinding_returns)

lemma owned_call_quiet:
  fixes usr :: "('k, 'z) usr"
  assumes "closes_nothing reg usr" and "0 < use_count s p" and m: "m = usr u p \<or> m = throw e"
    and run: "seqC (share p) (scoped m (unshare os p)) s = Some (Inr x, t)"
  shows "quiet_step reg s t"
proof -
  define s1 where "s1 = s\<lparr>use_count := (use_count s)(p := Suc (use_count s p))\<rparr>"
  from run have "scoped m (unshare os p) s1 = Some (Inr x, t)" by (simp add: share_def s1_def)
  from scoped_returns [OF this] obtain s2 where
    s2: "m s1 = Some (Inr (), s2)" "unshare os p s2 = Some (Inr x, t)" by blast
  with m have call: "usr u p s1 = Some (Inr (), s2)" by auto
  have "quiet_step reg s s2" "use_count s2 = use_count s1"
    using closes_nothingD [OF assms(1) call] by (simp_all add: quiet_step_def s1_def)
  moreover have "t = s2\<lparr>use_count := (use_count s2)(p := use_count s2 p - 1)\<rparr>"
    using s2(2) assms(2) \<open>use_count s2 = use_count s1\<close> by (simp add: unshare_def s1_def)
  ultimately show ?thesis by simp
qed

lemma the_connection_state: "the_connection p s = Some (Inr c, t) \<Longrightarrow> t = s"
  by (simp add: the_connection_def split: option.splits)

lemma BusinessLogic_quiet:
  fixes usr :: "('k, 'z) usr"
  assumes "interest_contract os reg" and "read_bounded os" and "closes_nothing reg usr"
    and run: "Connection_BusinessLogic os usr p s = Some (Inr u, t)"
  shows "quiet_step reg s t"
proof -
  from run obtain s1 c s1' s2 where
    rd: "with_connection p (Connection_Read os) s = Some (Inr (), s1)" and
    c: "the_connection p s1 = Some (Inr c, s1')" and
    sh: "shared_from_this p s1' = Some (Inr (), s2)" and
    call: "scoped (case on_message_callback c of None \<Rightarrow> throw BadFunctionCall | Some u \<Rightarrow> usr u p)
      (unshare os p) s2 = Some (Inr u, t)"
    unfolding Connection_BusinessLogic_def bindC_returns seqC_returns by (elim exE conjE) (rule that)
  note sh = sh [unfolded the_connection_state [OF c]]
  from rd obtain c0 y where y: "Connection_Read os (c0, s) = Some (Inr (), y)"
    and s1: "s1 = (snd y)\<lparr>conns := (conns (snd y))(p \<mapsto> fst y)\<rparr>"
    by (auto simp: with_connection_def split: option.splits)
  have "outer reg (snd y) = outer reg s"
    using outer_step_Read [OF assms(1,2)] y unfolding outer_step_def by blast
  then have "quiet_step reg s s1" using quiet_outer(1) by (simp add: s1)
  moreover have live: "0 < use_count s1 p" using sh by (auto simp: shared_from_this_def split: if_splits)
  then have "seqC (share p) (scoped (case on_message_callback c of None \<Rightarrow> throw BadFunctionCall
      | Some u \<Rightarrow> usr u p) (unshare os p)) s1 = Some (Inr u, t)"
    using sh call by (simp add: shared_from_this_def share_def)
  then have "quiet_step reg s1 t"
    by (cases "on_message_callback c") (auto intro: owned_call_quiet [OF assms(3) live])
  ultimately show ?thesis by (rule quiet_step_trans)
qed

text \<open>
  \<open>accept\<close> hands out a descriptor that was not open, so one that no list has. The server has every
  descriptor of its map in some list, so the new connection never replaces one that is there.
\<close>

definition accepts_fresh :: "'k os \<Rightarrow> 'k lists \<Rightarrow> bool" where
  "accepts_fresh os reg \<longleftrightarrow>
     (\<forall>fd k c a n k' ep. sys_accept os fd k = (SysOk (c, a, n), k') \<longrightarrow> reg k ep c = None)"

lemma do_accept_fresh:
  assumes "interest_contract os reg" and "accepts_fresh os reg"
    and acc: "do_accept os fd s = (SysOk (c, a, n), t)"
  shows "reg (kern t) ep c = None"
proof -
  have "sys_accept os fd (kern s) = (SysOk (c, a, n), kern t)"
    by (rule syscall_frame(4) [OF acc [unfolded do_accept_def]])
  with assms(2) have "reg (kern s) ep c = None" unfolding accepts_fresh_def by blast
  with outer_calls(4) [OF assms(1) acc] show ?thesis by (simp add: outer_def)
qed

lemma Accept_loop_fresh:
  fixes s :: "('k, 'z) world_scheme"
  assumes "interest_contract os reg" and "accepts_fresh os reg"
    and run: "Accept_loop os fd s = Some (Inr (c, a, n), t)"
  shows "reg (kern t) ep c = None"
proof -
  define fresh where "fresh y \<longleftrightarrow> (\<forall>c a n. fst y = Inr (c, a, n) \<longrightarrow> reg (kern (snd y)) ep c = None)"
    for y :: "(fault + int \<times> sockaddr_in \<times> 32 word) \<times> ('k, 'z) world_scheme"
  have "os = os \<longrightarrow> fresh (Inr (c, a, n), t)"
  proof (rule Accept_loop.raw_induct [where P = "\<lambda>os' fd' w y. os' = os \<longrightarrow> fresh y", OF _ run],
      intro impI)
    fix loop os' fd' and w :: "('k, 'z) world_scheme" and y
    assume IH: "\<And>os' fd' w y. loop os' fd' w = Some y \<Longrightarrow> os' = os \<longrightarrow> fresh y"
      and eq: "(case do_accept os' fd' w of (r, w1) \<Rightarrow>
        (case r of
           SysOk c \<Rightarrow> Some (Inr c, w1)
         | SysErr e \<Rightarrow>
             if e = EAGAIN \<or> e = EWOULDBLOCK then loop os' fd' w1
             else Some (Inl (RuntimeError ''socket accept error''), w1))) = Some y"
      and same: "os' = os"
    show "fresh y"
      using eq same IH do_accept_fresh [OF assms(1,2)]
      by (auto simp: fresh_def split: prod.splits sysres.splits if_splits)
  qed
  then show ?thesis by (simp add: fresh_def)
qed

lemma Accept_fresh:
  fixes s :: "('k, 'z) world_scheme"
  assumes "interest_contract os reg" and "accepts_fresh os reg"
    and run: "Socket_Accept os fd ia s = Some (Inr (c, ia'), t)"
  shows "reg (kern t) ep c = None"
  using run Accept_loop_fresh [OF assms(1,2)] do_accept_fresh [OF assms(1,2)]
  by (auto simp: Socket_Accept_def bindC_returns split: prod.splits sysres.splits if_splits)

lemma NewConnection_grows:
  fixes s :: "('k, 'z) server_scheme"
  assumes "interest_contract os reg" and "closes_nothing reg usr"
    and wf: "server_wf {} (\<lambda>p. 0) s" and none: "connections s fd = None"
    and run: "Server_NewConnection os usr fd s = Some (Inr u, t)"
  shows "grows reg s t"
proof -
  let ?rs = "sub_reactors s" and ?q = "next_ptr s"
  let ?l = "?rs ! reactor_of fd (length ?rs)" and ?p = "Suc ?q"
  have subs: "?rs \<noteq> []" using wf by (simp add: server_wf_def reactors_ok_def)
  then have "?l \<in> set ?rs" using reactor_of_less [of "length ?rs" fd] by simp
  with wf_loop [OF wf] obtain el where el: "event_loops s ?l = Some el" by auto
  from NewConnection_filed [OF subs el none run] obtain own k k1 k2 t0 where
    ks: "sys_socket os (kern s) = (SysOk own, k1)"
      "sys_epoll_ctl os (epfd el) EPOLL_CTL_ADD fd \<lparr>ev_events = read_flags, ev_ptr = ?q\<rparr> k1 = (SysOk (), k2)"
      "sys_epoll_ctl os (epfd el) EPOLL_CTL_MOD fd
        \<lparr>ev_events = read_flags OR EPOLLET, ev_ptr = ?q\<rparr> k2 = (SysOk (), k)" and
    t0: "t0 = s\<lparr>kern := k, calls := calls s @ conn_calls own (epfd el) fd ?q,
      channels := (channels s)(?q \<mapsto> filed_channel ?l fd ?p), next_ptr := Suc ?p,
      conns := (conns s)(?p \<mapsto> filed_conn fd ?q (on_message_cb s)),
      use_count := (use_count s)(?p := 1), connections := (connections s)(fd \<mapsto> ?p)\<rparr>" and
    cb: "case on_connection_cb s of None \<Rightarrow> t = t0
      | Some u \<Rightarrow> seqC (share ?p) (scoped (usr u ?p) (unshare os ?p)) t0 = Some (Inr (), t)"
    by (auto simp: Let_def)
  note ctl = interest_contractD(1) [OF assms(1)]
  have "reg k1 = reg (kern s)"
    using interest_contractD(3) [OF assms(1)] ks(1) by (auto simp: keeps_lists_def dest: spec [of _ "kern s"])
  then have reg: "reg (kern t0) = (reg (kern s))(epfd el := (reg (kern s) (epfd el))(fd \<mapsto>
      \<lparr>ev_events = read_flags OR EPOLLET, ev_ptr = ?q\<rparr>))"
    using epoll_ctl_contractD(2) [OF ctl ks(2)] epoll_ctl_contractD(2) [OF ctl ks(3)] by (simp add: t0)
  then have "reg (kern t0) ep fd' \<noteq> None" if "reg (kern s) ep fd' \<noteq> None" for ep fd'
    using that by (cases "ep = epfd el") auto
  moreover have "reg (kern t0) (epfd el) fd \<noteq> None" using reg by simp
  moreover have "connections t0 = (connections s)(fd \<mapsto> ?p)" by (simp add: t0)
  ultimately have "filed_registered reg t0" if "filed_registered reg s"
    using that unfolding filed_registered_def by (metis fun_upd_other)
  moreover have "channels t0 q \<noteq> None" if "channels s q \<noteq> None" for q using that by (simp add: t0)
  ultimately have "grows reg s t0" by (simp add: grows_def)
  moreover have "quiet_step reg t0 t"
  proof (cases "on_connection_cb s")
    case None
    with cb show ?thesis by simp
  next
    case (Some f)
    have "0 < use_count t0 ?p" by (simp add: t0)
    from owned_call_quiet [OF assms(2) this disjI1 [OF refl]] cb Some show ?thesis by simp
  qed
  ultimately show ?thesis by (blast intro: grows_trans quiet_grows)
qed

lemma AcceptConnection_grows:
  fixes s :: "('k, 'z) server_scheme"
  assumes "interest_contract os reg" and "accepts_fresh os reg" and "closes_nothing reg usr"
    and wf: "server_wf {} (\<lambda>p. 0) s" and "filed_registered reg s"
    and run: "Acceptor_AcceptConnection os usr s = Some (Inr u, t)"
  shows "grows reg s t"
proof -
  from run obtain fd ia s1 s2 s3 where
    acc: "Socket_Accept os (acc_sock (the_acceptor s)) InetAddress_init s = Some (Inr (fd, ia), s1)" and
    s2: "Socket_of_fd fd s1 = Some (Inr fd, s2)" "Socket_Setnonblocking os fd s2 = Some (Inr (), s3)" and
    new: "Server_NewConnection os usr fd s3 = Some (Inr u, t)"
    by (auto simp: Acceptor_AcceptConnection_def bindC_returns seqC_returns Socket_of_fd_def Errif_def
        split: if_splits)
  note so = outer_sockets [OF assms(1)]
  have "outer reg s3 = outer reg s"
    using world_onlyD(1) [OF so(4) acc] world_onlyD(1) [OF so(2) s2(1)] world_onlyD(1) [OF so(3) s2(2)]
    by simp
  moreover have "outer reg s1 = outer reg s" by (rule world_onlyD(1) [OF so(4) acc])
  moreover have "reg (kern s1) ep fd = None" for ep by (rule Accept_fresh [OF assms(1,2) acc])
  ultimately have q: "quiet_step reg s s3" and fresh: "reg (kern s3) ep fd = None" for ep
    by (simp_all add: quiet_outer(1)) (simp add: outer_def)
  have more: "world.more s3 = world.more s" using \<open>outer reg s3 = outer reg s\<close> by (simp add: outer_def)
  from quiet_grows [OF q] assms(5) have "filed_registered reg s3" by (simp add: grows_def)
  with fresh have none: "connections s3 fd = None" unfolding filed_registered_def by auto
  have "server_wf {} (\<lambda>p. 0) s3" using wf wf_world [OF more] by blast
  from NewConnection_grows [OF assms(1,3) this none new] quiet_grows [OF q] show ?thesis
    by (blast intro: grows_trans)
qed

lemma run_callback_grows:
  fixes s :: "('k, 'z) server_scheme"
  assumes "interest_contract os reg" and "accepts_fresh os reg" and "read_bounded os"
    and "closes_nothing reg usr" and "server_wf {} (\<lambda>p. 0) s" and "filed_registered reg s"
    and "run_callback os usr cb s = Some (Inr u, t)"
  shows "grows reg s t"
  using assms AcceptConnection_grows [OF assms(1,2,4-6)] BusinessLogic_quiet [OF assms(1,3,4)]
  by (cases cb) (auto intro: quiet_grows)

section \<open>Handling a pointer that is still live\<close>

lemma HandleEvent_grows:
  fixes s :: "('k, 'z) server_scheme"
  assumes "interest_contract os reg" and "accepts_fresh os reg" and "read_bounded os" and "usr_ok usr"
    and "closes_nothing reg usr" and "server_wf {} (\<lambda>p. 0) s" and "filed_registered reg s"
    and ch: "channels s q = Some ch"
    and run: "Channel_HandleEvent (run_callback os usr) q s = Some (r, t)"
  shows "case r of Inr u \<Rightarrow> grows reg s t | Inl e \<Rightarrow> tolerated e"
proof -
  let ?cb = "if ready_events ch AND (EPOLLIN OR EPOLLPRI) \<noteq> 0
    then call_back (run_callback os usr) (read_callback ch) else ret ()"
  let ?rest = "bindC (the_channel q) (\<lambda>ch'. if ready_events ch' AND EPOLLOUT \<noteq> 0
    then call_back (run_callback os usr) (write_callback ch') else ret ())"
  note triple = triple_read_callback [OF assms(3,4), of "\<lambda>p. 0" q ch]
  have pre: "server_wf {} (\<lambda>p. 0) s \<and> channels s q = Some ch" using assms(6) ch by simp
  have "seqC ?cb ?rest s = Some (r, t)" using run ch by (simp add: Channel_HandleEvent_def)
  then show ?thesis
  proof (cases rule: seqC_Some_cases)
    case (1 e)
    then have "call_back (run_callback os usr) (read_callback ch) s = Some (Inl e, t)"
      by (simp split: if_splits)
    from tripleD(2) [OF triple pre this] 1(2) show ?thesis by (simp add: fails_def)
  next
    case (2 s1)
    have mid: "server_wf {} (\<lambda>p. 0) s1 \<and> grows reg s s1"
    proof (cases "ready_events ch AND (EPOLLIN OR EPOLLPRI) = 0")
      case True
      with 2(1) pre show ?thesis by (simp add: grows_def)
    next
      case False
      with 2(1) have called: "call_back (run_callback os usr) (read_callback ch) s = Some (Inr (), s1)"
        by simp
      then obtain cb where "run_callback os usr cb s = Some (Inr (), s1)"
        by (auto simp: call_back_def split: option.splits)
      from run_callback_grows [OF assms(1-3,5-7) this] tripleD(1) [OF triple pre called]
      show ?thesis by simp
    qed
    then obtain ch' where ch': "channels s1 q = Some ch'" using ch unfolding grows_def by auto
    from wf_chan [OF conjunct1 [OF mid] ch'] have "write_callback ch' = None" by (simp add: chan_ok_def)
    with 2(2) ch' mid show ?thesis by (auto simp: call_back_def split: if_splits)
  qed
qed

text \<open>Every pointer in a batch is live in every reachable state.\<close>

definition sys_ok :: "'k lists \<Rightarrow> ('k, 'z) server_scheme \<Rightarrow> (nat \<Rightarrow> nat list) \<Rightarrow> bool" where
  "sys_ok reg s b \<longleftrightarrow> server_wf {} (\<lambda>p. 0) s \<and> filed_registered reg s \<and>
     (\<forall>l. \<forall>q \<in> set (b l). channels s q \<noteq> None)"

lemma sys_ok_grows:
  "sys_ok reg s b \<Longrightarrow> server_wf {} (\<lambda>p. 0) t \<Longrightarrow> grows reg s t \<Longrightarrow> sys_ok reg t b"
  unfolding sys_ok_def grows_def by blast

lemma sys_ok_rest:
  assumes "sys_ok reg s b" and "b l = q # qs"
  shows "sys_ok reg s (b(l := qs))"
proof -
  have "set ((b(l := qs)) l') \<subseteq> set (b l')" for l' using assms(2) by auto
  with assms(1) show ?thesis unfolding sys_ok_def by blast
qed

lemma sys_reach_ok:
  fixes usr :: "('k, 'z) usr"
  assumes "interest_contract os reg" and "accepts_fresh os reg" and "read_bounded os" and "usr_ok usr"
    and "closes_nothing reg usr" and "sys_reach os reg usr s b"
  shows "sys_ok reg s b"
  using assms(6)
proof (induction rule: sys_reach.induct)
  case (sy_init s hw inet_addr ip port u t)
  with Server_init_wf [OF sy_init(1,3,4)] show ?case by (simp add: sys_ok_def filed_registered_def)
next
  case (sy_connect s b func r t)
  then show ?case by (auto simp: sys_ok_def filed_registered_def Server_SetOnConnectCallback_def)
next
  case (sy_message s b func r t)
  then show ?case by (auto simp: sys_ok_def filed_registered_def Server_SetOnMessageCallback_def)
next
  case (sy_kernel s b k)
  then show ?case by (simp add: sys_ok_def filed_registered_def wf_defs)
next
  case (sy_poll s b l el qs t)
  have "interest_ok reg s"
    by (rule sys_interest_ok [OF assms(1,3) closes_nothing_interest [OF assms(5)] sy_poll.hyps(1)])
  note poll = Poll_pointers [OF assms(1) this sy_poll.hyps(4)]
  have reach: "sys_reach os reg usr t (b(l := qs))"
    by (rule sys_reach.sy_poll [OF sy_poll.hyps])
  have wf: "server_wf {} (\<lambda>p. 0) t" by (rule reach_wf [OF assms(3,4) sys_server_reach [OF reach]])
  have "preserves (\<lambda>u. connections u = connections s \<and> reg (kern u) = reg (kern s))
      (Epoll_Poll os (epfd el) (-1))"
    by (intro preserves_Poll) (auto dest!: quiet_wait [OF assms(1)] simp: quiet_step_def)
  from preservesD [OF this sy_poll.hyps(4)]
  have "connections t = connections s \<and> reg (kern t) = reg (kern s)" by simp
  then have "filed_registered reg t" using sy_poll.IH by (simp add: sys_ok_def filed_registered_def)
  moreover have "channels t q \<noteq> None" if "q \<in> set ((b(l := qs)) l')" for q l'
  proof (cases "l' = l")
    case True
    with that conjunct1 [OF poll] show ?thesis by simp
  next
    case False
    with that sy_poll.IH have "channels s q \<noteq> None" by (auto simp: sys_ok_def)
    moreover have "channels t q = None \<longleftrightarrow> channels s q = None" using conjunct2 [OF poll] by (rule spec)
    ultimately show ?thesis by simp
  qed
  ultimately show ?case using wf by (simp add: sys_ok_def del: fun_upd_apply)
next
  case (sy_handle s b l q qs u t)
  have reach: "sys_reach os reg usr t (b(l := qs))"
    by (rule sys_reach.sy_handle [OF sy_handle.hyps])
  have wf: "server_wf {} (\<lambda>p. 0) t" by (rule reach_wf [OF assms(3,4) sys_server_reach [OF reach]])
  from sy_handle.IH sy_handle.hyps(2) obtain ch where "channels s q = Some ch"
    unfolding sys_ok_def by (metis list.set_intros(1) not_None_eq)
  from HandleEvent_grows [OF assms(1-5) _ _ this sy_handle.hyps(3)] sy_handle.IH
  have "grows reg s t" by (simp add: sys_ok_def)
  from sys_ok_rest [OF sys_ok_grows [OF sy_handle.IH wf this] sy_handle.hyps(2)] show ?case .
qed

section \<open>The two theorems\<close>

text \<open>
  C2: whatever the application does, by any interleaving of the reactors, every pointer in an
  interest list is that of a live channel on the descriptor it is registered for; so the channels
  a poll returns are alive, and a poll fails only when \<open>epoll_wait\<close> does.
\<close>

theorem registered_pointers_live:
  assumes "interest_contract os reg" and "read_bounded os" and "usr_interest_ok reg usr"
    and "sys_reach os reg usr s b"
  shows "(\<forall>ep fd ev. reg (kern s) ep fd = Some ev \<longrightarrow>
       fd \<noteq> -1 \<and> (\<exists>ch. channels s (ev_ptr ev) = Some ch \<and> ch_fd ch = fd)) \<and>
     (\<forall>ep timeout r t. Epoll_Poll os ep timeout s = Some (r, t) \<longrightarrow>
       r = Inl (RuntimeError ''epoll wait error'') \<or>
       (\<exists>qs. r = Inr qs \<and> (\<forall>q \<in> set qs. channels t q \<noteq> None)))"
proof -
  have ok: "interest_ok reg s" by (rule sys_interest_ok [OF assms])
  from interest_okD(1) [OF ok] Poll_pointers [OF assms(1) ok] show ?thesis by blast
qed

text \<open>The callbacks of the echo server close nothing.\<close>

definition log_keeps_lists :: "'k lists \<Rightarrow> (string \<Rightarrow> (('k, 'z) server_scheme, unit) cpp) \<Rightarrow> bool" where
  "log_keeps_lists reg log \<longleftrightarrow> (\<forall>m. world_only (outer reg) (log m))"

lemma log_keeps_world: "log_keeps_lists reg log \<Longrightarrow> world_only world.more (log m)"
  unfolding log_keeps_lists_def world_only_def outer_def prod.inject by blast

definition calm :: "'k lists \<Rightarrow> ('k, 'z) server_scheme \<Rightarrow> ('k, 'z) server_scheme \<Rightarrow> bool" where
  "calm reg s t \<longleftrightarrow> channels t = channels s \<and> next_ptr t = next_ptr s \<and>
     connections t = connections s \<and> use_count t = use_count s \<and> reg (kern t) = reg (kern s)"

lemma calm_outer:
  fixes s t :: "('k, 'z) server_scheme"
  assumes "outer reg t = outer reg s0"
  shows "calm reg s t = calm reg s s0"
proof -
  have "world.more t = world.more s0" using assms by (simp add: outer_def)
  from world_more_fields [OF this] assms show ?thesis by (simp add: calm_def outer_def)
qed

lemma preserves_calm_outer [preserving]:
  fixes m :: "(('k, 'z) server_scheme, 'a) cpp"
  assumes "world_only (outer reg) m"
  shows "preserves (calm reg s) m"
proof (rule preservesI)
  fix s0 r t
  assume "calm reg s s0" and "m s0 = Some (r, t)"
  with calm_outer [OF world_onlyD(1) [OF assms]] show "calm reg s t" by blast
qed

lemma preserves_calm_with_connection [preserving]:
  fixes m :: "(connection \<times> ('k, 'z) server_scheme, unit) cpp"
  assumes "outer_step reg m"
  shows "preserves (calm reg s) (with_connection p m)"
proof (rule preservesI)
  fix s0 :: "('k, 'z) server_scheme" and r t
  assume calm: "calm reg s s0" and run: "with_connection p m s0 = Some (r, t)"
  show "calm reg s t"
  proof (cases "conns s0 p")
    case None
    with calm run show ?thesis by (simp add: with_connection_def)
  next
    case (Some c)
    with run obtain y where m: "m (c, s0) = Some (r, y)"
      and t: "t = (snd y)\<lparr>conns := (conns (snd y))(p \<mapsto> fst y)\<rparr>"
      by (auto simp: with_connection_def split: option.splits)
    from assms m have "outer reg (snd y) = outer reg s0" unfolding outer_step_def by blast
    from calm_outer [OF this] calm show ?thesis by (simp add: t calm_def)
  qed
qed

lemma echo_closes_nothing:
  assumes "interest_contract os reg" and "log_keeps_lists reg log"
  shows "closes_nothing reg (echo_usr os log)"
proof -
  have log: "world_only (outer reg) (log m)" for m using assms(2) by (simp add: log_keeps_lists_def)
  have print: "world_only (outer reg) (modify (print_out m))" for m by (rule world_only_rules) simp
  have "preserves (calm reg s) (echo_on_connect log p)" for s p
    unfolding echo_on_connect_def by (intro preserving log print)
  moreover have "preserves (calm reg s) (echo_on_message os log p)" for s p
    unfolding echo_on_message_def
    by (intro preserving log print outer_step_SetWriteBuffer outer_step_Write [OF assms(1)])
  ultimately have keeps: "preserves (calm reg s) (echo_usr os log u p)" for s u p
    by (simp add: echo_usr_def preserves_basic(1))
  have "calm reg s t" if "echo_usr os log u p s = Some (r, t)" for u p s r t
    by (rule preservesD [OF keeps that]) (simp add: calm_def)
  then show ?thesis unfolding closes_nothing_def calm_def by blast
qed

text \<open>Nor do those of the server of one page.\<close>

lemma page_closes_nothing:
  fixes log :: "string \<Rightarrow> (('k, 'z) server_scheme, unit) cpp"
  assumes "interest_contract os reg" and "log_keeps_lists reg log"
  shows "closes_nothing reg (page_usr os log response)"
proof -
  have log: "world_only (outer reg) (log m)" for m using assms(2) by (simp add: log_keeps_lists_def)
  have "preserves (calm reg s) (page_on_connect log p)" for s p
    unfolding page_on_connect_def by (intro preserving log)
  moreover have "preserves (calm reg s) (page_on_message os response p)"
    for s :: "('k, 'z) server_scheme" and p
    unfolding page_on_message_def
    by (intro preserving outer_step_SetWriteBuffer outer_step_Write [OF assms(1)])
  ultimately have keeps: "preserves (calm reg s) (page_usr os log response u p)" for s u p
    by (simp add: page_usr_def preserves_basic(1))
  have "calm reg s t" if "page_usr os log response u p s = Some (r, t)" for u p s r t
    by (rule preservesD [OF keeps that]) (simp add: calm_def)
  then show ?thesis unfolding closes_nothing_def calm_def by blast
qed

lemma closing_nothing_safe:
  assumes "interest_contract os reg" and "accepts_fresh os reg" and "read_bounded os"
    and "usr_ok usr" and "closes_nothing reg usr" and "sys_reach os reg usr s b" and "q \<in> set (b l)"
  shows "channels s q \<noteq> None \<and>
     (\<forall>e t. Channel_HandleEvent (run_callback os usr) q s = Some (Inl e, t) \<longrightarrow> tolerated e)"
proof -
  have ok: "sys_ok reg s b" by (rule sys_reach_ok [OF assms(1-6)])
  with assms(7) obtain ch where ch: "channels s q = Some ch" unfolding sys_ok_def by blast
  have "tolerated e" if "Channel_HandleEvent (run_callback os usr) q s = Some (Inl e, t)" for e t
    using HandleEvent_grows [OF assms(1-5) _ _ ch that] ok by (simp add: sys_ok_def)
  with ch show ?thesis by simp
qed

text \<open>
  C3: neither the echo server nor the server of one page ever follows a dangling pointer. By any
  interleaving of its reactors, when the turn of a reported channel comes it is alive; handling it
  returns, or fails by an exception, or because a write buffer was too large for the stack; it never
  touches a channel or a connection that is gone.
\<close>

theorem servers_never_dangle:
  assumes "interest_contract os reg" and "accepts_fresh os reg" and "read_bounded os"
    and "log_keeps_lists reg log" and "usr = echo_usr os log \<or> usr = page_usr os log response"
    and "sys_reach os reg usr s b" and "q \<in> set (b l)"
  shows "channels s q \<noteq> None \<and>
     (\<forall>e t. Channel_HandleEvent (run_callback os usr) q s = Some (Inl e, t) \<longrightarrow>
       e \<noteq> BadWeakPtr \<and> (\<forall>u. e = Undefined u \<longrightarrow> u = BadVlaSize))"
proof -
  have "usr_ok (echo_usr os log)" by (rule echo_usr_ok) (rule log_keeps_world [OF assms(4)])
  moreover have "usr_ok (page_usr os log response)"
    by (rule page_usr_ok) (rule log_keeps_world [OF assms(4)])
  ultimately have "usr_ok usr" using assms(5) by blast
  moreover have "closes_nothing reg usr"
    using assms(5) echo_closes_nothing [OF assms(1,4)] page_closes_nothing [OF assms(1,4)] by blast
  ultimately show ?thesis
    using closing_nothing_safe [OF assms(1-3) _ _ assms(6,7)] by (auto simp: tolerated_def)
qed

end
