(* ===== verification/PointersWitnesses.thy ===== *)
theory PointersWitnesses
  imports Pointers ServerWitnesses
begin

text \<open>
  The theorems about the registered pointers on the scripted server: the main reactor has accepted
  a client and handled its batch, and the reactor of the client has been told of a message.
\<close>

unbundle bit_operations_syntax

lemma script_lists_outside: "ep \<notin> set script_fds \<or> fd \<notin> set script_fds \<Longrightarrow> script_lists k ep fd = None"
  by (auto simp: script_lists_def)

lemma script_lists_reg: "sk_reg k' = sk_reg k \<Longrightarrow> script_lists k' = script_lists k"
  by (intro ext) (simp add: script_lists_def)

lemma script_lists_contract: "epoll_ctl_contract script_os script_lists"
  unfolding epoll_ctl_contract_def
  by (auto simp: script_ctl_def script_lists_def fun_eq_iff split: sysres.splits if_splits)

lemma script_wait_reported:
  assumes "script_wait ep n t k = (SysOk evs, k')" and "e \<in> set evs"
  shows "\<exists>fd ev. script_lists k ep fd = Some ev \<and> ev_ptr e = ev_ptr ev"
  using assms
  by (auto simp: script_wait_def list_ex_iff dest!: in_set_takeD split: list.splits) metis

lemma script_interest: "interest_contract script_os script_lists"
proof -
  have minus: "-1 \<notin> set script_fds" by (simp add: script_fds_def)
  have "is_err (fst (script_ctl ep op (-1) ev k))" for ep op ev k
    using minus by (simp add: script_ctl_def)
  moreover have "keeps_lists script_lists (script_accept fd)" "keeps_lists script_lists (script_read fd n)"
    "keeps_lists script_lists (script_write fd bs)" "keeps_lists script_lists (script_wait ep n t)" for fd n bs ep t
    by (auto simp: keeps_lists_def script_read_def script_write_def script_accept_def script_wait_def
        split: list.splits sysres.splits intro!: script_lists_reg)
  moreover have "keeps_lists script_lists (sys_socket script_os)"
    "keeps_lists script_lists (sys_bind script_os fd a len)"
    "keeps_lists script_lists (sys_listen script_os fd)"
    "script_lists (sys_setfl script_os fd fl k) = script_lists k" for fd a len fl k
    by (simp_all add: keeps_lists_def script_lists_def fun_eq_iff)
  moreover have "only_removes script_lists (sys_close script_os fd)"
    "only_removes script_lists (snd \<circ> sys_epoll_create script_os)"
    "script_lists (sys_close script_os fd k) ep fd = None" for fd k ep
    by (auto simp: only_removes_def script_lists_def)
  moreover have "\<forall>ep n t k evs k'. script_wait ep n t k = (SysOk evs, k') \<longrightarrow>
      (\<forall>e \<in> set evs. \<exists>fd ev. script_lists k ep fd = Some ev \<and> ev_ptr e = ev_ptr ev)"
    using script_wait_reported by blast
  ultimately show ?thesis
    using script_lists_contract unfolding interest_contract_def script_os_fields(5,9,10,12,13) by simp
qed

lemma script_accepts_fresh: "accepts_fresh script_os script_lists"
proof -
  have "script_lists k ep c = None" if "list_all (\<lambda>ep. script_lists k ep c = None) script_fds" for k ep c
    using that script_lists_outside [of ep c k] by (cases "ep \<in> set script_fds") (auto simp: list_all_iff)
  then show ?thesis
    by (auto simp: accepts_fresh_def script_accept_def split: list.splits sysres.splits if_splits)
qed

text \<open>The run: construction, the message callback, a poll of the main reactor, its batch, a poll of the client's.\<close>

lemma main_loop_at:
  "event_loops server_ready 0 = Some \<lparr>epfd = 3, el_quit = False\<rparr>"
  "event_loops server_conn 3 = Some \<lparr>epfd = 6, el_quit = False\<rparr>"
  by (simp_all add: server_ready_def server_up_def server_conn_def server_built_def server_accepted_def)

lemma hello_sys_reach:
  "sys_reach script_os script_lists usr server_hello ((\<lambda>l. [])(0 := [], 3 := [4]))"
proof -
  have "sys_reach script_os script_lists usr server_up (\<lambda>l. [])"
    by (rule sy_init [OF blank_server_blank _ _ server_up_run])
      (simp_all add: server_blank_def hello_script_def script0_def script_lists_def)
  then have "sys_reach script_os script_lists usr server_ready (\<lambda>l. [])"
    by (rule sy_message [where r = "Inr ()" and func = "Some (UserCb 0)"])
      (simp add: server_ready_def Server_SetOnMessageCallback_def)
  then have "sys_reach script_os script_lists usr server_told ((\<lambda>l. [])(0 := [1]))"
    by (rule sy_poll [OF _ _ main_loop_at(1)]) (simp_all add: told_run [simplified])
  then have "sys_reach script_os script_lists usr server_conn ((\<lambda>l. [])(0 := [1], 0 := []))"
    by (rule sy_handle [OF _ _ accepted_run]) simp
  then have "sys_reach script_os script_lists usr server_conn ((\<lambda>l. [])(0 := []))"
    unfolding fun_upd_upd .
  then show ?thesis
    by (rule sy_poll [OF _ _ main_loop_at(2)]) (simp_all add: hello_run)
qed

text \<open>For an application that closes connections, the pointers in the lists are live all the same.\<close>

lemma closing_usr_interest: "usr_interest_ok script_lists closing_usr"
  by (simp add: usr_interest_ok_def closing_usr_def preserves_Close [OF script_interest])

theorem registered_pointers_live_witness:
  "\<exists>ev ch. script_lists (kern server_hello) 6 9 = Some ev \<and>
     channels server_hello (ev_ptr ev) = Some ch \<and> ch_fd ch = 9"
proof -
  have "script_lists (kern server_hello) 6 9 = Some \<lparr>ev_events = EPOLLIN OR EPOLLPRI OR EPOLLET, ev_ptr = 4\<rparr>"
    by (simp add: script_lists_def script_fds_def conn_kernel_def)
  with registered_pointers_live [OF script_interest script_read_bounded closing_usr_interest hello_sys_reach]
  show ?thesis by blast
qed

lemma silent_log_keeps: "log_keeps_lists reg silent_log"
  by (simp add: log_keeps_lists_def silent_log_def world_only_rules)

theorem servers_never_dangle_witness:
  "\<exists>ch. channels server_hello 4 = Some ch \<and> (\<nexists>t. Channel_HandleEvent
     (run_callback script_os (echo_usr script_os silent_log)) 4 server_hello = Some (Inl (Undefined UseAfterFree), t))"
proof -
  have "4 \<in> set (((\<lambda>l. [])(0 := [], 3 := [4::nat])) (3::nat))" by simp
  from servers_never_dangle [OF script_interest script_accepts_fresh script_read_bounded silent_log_keeps
      disjI1 [OF refl] hello_sys_reach this]
  show ?thesis by auto
qed

end
