(* ===== verification/SafeQueue.thy ===== *)
theory SafeQueue
  imports Fifo
begin

text \<open>
  \<open>SafeQueue\<close> (\<open>safe_queue.h\<close>): a queue behind a mutex. Each method holds the mutex for its whole
  body, so a method is one step of the thread that calls it. \<open>Front\<close> and \<open>Back\<close> of an empty
  \<open>std::queue\<close> are undefined.
\<close>

record 'a safe_queue =
  max_size :: int
  queue :: "'a list"

definition SafeQueue_init :: "int \<Rightarrow> 'a safe_queue" where
  "SafeQueue_init n = \<lparr>max_size = n, queue = []\<rparr>"

definition SafeQueue_Clear :: "'a safe_queue \<Rightarrow> 'a safe_queue" where
  "SafeQueue_Clear q = q"

text \<open>\<open>IsEmpty\<close> returns \<open>queue_.size()\<close>, converted to \<open>bool\<close>.\<close>

definition SafeQueue_IsEmpty :: "'a safe_queue \<Rightarrow> bool" where
  "SafeQueue_IsEmpty q \<longleftrightarrow> length (queue q) \<noteq> 0"

definition SafeQueue_Front :: "'a safe_queue \<Rightarrow> fault + 'a" where
  "SafeQueue_Front q = (if queue q = [] then Inl (Undefined EmptyQueue) else Inr (hd (queue q)))"

definition SafeQueue_Back :: "'a safe_queue \<Rightarrow> fault + 'a" where
  "SafeQueue_Back q = (if queue q = [] then Inl (Undefined EmptyQueue) else Inr (last (queue q)))"

definition SafeQueue_Push :: "'a \<Rightarrow> 'a safe_queue \<Rightarrow> 'a safe_queue" where
  "SafeQueue_Push t q = q\<lparr>queue := queue q @ [t]\<rparr>"

text \<open>
  \<open>Pop\<close> moves the front into its argument and says whether there was one: the argument comes back
  with the answer.
\<close>

definition SafeQueue_Pop :: "'a \<Rightarrow> 'a safe_queue \<Rightarrow> (bool \<times> 'a) \<times> 'a safe_queue" where
  "SafeQueue_Pop t q =
     (case queue q of
        [] \<Rightarrow> ((False, t), q)
      | x # xs \<Rightarrow> ((True, x), q\<lparr>queue := xs\<rparr>))"

section \<open>It is a queue\<close>

text \<open>
  What a caller works with: the queue, and the variable its \<open>Pop\<close> moves elements into.
\<close>

definition Push_from :: "'a \<Rightarrow> 'a \<times> 'a safe_queue \<Rightarrow> 'a \<times> 'a safe_queue" where
  "Push_from x = (\<lambda>(t, q). (t, SafeQueue_Push x q))"

definition Pop_into :: "'a \<times> 'a safe_queue \<Rightarrow> ('a \<times> 'a \<times> 'a safe_queue) option" where
  "Pop_into = (\<lambda>(t, q). case SafeQueue_Pop t q of ((b, x), q') \<Rightarrow> if b then Some (x, x, q') else None)"

interpretation sq: fifo_queue Push_from Pop_into "\<lambda>s. queue (snd s)"
  by unfold_locales
    (auto simp: Push_from_def SafeQueue_Push_def Pop_into_def SafeQueue_Pop_def split: list.splits)

lemma fold_Push_from: "fold Push_from xs (t, q) = (t, fold SafeQueue_Push xs q)"
  by (induction xs arbitrary: q) (simp_all add: Push_from_def)

text \<open>\<open>IsEmpty\<close> answers the opposite of its name.\<close>

lemma IsEmpty_inverted:
  "\<not> SafeQueue_IsEmpty q \<longleftrightarrow> SafeQueue_Front q = Inl (Undefined EmptyQueue)"
  by (simp add: SafeQueue_IsEmpty_def SafeQueue_Front_def)


end
