(* ===== verification/PoolProgram.thy ===== *)
theory PoolProgram
  imports ThreadPool
begin

text \<open>
  \<open>threadpool_test.cpp\<close>: a program whose main thread makes a pool, adds its tasks and deletes the
  pool. The environment of the tasks is the standard output.
\<close>

section \<open>A main thread\<close>

text \<open>
  The moves of the main thread in a run, without the choice of whom a notification wakes. The
  other moves are those of the workers.
\<close>

fun main_part :: "('e, 'r) label \<Rightarrow> ('e, 'r) label list" where
  "main_part (LAdd f) = [LAdd f]"
| "main_part (LNotify w) = [LNotify None]"
| "main_part LStop = [LStop]"
| "main_part LNotifyAll = [LNotifyAll]"
| "main_part LJoin = [LJoin]"
| "main_part _ = []"

definition main_moves :: "('e, 'r) label list \<Rightarrow> ('e, 'r) label list" where
  "main_moves ls = concat (map main_part ls)"

text \<open>All tasks are added, then the destructor runs; its loop joins each of the \<open>n\<close> workers and ends.\<close>

definition add_and_delete :: "nat \<Rightarrow> ('e, 'r) closure list \<Rightarrow> ('e, 'r) label list" where
  "add_and_delete n fs =
     concat (map (\<lambda>f. [LAdd f, LNotify None]) fs) @ [LStop, LNotifyAll] @ replicate (Suc n) LJoin"

lemma main_moves_simps [simp]:
  "main_moves [] = []" "main_moves (l # ls) = main_part l @ main_moves ls"
  by (simp_all add: main_moves_def)

subsection \<open>What was added\<close>

text \<open>An \<open>Add\<close> after the destructor has begun throws.\<close>

fun added :: "('e, 'r) label list \<Rightarrow> ('e, 'r) closure list" where
  "added [] = []"
| "added (LAdd f # ls) = f # added ls"
| "added (LStop # ls) = []"
| "added (l # ls) = added ls"

lemma stopped_packaged:
  "exec pool_step ls s = Some t \<Longrightarrow> stop s \<Longrightarrow> packaged t = packaged s"
proof (induction ls arbitrary: s)
  case (Cons l ls)
  from Cons.prems(1) obtain u where u: "pool_step l s = Some u" "exec pool_step ls u = Some t"
    by (rule exec_ConsE)
  have "packaged u = packaged s"
    using u(1) Cons.prems(2)
    by (cases rule: pool_step_cases) (auto simp: worker_run_def notify_all_def split: prod.splits)
  with Cons.IH [OF u(2) stop_stays [OF u(1) Cons.prems(2)]] show ?case by simp
qed simp

lemma exec_packaged:
  "exec pool_step ls s = Some t \<Longrightarrow> \<not> stop s \<Longrightarrow> packaged t = packaged s @ added ls"
proof (induction ls arbitrary: s)
  case (Cons l ls)
  from Cons.prems(1) obtain u where u: "pool_step l s = Some u" "exec pool_step ls u = Some t"
    by (rule exec_ConsE)
  from u(1) show ?case
  proof (cases rule: pool_step_cases)
    case (add f)
    then show ?thesis using Cons.IH [OF u(2)] Cons.prems(2) by simp
  next
    case stops
    then show ?thesis using stopped_packaged [OF u(2)] by simp
  next
    case (runs i x)
    have "stop u = stop s \<and> packaged u = packaged s"
      by (simp add: runs worker_run_def split: prod.splits)
    then show ?thesis using Cons.IH [OF u(2)] Cons.prems(2) runs(1) by simp
  qed (use Cons.IH [OF u(2)] Cons.prems(2) in \<open>simp_all add: notify_all_def\<close>)
qed simp

lemma added_main: "added (main_moves ls) = added ls"
proof (induction ls)
  case (Cons l ls)
  then show ?case by (cases l) simp_all
qed simp

lemma added_program: "added (add_and_delete n fs) = fs"
  by (induction fs) (simp_all add: add_and_delete_def)

subsection \<open>How far the destructor is\<close>

fun dtor_move :: "nat \<Rightarrow> ('e, 'r) label \<Rightarrow> dtor \<Rightarrow> dtor" where
  "dtor_move n LStop d = StopSet"
| "dtor_move n LNotifyAll d = Joining 0"
| "dtor_move n LJoin d = (case d of Joining k \<Rightarrow> if k = n then Destroyed else Joining (Suc k) | _ \<Rightarrow> d)"
| "dtor_move n l d = d"

lemma dtor_move_step:
  assumes "pool_step l s = Some t" and "dtor_ok s"
  shows "dtor t = dtor_move (length (threads s)) l (dtor s)"
  using assms(1)
proof (cases rule: pool_step_cases)
  case (joins k)
  then show ?thesis by (auto simp: worker_at_def)
next
  case (runs i x)
  then show ?thesis by (simp add: worker_run_def split: prod.splits)
qed (simp_all add: notify_all_def)

lemma exec_dtor:
  "exec pool_step ls s = Some t \<Longrightarrow> pool_wf e s \<Longrightarrow>
   dtor t = fold (dtor_move (length (threads s))) ls (dtor s)"
proof (induction ls arbitrary: s)
  case (Cons l ls)
  from Cons.prems(1) obtain u where u: "pool_step l s = Some u" "exec pool_step ls u = Some t"
    by (rule exec_ConsE)
  have "dtor_ok s" using Cons.prems(2) by (simp add: pool_wf_def)
  with Cons.IH [OF u(2) pool_wf_step [OF Cons.prems(2) u(1)]] dtor_move_step [OF u(1)]
    pool_step_length [OF u(1)]
  show ?case by simp
qed simp

lemma fold_main: "fold (dtor_move n) (main_moves ls) d = fold (dtor_move n) ls d"
proof (induction ls arbitrary: d)
  case (Cons l ls)
  then show ?case by (cases l) simp_all
qed simp

lemma fold_joins: "k \<le> n \<Longrightarrow> fold (dtor_move n) (replicate (Suc (n - k)) LJoin) (Joining k) = Destroyed"
proof (induction "n - k" arbitrary: k)
  case (Suc m)
  then have "n - k = Suc (n - Suc k)" and "k \<noteq> n" by simp_all
  with Suc.hyps(1) [of "Suc k"] Suc.hyps(2) Suc.prems show ?case by simp
qed simp

lemma fold_program: "fold (dtor_move n) (add_and_delete n fs) d = Destroyed"
proof -
  have "fold (dtor_move n) (concat (map (\<lambda>f. [LAdd f, LNotify None]) fs)) d = d"
    by (induction fs) simp_all
  with fold_joins [of 0 n] show ?thesis by (simp add: add_and_delete_def)
qed

subsection \<open>The end of the program\<close>

lemma deleted_pool:
  fixes s :: "('e, 'r) pool"
  assumes run: "exec pool_step ls (ThreadPool_init (int n) e) = Some s"
    and main: "main_moves ls = add_and_delete n fs"
  shows "dtor s = Destroyed" and "packaged s = fs" and "pool_reach (int n) e s"
proof -
  have "length (threads (ThreadPool_init (int n) e :: ('e, 'r) pool)) = n"
    by (simp add: ThreadPool_init_def start_workers_eq)
  with exec_dtor [OF run init_wf] fold_main [of n ls] fold_program [of n fs] main
  show "dtor s = Destroyed" by simp
  have "added ls = fs" using added_main [of ls] added_program [of n fs] main by simp
  with exec_packaged [OF run] show "packaged s = fs" by (simp add: ThreadPool_init_def)
  show "pool_reach (int n) e s" by (rule pool_reach_exec [OF pool_start run])
qed

lemma deleted_pool_order:
  assumes "exec pool_step ls (ThreadPool_init (int n) e) = Some s"
    and "main_moves ls = add_and_delete n fs" and "0 < n"
  obtains order where "mset order = mset [0..<length fs]"
    "serial fs order (e, replicate (length fs) None) = (env s, futures s)"
proof -
  note over = deleted_pool [OF assms(1,2)]
  note drained = destroyed_drained [OF over(3,1)]
  have ok: "tickets_ok e s" using reach_pool_wf [OF over(3)] by (simp add: pool_wf_def)
  have "running (threads s) = []" using drained(1) by (auto simp: running_def)
  with ok drained(2) assms(3) over(2) have "mset (finished s) = mset [0..<length fs]"
    by (simp add: tickets_ok_def)
  with ok over(2) show thesis by (intro that [of "finished s"]) (simp_all add: tickets_ok_def)
qed

section \<open>The program\<close>

text \<open>
  The tasks of \<open>threadpool_test.cpp\<close>. The text of the \<open>float\<close> is what the stream makes of it, an
  argument.
\<close>

definition PrintVariable :: "int \<Rightarrow> string \<Rightarrow> string \<Rightarrow> (string, unit) closure" where
  "PrintVariable a b c = (\<lambda>out. (Inr (), out @ show_int a @ '' '' @ b @ '' '' @ c @ [LF]))"

definition PrintMessage :: "(string, unit) closure" where
  "PrintMessage = (\<lambda>out. (Inr (), out @ ''test message'' @ [LF]))"

definition threadpool_test_main :: "nat \<Rightarrow> string \<Rightarrow> (string, unit) label list" where
  "threadpool_test_main cores b = add_and_delete cores [PrintVariable 1 b ''45678'', PrintMessage]"

lemma two_orders:
  assumes "mset order = mset [0..<2]"
  shows "order = [0, 1] \<or> order = [1, 0::nat]"
proof -
  have "length order = 2" using mset_eq_length [OF assms] by simp
  then obtain a b where ab: "order = [a, b]" by (auto simp: numeral_2_eq_2 length_Suc_conv)
  have upt: "[0..<2] = [0, 1::nat]" by (simp add: numeral_2_eq_2)
  have "{#a, b#} = {#0, 1#}" using assms unfolding ab upt by simp
  then have "a = 0 \<and> b = 1 \<or> a = 1 \<and> b = 0" by (auto simp: add_mset_eq_single add_eq_conv_ex)
  with ab show ?thesis by blast
qed


end
