(* ===== verification/ThreadPoolWitnesses.thy ===== *)
theory ThreadPoolWitnesses
  imports PoolProgram
begin

text \<open>
  Concrete runs of thread pools, and the properties of \<open>ThreadPool\<close> applied to them. The
  environment is a number; one task adds five to it, one throws.
\<close>

definition add_five :: "(int, int) closure" where
  "add_five e = (Inr e, e + 5)"

definition failing :: "(int, int) closure" where
  "failing e = (Inl (RuntimeError ''bad''), e)"

lemmas run_simps = ThreadPool_init_def ThreadPool_Add_def worker_test_def worker_run_def
  worker_at_def someone_waits_def dequeue_def enqueue_def wait_over_def wake_def notify_all_def
  wake_worker_def add_five_def failing_def numeral_2_eq_2

text \<open>Two workers; the second takes the first task, the first the second.\<close>

definition two_done :: "(int, int) pool" where
  "two_done = \<lparr>threads = [AtTest, AtTest], task_queue = [], stop = False,
     packaged = [add_five, failing], futures = [Some (Inr 0), Some (Inl (RuntimeError ''bad''))],
     env = 5, unnotified = 0, dtor = Alive, taken = [0, 1], finished = [1, 0]\<rparr>"

lemma two_done_run:
  "exec pool_step [LTest 0, LTest 1, LAdd add_five, LAdd failing, LNotify (Some 1), LNotify (Some 0),
     LTest 1, LTest 0, LRun 0, LRun 1] (ThreadPool_init 2 0) = Some two_done"
  by (simp add: two_done_def run_simps)

lemma two_done_reach: "pool_reach 2 0 two_done"
  by (rule pool_reach_exec [OF pool_start two_done_run])


text \<open>One worker, with a task running and one waiting.\<close>

definition one_busy :: "(int, int) pool" where
  "one_busy = \<lparr>threads = [Running 1], task_queue = [2], stop = False,
     packaged = [add_five, failing, add_five], futures = [Some (Inr 0), None, None],
     env = 5, unnotified = 2, dtor = Alive, taken = [0, 1], finished = [0]\<rparr>"

lemma one_busy_run:
  "exec pool_step [LAdd add_five, LAdd failing, LTest 0, LRun 0, LNotify None, LTest 0, LAdd add_five]
     (ThreadPool_init 1 0) = Some one_busy"
  by (simp add: one_busy_def run_simps)

lemma one_busy_reach: "pool_reach 1 0 one_busy"
  by (rule pool_reach_exec [OF pool_start one_busy_run])

theorem one_worker_is_serial_witness:
  "\<exists>k. finished one_busy = [0..<k] \<and> k \<le> 3 \<and>
     serial (packaged one_busy) [0..<k] (0, replicate 3 None) = (5, [Some (Inr 0), None, None])"
  using one_worker_is_serial [OF one_busy_reach] by (simp add: one_busy_def numeral_3_eq_3)

text \<open>Two tasks added and notified, before any of the two workers has moved.\<close>

definition two_queued :: "(int, int) pool" where
  "two_queued = \<lparr>threads = [Waiting, AtTest], task_queue = [0, 1], stop = False,
     packaged = [add_five, failing], futures = [None, None],
     env = 0, unnotified = 1, dtor = Alive, taken = [], finished = []\<rparr>"

lemma two_queued_run:
  "exec pool_step [LTest 0, LTest 1, LAdd add_five, LAdd failing, LNotify (Some 1)]
     (ThreadPool_init 2 0) = Some two_queued"
  by (simp add: two_queued_def run_simps)

lemma two_queued_reach: "pool_reach 2 0 two_queued"
  by (rule pool_reach_exec [OF pool_start two_queued_run])

theorem queued_tasks_start_witness:
  "\<exists>ls t. exec starting_step ls two_queued = Some t \<and> task_queue t = []"
  using queued_tasks_start [OF two_queued_reach] by (simp add: two_queued_def)

text \<open>The destructor called with both tasks still queued.\<close>

definition two_stopped :: "(int, int) pool" where
  "two_stopped = two_queued\<lparr>stop := True, dtor := StopSet\<rparr>"

lemma two_stopped_reach: "pool_reach 2 0 two_stopped"
  by (rule pool_move [OF two_queued_reach, of LStop]) (simp add: two_stopped_def two_queued_def)

theorem destructor_drains_witness:
  "\<exists>ls t. exec closing_step ls two_stopped = Some t \<and> dtor t = Destroyed \<and>
     task_queue t = [] \<and> None \<notin> set (futures t)"
  using destructor_drains [OF two_stopped_reach, of add_five]
  by (auto simp: two_stopped_def)

text \<open>A pool without threads, destroyed with its task.\<close>

definition lost_task :: "(int, int) pool" where
  "lost_task = \<lparr>threads = [], task_queue = [0], stop = True,
     packaged = [add_five], futures = [None],
     env = 0, unnotified = 0, dtor = Destroyed, taken = [], finished = []\<rparr>"

lemma lost_task_run:
  "exec pool_step [LAdd add_five, LNotify None, LStop, LNotifyAll, LJoin] (ThreadPool_init 0 0) =
     Some lost_task"
  by (simp add: lost_task_def run_simps)

lemma lost_task_kept: "task_queue lost_task = [0] \<and> futures lost_task = [None] \<and> dtor lost_task = Destroyed"
  using no_threads_no_tasks [OF pool_reach_exec [OF pool_start lost_task_run]]
  by (simp add: lost_task_def)

text \<open>The thread pool test with one worker, which sleeps when the first task comes.\<close>

definition test_labels :: "(string, unit) label list" where
  "test_labels = [LTest 0, LAdd (PrintVariable 1 ''2.3'' ''45678''), LNotify (Some 0), LAdd PrintMessage,
     LTest 0, LNotify None, LStop, LRun 0, LNotifyAll, LTest 0, LRun 0, LTest 0, LJoin, LJoin]"

definition tested :: "(string, unit) pool" where
  "tested = \<lparr>threads = [Exited], task_queue = [], stop = True,
     packaged = [PrintVariable 1 ''2.3'' ''45678'', PrintMessage],
     futures = [Some (Inr ()), Some (Inr ())],
     env = ''1 2.3 45678'' @ [LF] @ ''test message'' @ [LF], unnotified = 0, dtor = Destroyed,
     taken = [0, 1], finished = [0, 1]\<rparr>"

lemma tested_run: "exec pool_step test_labels (ThreadPool_init (int 1) []) = Some tested"
proof -
  have "show_int 1 = ''1''" by code_simp
  then show ?thesis
    by (simp add: test_labels_def tested_def run_simps PrintVariable_def PrintMessage_def)
qed


end
