(* ===== verification/LogFormat.thy ===== *)
theory LogFormat
  imports Prelude
begin

text \<open>
  The data of the logger (\<open>logger.h\<close>, \<open>logger.cpp\<close>): levels, events, format items, and
  \<open>Formatter\<close>, which compiles a pattern into format items once and renders events with them. The
  pattern language is also given token by token, without the loop over indices and without the
  items; \<open>Formatter\<close> is proved equivalent to that reading.
\<close>

section \<open>Levels\<close>

datatype log_level = INFO | DEBUG | WARN | ERROR | FATAL | OTHER

fun log_level_code :: "log_level \<Rightarrow> int" where
  "log_level_code INFO = 1"
| "log_level_code DEBUG = 2"
| "log_level_code WARN = 3"
| "log_level_code ERROR = 4"
| "log_level_code FATAL = 5"
| "log_level_code OTHER = 6"

text \<open>The comparisons of the code are those of the enumeration's values.\<close>

lemma log_level_code_inj: "log_level_code a = log_level_code b \<Longrightarrow> a = b"
  by (cases a; cases b) simp_all

instantiation log_level :: linorder
begin

definition less_eq_log_level :: "log_level \<Rightarrow> log_level \<Rightarrow> bool" where
  "less_eq_log_level a b \<longleftrightarrow> log_level_code a \<le> log_level_code b"

definition less_log_level :: "log_level \<Rightarrow> log_level \<Rightarrow> bool" where
  "less_log_level a b \<longleftrightarrow> log_level_code a < log_level_code b"

instance
  by standard (auto simp: less_eq_log_level_def less_log_level_def intro: log_level_code_inj)

end

fun LogLevel_ToString :: "log_level \<Rightarrow> string" where
  "LogLevel_ToString INFO = ''INFO''"
| "LogLevel_ToString DEBUG = ''DEBUG''"
| "LogLevel_ToString WARN = ''WARN''"
| "LogLevel_ToString ERROR = ''ERROR''"
| "LogLevel_ToString FATAL = ''FATAL''"
| "LogLevel_ToString OTHER = ''UNKNOWN''"

section \<open>Events\<close>

text \<open>The file name is a \<open>const char*\<close> that may be null. Numbers keep their widths.\<close>

record log_event =
  ev_file_name :: "cptr option"
  ev_line_num :: "32 word"
  ev_ms_elapse :: "32 word"
  ev_thread_id :: "32 word"
  ev_time :: "64 word"
  ev_msg :: string

definition LogEvent_init ::
  "cptr option \<Rightarrow> 32 word \<Rightarrow> 32 word \<Rightarrow> 32 word \<Rightarrow> 64 word \<Rightarrow> string \<Rightarrow> log_event" where
  "LogEvent_init file_name line_num ms_elapse thread_id time message =
     \<lparr>ev_file_name = file_name, ev_line_num = line_num, ev_ms_elapse = ms_elapse,
      ev_thread_id = thread_id, ev_time = time, ev_msg = message\<rparr>"

definition LogEvent_GetFileName :: "log_event \<Rightarrow> cptr option" where
  "LogEvent_GetFileName e = ev_file_name e"

definition LogEvent_GetLineNum :: "log_event \<Rightarrow> 32 word" where
  "LogEvent_GetLineNum e = ev_line_num e"

definition LogEvent_GetMsElapse :: "log_event \<Rightarrow> 32 word" where
  "LogEvent_GetMsElapse e = ev_ms_elapse e"

definition LogEvent_GetThreadId :: "log_event \<Rightarrow> 32 word" where
  "LogEvent_GetThreadId e = ev_thread_id e"

definition LogEvent_GetTime :: "log_event \<Rightarrow> 64 word" where
  "LogEvent_GetTime e = ev_time e"

definition LogEvent_GetMessage :: "log_event \<Rightarrow> string" where
  "LogEvent_GetMessage e = ev_msg e"

lemmas log_event_getters [simp] = LogEvent_GetFileName_def LogEvent_GetLineNum_def
  LogEvent_GetMsElapse_def LogEvent_GetThreadId_def LogEvent_GetTime_def LogEvent_GetMessage_def

section \<open>Format items\<close>

datatype format_item =
    MessageFormatItem
  | LevelFormatItem
  | MsElapseFormatItem
  | ThreadIdFormatItem
  | StringFormatItem string
  | NewLineFormatItem
  | LineNumFormatItem
  | FileNameFormatItem
  | TimeFormatItem

text \<open>
  The virtual \<open>format\<close>: what it writes to the stream. An event is a \<open>shared_ptr\<close> that may be null;
  \<open>operator<<\<close> of a null \<open>const char*\<close> is undefined. \<open>TimeFormatItem\<close> writes the number of
  milliseconds; its \<open>time_format_\<close> is never used.
\<close>

definition deref_event :: "log_event option \<Rightarrow> (log_event \<Rightarrow> fault + string) \<Rightarrow> fault + string" where
  "deref_event ev f = (case ev of None \<Rightarrow> Inl (Undefined NullDeref) | Some e \<Rightarrow> f e)"

fun FormatItem_format :: "format_item \<Rightarrow> log_level \<Rightarrow> log_event option \<Rightarrow> fault + string" where
  "FormatItem_format MessageFormatItem level ev = deref_event ev (\<lambda>e. Inr (LogEvent_GetMessage e))"
| "FormatItem_format LevelFormatItem level ev = Inr (LogLevel_ToString level)"
| "FormatItem_format MsElapseFormatItem level ev =
     deref_event ev (\<lambda>e. Inr (''ms'' @ show_nat (unat (LogEvent_GetMsElapse e))))"
| "FormatItem_format ThreadIdFormatItem level ev =
     deref_event ev (\<lambda>e. Inr (''id'' @ show_nat (unat (LogEvent_GetThreadId e))))"
| "FormatItem_format (StringFormatItem str) level ev = Inr str"
| "FormatItem_format NewLineFormatItem level ev = Inr [LF]"
| "FormatItem_format LineNumFormatItem level ev =
     deref_event ev (\<lambda>e. Inr (show_int (sint (LogEvent_GetLineNum e))))"
| "FormatItem_format FileNameFormatItem level ev =
     deref_event ev (\<lambda>e. case LogEvent_GetFileName e of
       None \<Rightarrow> Inl (Undefined NullDeref)
     | Some p \<Rightarrow> read_cstr p)"
| "FormatItem_format TimeFormatItem level ev =
     deref_event ev (\<lambda>e. Inr (show_nat (unat (LogEvent_GetTime e))))"

section \<open>Formatter\<close>

record formatter =
  pattern :: string
  format_items :: "format_item list"
  fmt_error :: bool

definition format_item_maps :: "char \<rightharpoonup> format_item" where
  "format_item_maps =
     [CHR ''m'' \<mapsto> MessageFormatItem, CHR ''p'' \<mapsto> LevelFormatItem, CHR ''r'' \<mapsto> MsElapseFormatItem,
      CHR ''c'' \<mapsto> FileNameFormatItem, CHR ''t'' \<mapsto> ThreadIdFormatItem, CHR ''n'' \<mapsto> NewLineFormatItem,
      CHR ''d'' \<mapsto> TimeFormatItem, CHR ''f'' \<mapsto> FileNameFormatItem, CHR ''l'' \<mapsto> LineNumFormatItem]"

text \<open>A pending run of literal characters becomes an item when it is not empty.\<close>

definition flush :: "string \<Rightarrow> format_item list" where
  "flush nstr = (if nstr \<noteq> [] then [StringFormatItem nstr] else [])"

definition wrong_format :: string where "wrong_format = ''<wrong format>''"

text \<open>The loop of \<open>Parse\<close> over the index \<open>i\<close>, with \<open>nstr\<close>, \<open>format_items_\<close> and \<open>error_\<close>.\<close>

function Parse_loop ::
  "string \<Rightarrow> nat \<Rightarrow> string \<Rightarrow> format_item list \<Rightarrow> bool \<Rightarrow> format_item list \<times> bool" where
  "Parse_loop pat i nstr items err =
     (if i < length pat then
        if pat ! i \<noteq> CHR ''%'' then Parse_loop pat (i + 1) (nstr @ [pat ! i]) items err
        else if i + 1 \<ge> length pat then (items @ flush nstr, err)
        else if pat ! (i + 1) = CHR ''%'' then Parse_loop pat (i + 2) (nstr @ ''%'') items err
        else
          (case format_item_maps (pat ! (i + 1)) of
             Some it \<Rightarrow> Parse_loop pat (i + 2) [] (items @ flush nstr @ [it]) err
           | None \<Rightarrow> Parse_loop pat (i + 2) []
               (items @ flush nstr @ [StringFormatItem wrong_format]) True)
      else (items @ flush nstr, err))"
  by pat_completeness auto
termination
  by (relation "measure (\<lambda>(pat, i, nstr, items, err). length pat - i)") auto

declare Parse_loop.simps [simp del]

definition Formatter_Parse :: "formatter \<Rightarrow> formatter" where
  "Formatter_Parse f =
     (case Parse_loop (pattern f) 0 [] (format_items f) (fmt_error f) of (items, err) \<Rightarrow>
        f\<lparr>format_items := items, fmt_error := err\<rparr>)"

definition Formatter_init :: "string \<Rightarrow> formatter" where
  "Formatter_init p = Formatter_Parse \<lparr>pattern = p, format_items = [], fmt_error = False\<rparr>"

fun write_items :: "format_item list \<Rightarrow> log_level \<Rightarrow> log_event option \<Rightarrow> fault + string" where
  "write_items [] level ev = Inr []"
| "write_items (it # its) level ev =
     (case FormatItem_format it level ev of
        Inl e \<Rightarrow> Inl e
      | Inr s \<Rightarrow> (case write_items its level ev of Inl e \<Rightarrow> Inl e | Inr t \<Rightarrow> Inr (s @ t)))"

definition Formatter_format :: "formatter \<Rightarrow> log_level \<Rightarrow> log_event option \<Rightarrow> fault + string" where
  "Formatter_format f level ev = write_items (format_items f) level ev"

section \<open>The pattern language, token by token\<close>

datatype token = Lit char | Conv char

fun tokens :: "string \<Rightarrow> token list" where
  "tokens [] = []"
| "tokens [c] = (if c = CHR ''%'' then [] else [Lit c])"
| "tokens (c # d # cs) =
     (if c \<noteq> CHR ''%'' then Lit c # tokens (d # cs)
      else (if d = CHR ''%'' then Lit d else Conv d) # tokens cs)"

definition conversion :: "char \<Rightarrow> format_item" where
  "conversion d = (case format_item_maps d of Some it \<Rightarrow> it | None \<Rightarrow> StringFormatItem wrong_format)"

fun render :: "token list \<Rightarrow> log_level \<Rightarrow> log_event option \<Rightarrow> fault + string" where
  "render [] level ev = Inr []"
| "render (Lit c # ts) level ev =
     (case render ts level ev of Inl e \<Rightarrow> Inl e | Inr t \<Rightarrow> Inr (c # t))"
| "render (Conv d # ts) level ev =
     (case FormatItem_format (conversion d) level ev of
        Inl e \<Rightarrow> Inl e
      | Inr s \<Rightarrow> (case render ts level ev of Inl e \<Rightarrow> Inl e | Inr t \<Rightarrow> Inr (s @ t)))"

text \<open>The items of a token list: runs of literals joined.\<close>

fun compile :: "string \<Rightarrow> token list \<Rightarrow> format_item list" where
  "compile nstr [] = flush nstr"
| "compile nstr (Lit c # ts) = compile (nstr @ [c]) ts"
| "compile nstr (Conv d # ts) = flush nstr @ conversion d # compile [] ts"

definition malformed :: "token list \<Rightarrow> bool" where
  "malformed ts \<longleftrightarrow> (\<exists>d. Conv d \<in> set ts \<and> d \<notin> dom format_item_maps)"

lemma malformed_simps [simp]:
  "\<not> malformed []"
  "malformed (Lit c # ts) \<longleftrightarrow> malformed ts"
  "malformed (Conv d # ts) \<longleftrightarrow> format_item_maps d = None \<or> malformed ts"
  by (auto simp: malformed_def)

lemma tokens_Cons:
  "c \<noteq> CHR ''%'' \<Longrightarrow> tokens (c # cs) = Lit c # tokens cs"
  by (cases cs) simp_all

lemma Parse_loop_tokens:
  "Parse_loop pat i nstr items err =
     (items @ compile nstr (tokens (drop i pat)), err \<or> malformed (tokens (drop i pat)))"
proof (induction pat i nstr items err rule: Parse_loop.induct)
  case (1 pat i nstr items err)
  show ?case
  proof (cases "i < length pat")
    case False
    then show ?thesis by (simp add: Parse_loop.simps [of pat i])
  next
    case lt: True
    then have hd: "drop i pat = pat ! i # drop (i + 1) pat" by (simp add: Cons_nth_drop_Suc)
    show ?thesis
    proof (cases "pat ! i = CHR ''%''")
      case False
      with 1(1) lt hd show ?thesis by (simp add: Parse_loop.simps [of pat i] tokens_Cons)
    next
      case pc: True
      show ?thesis
      proof (cases "i + 1 < length pat")
        case False
        then have "drop (i + 1) pat = []" by simp
        with lt hd pc False show ?thesis by (simp add: Parse_loop.simps [of pat i])
      next
        case next_lt: True
        then have hd2: "drop (i + 1) pat = pat ! (i + 1) # drop (i + 2) pat"
          by (simp add: Cons_nth_drop_Suc)
        show ?thesis
        proof (cases "pat ! (i + 1) = CHR ''%''")
          case True
          with 1(2) lt hd hd2 pc next_lt show ?thesis by (simp add: Parse_loop.simps [of pat i])
        next
          case False
          with 1(3,4) lt hd hd2 pc next_lt show ?thesis
            by (cases "format_item_maps (pat ! (i + 1))")
              (simp_all add: Parse_loop.simps [of pat i] conversion_def)
        qed
      qed
    qed
  qed
qed

lemma Formatter_init_tokens:
  "Formatter_init p = \<lparr>pattern = p, format_items = compile [] (tokens p),
     fmt_error = malformed (tokens p)\<rparr>"
  by (simp add: Formatter_init_def Formatter_Parse_def Parse_loop_tokens)

lemma write_items_append:
  "write_items (its @ its') level ev =
     (case write_items its level ev of Inl e \<Rightarrow> Inl e
      | Inr s \<Rightarrow> (case write_items its' level ev of Inl e \<Rightarrow> Inl e | Inr t \<Rightarrow> Inr (s @ t)))"
  by (induction its) (auto split: sum.splits)

lemma write_flush: "write_items (flush nstr) level ev = Inr nstr"
  by (simp add: flush_def)

lemma write_compile:
  "write_items (compile nstr ts) level ev =
     (case render ts level ev of Inl e \<Rightarrow> Inl e | Inr t \<Rightarrow> Inr (nstr @ t))"
proof (induction nstr ts rule: compile.induct)
  case (1 nstr)
  show ?case by (simp add: write_flush)
next
  case (2 nstr c ts)
  then show ?case by (simp split: sum.splits)
next
  case (3 nstr d ts)
  then show ?case by (simp add: write_items_append write_flush split: sum.splits)
qed

text \<open>
  C17: \<open>Formatter\<close> implements the pattern language: compiling a pattern with the loop over indices
  and writing the items gives, for every level and event and with the same faults, what reading
  the pattern token by token gives; and \<open>error_\<close> is set exactly when some conversion character is
  not in the table. A \<open>%\<close> at the end of the pattern is dropped without an error.
\<close>

theorem Formatter_renders_pattern:
  "Formatter_format (Formatter_init p) level ev = render (tokens p) level ev \<and>
   fmt_error (Formatter_init p) = (\<exists>d. Conv d \<in> set (tokens p) \<and> format_item_maps d = None)"
  by (simp add: Formatter_init_tokens Formatter_format_def write_compile split: sum.splits)
    (auto simp: malformed_def)

section \<open>Back to a pattern\<close>

fun escape :: "string \<Rightarrow> string" where
  "escape [] = []"
| "escape (c # cs) = (if c = CHR ''%'' then ''%%'' else [c]) @ escape cs"

fun item_pattern :: "format_item \<Rightarrow> string" where
  "item_pattern MessageFormatItem = ''%m''"
| "item_pattern LevelFormatItem = ''%p''"
| "item_pattern MsElapseFormatItem = ''%r''"
| "item_pattern ThreadIdFormatItem = ''%t''"
| "item_pattern (StringFormatItem s) = escape s"
| "item_pattern NewLineFormatItem = ''%n''"
| "item_pattern LineNumFormatItem = ''%l''"
| "item_pattern FileNameFormatItem = ''%f''"
| "item_pattern TimeFormatItem = ''%d''"

definition pattern_of :: "format_item list \<Rightarrow> string" where
  "pattern_of items = concat (map item_pattern items)"

fun is_string_item :: "format_item \<Rightarrow> bool" where
  "is_string_item (StringFormatItem s) = True"
| "is_string_item _ = False"

text \<open>Item lists as \<open>Parse\<close> makes them: no empty literal, no two literals in a row.\<close>

fun normal_items :: "format_item list \<Rightarrow> bool" where
  "normal_items [] \<longleftrightarrow> True"
| "normal_items (it # its) \<longleftrightarrow> it \<noteq> StringFormatItem [] \<and> normal_items its \<and>
     \<not> (is_string_item it \<and> its \<noteq> [] \<and> is_string_item (hd its))"

lemma tokens_escape: "tokens (escape s @ p) = map Lit s @ tokens p"
proof (induction s)
  case (Cons c cs)
  then show ?case by (simp add: tokens_Cons)
qed simp

lemma compile_Lits: "compile nstr (map Lit s @ ts) = compile (nstr @ s) ts"
  by (induction s arbitrary: nstr) simp_all

text \<open>A list that does not start with a literal ends the pending one.\<close>

lemma compile_pattern_of:
  assumes "normal_items its"
  shows "compile [] (tokens (pattern_of its)) = its \<and>
    (its = [] \<or> \<not> is_string_item (hd its) \<longrightarrow>
       (\<forall>nstr. compile nstr (tokens (pattern_of its)) = flush nstr @ its)) \<and>
    \<not> malformed (tokens (pattern_of its))"
  using assms
proof (induction its)
  case Nil
  then show ?case by (simp add: pattern_of_def flush_def)
next
  case (Cons it its)
  then show ?case
    by (cases it)
      (auto simp: pattern_of_def tokens_escape compile_Lits conversion_def format_item_maps_def
        flush_def malformed_def)
qed

lemma known_not_string: "format_item_maps d = Some it \<Longrightarrow> \<not> is_string_item it"
  by (auto simp: format_item_maps_def split: if_splits)

lemma normal_compile: "\<not> malformed ts \<Longrightarrow> normal_items (compile nstr ts)"
proof (induction nstr ts rule: compile.induct)
  case (1 nstr)
  show ?case by (simp add: flush_def)
next
  case (2 nstr c ts)
  then show ?case by simp
next
  case (3 nstr d ts)
  then obtain it where it: "format_item_maps d = Some it" by auto
  from known_not_string [OF it] have "\<not> is_string_item it" "it \<noteq> StringFormatItem []" by auto
  with 3 it show ?case by (simp add: conversion_def flush_def)
qed

text \<open>
  C23: Patterns and items round-trip. Every list of items without empty or adjacent literals is
  what \<open>Parse\<close> makes of its pattern, where a percent sign in a literal is written twice, and
  without an error; and the items of a pattern without error can be written back as a pattern
  that parses to the same items.
\<close>

theorem pattern_roundtrip:
  "(normal_items items \<longrightarrow>
      Formatter_init (pattern_of items) =
        \<lparr>pattern = pattern_of items, format_items = items, fmt_error = False\<rparr>) \<and>
   (\<not> fmt_error (Formatter_init p) \<longrightarrow>
      format_items (Formatter_init (pattern_of (format_items (Formatter_init p)))) =
        format_items (Formatter_init p))"
  using compile_pattern_of [of items] compile_pattern_of [OF normal_compile, of "tokens p" "[]"]
  by (simp add: Formatter_init_tokens)

end
