(* ===== verification/Appender.thy ===== *)
theory Appender
  imports LogFormat
begin

text \<open>
  \<open>Appender\<close> and \<open>StdoutAppender\<close> (\<open>logger.h\<close>, \<open>logger.cpp\<close>), and the part of \<open>std::ofstream\<close> the file
  appender uses. \<open>level_\<close> of an appender is never initialised and has no setter: it is whatever was
  in memory, a number the constructors of the model take as an argument.
\<close>

section \<open>The base class\<close>

record appender =
  app_level :: int
  app_formatter :: "formatter option"

definition Appender_GetFormatter :: "('a) appender_scheme \<Rightarrow> formatter option" where
  "Appender_GetFormatter a = app_formatter a"

definition Appender_SetFormatter ::
  "formatter option \<Rightarrow> ('a) appender_scheme \<Rightarrow> ('a) appender_scheme" where
  "Appender_SetFormatter f a = a\<lparr>app_formatter := f\<rparr>"

text \<open>\<open>level >= level_\<close>, and \<open>formatter_->format(level, event)\<close>.\<close>

definition app_enabled :: "('a) appender_scheme \<Rightarrow> log_level \<Rightarrow> bool" where
  "app_enabled a level \<longleftrightarrow> app_level a \<le> log_level_code level"

definition app_format ::
  "('a) appender_scheme \<Rightarrow> log_level \<Rightarrow> log_event option \<Rightarrow> fault + string" where
  "app_format a level ev =
     (case app_formatter a of
        None \<Rightarrow> Inl (Undefined NullDeref)
      | Some f \<Rightarrow> Formatter_format f level ev)"

text \<open>What one call of \<open>Log\<close> adds to the output of an appender that writes at once.\<close>

definition app_text ::
  "('a) appender_scheme \<Rightarrow> log_level \<Rightarrow> log_event option \<Rightarrow> fault + string" where
  "app_text a level ev = (if app_enabled a level then app_format a level ev else Inr [])"

section \<open>Standard output\<close>

definition StdoutAppender_Log ::
  "log_level \<Rightarrow> log_event option \<Rightarrow> appender \<Rightarrow> string \<Rightarrow> fault + string" where
  "StdoutAppender_Log level ev a out =
     (if app_enabled a level then
        (case app_format a level ev of Inl e \<Rightarrow> Inl e | Inr s \<Rightarrow> Inr (out @ s))
      else Inr out)"

lemma StdoutAppender_Log_text:
  "StdoutAppender_Log level ev a out =
     (case app_text a level ev of Inl e \<Rightarrow> Inl e | Inr s \<Rightarrow> Inr (out @ s))"
  by (simp add: StdoutAppender_Log_def app_text_def)

text \<open>
  When the formatter is set and the event and its file name are there, formatting cannot fault.
\<close>

definition event_fine :: "log_event option \<Rightarrow> bool" where
  "event_fine ev \<longleftrightarrow> (\<exists>e p. ev = Some e \<and> ev_file_name e = Some p \<and> NUL \<in> set p)"

lemma FormatItem_fine: "event_fine ev \<Longrightarrow> \<exists>s. FormatItem_format it level ev = Inr s"
  by (cases it) (auto simp: event_fine_def deref_event_def read_cstr_def)

lemma write_items_fine: "event_fine ev \<Longrightarrow> \<exists>s. write_items its level ev = Inr s"
proof (induction its)
  case (Cons it its)
  then show ?case using FormatItem_fine [of ev it level] by auto
qed simp

lemma app_text_fine:
  "app_formatter a \<noteq> None \<Longrightarrow> event_fine ev \<Longrightarrow> \<exists>s. app_text a level ev = Inr s"
  using write_items_fine by (auto simp: app_text_def app_format_def Formatter_format_def)

section \<open>File streams\<close>

text \<open>
  A \<open>std::ofstream\<close>: whether a file is open, whether the stream is good, and what has been written
  to the file since it was opened. Writing without an open file makes the stream bad, and a bad
  stream drops what is written. \<open>open\<close> fails when a file is open already; when it succeeds it clears
  the state and truncates the file. \<open>close\<close> without an open file fails.
\<close>

record fstream =
  is_open :: bool
  good :: bool
  disk :: string

definition fs_init :: fstream where
  "fs_init = \<lparr>is_open = False, good = True, disk = []\<rparr>"

definition fs_put :: "string \<Rightarrow> fstream \<Rightarrow> fstream" where
  "fs_put s f = (if good f \<and> is_open f then f\<lparr>disk := disk f @ s\<rparr> else f\<lparr>good := False\<rparr>)"

definition fs_open :: "bool \<Rightarrow> fstream \<Rightarrow> fstream" where
  "fs_open ok f =
     (if \<not> is_open f \<and> ok then \<lparr>is_open = True, good = True, disk = []\<rparr> else f\<lparr>good := False\<rparr>)"

definition fs_close :: "fstream \<Rightarrow> fstream" where
  "fs_close f = (if is_open f then f\<lparr>is_open := False\<rparr> else f\<lparr>good := False\<rparr>)"

end
