(* ===== verification/FileAppender.thy ===== *)
theory FileAppender
  imports Appender Fifo Machines
begin

text \<open>
  \<open>FileAppender\<close> (\<open>logger.h\<close>, \<open>logger.cpp\<close>): clients put events on a bounded queue, a writer thread
  takes them off and writes them to a file. A machine in the sense of \<open>Machines\<close>: the calls of
  \<open>Log\<close> in progress, the writer and the destructor take steps in any order. The ghost fields hold
  the events put on the queue and taken off it so far, those the writer is through with, all text
  sent to the stream, and how much of it had been sent when the file was last opened.
\<close>

section \<open>State\<close>

type_synonym item = "log_level \<times> log_event option"

text \<open>A call of \<open>Log\<close>: about to test the bound, blocked on \<open>cv_not_full_\<close>, returned.\<close>

datatype call = CTest item | CWaiting item | CReturned

text \<open>
  The writer: before its first line, about to test for an event, blocked on \<open>cv_not_empty_\<close>, with
  an event in hand, out of its loop, returned, or dead of undefined behaviour.
\<close>

datatype writer = WStart | WTest | WWaiting | WGot item | WEnding | WDone | WCrashed fault

text \<open>The object: its constructor has not opened the file yet, in use, in its destructor, gone.\<close>

datatype phase = Opening | InUse | Closing | Gone

record file_appender = appender +
  app_file_name :: string
  log_queue :: "item list"
  max_queue_size :: nat
  stream :: fstream
  the_writer :: writer
  log_calls :: "call list"
  phase :: phase
  pushed :: "item list"
  consumed :: "item list"
  processed :: "item list"
  sent :: string
  at_open :: string

section \<open>Operations\<close>

definition start_line :: string where "start_line = ''log start'' @ [LF]"
definition end_line :: string where "end_line = ''log end'' @ [LF]"

text \<open>The constructor up to the start of the writer thread; \<open>level\<close> is the uninitialised member.\<close>

definition FileAppender_init :: "int \<Rightarrow> string \<Rightarrow> nat \<Rightarrow> fault + file_appender" where
  "FileAppender_init level name bound =
     (if bound = 0 then Inl (RuntimeError ''invalid queue size'')
      else Inr \<lparr>app_level = level, app_formatter = None, app_file_name = name, log_queue = [],
        max_queue_size = bound, stream = fs_init, the_writer = WStart, log_calls = [],
        phase = Opening, pushed = [], consumed = [], processed = [], sent = [], at_open = []\<rparr>)"

definition log_push :: "item \<Rightarrow> file_appender \<Rightarrow> file_appender" where
  "log_push x s = s\<lparr>log_queue := log_queue s @ [x]\<rparr>"

definition log_pop :: "file_appender \<Rightarrow> (item \<times> file_appender) option" where
  "log_pop s = (case log_queue s of [] \<Rightarrow> None | x # xs \<Rightarrow> Some (x, s\<lparr>log_queue := xs\<rparr>))"

definition notify_writer :: "file_appender \<Rightarrow> file_appender" where
  "notify_writer s = (if the_writer s = WWaiting then s\<lparr>the_writer := WTest\<rparr> else s)"

text \<open>\<open>Log\<close> from a test of its bound to the next wait, or to its return.\<close>

definition Log_test :: "nat \<Rightarrow> item \<Rightarrow> file_appender \<Rightarrow> file_appender" where
  "Log_test i x s =
     (if length (log_queue s) \<ge> max_queue_size s
      then s\<lparr>log_calls := (log_calls s)[i := CWaiting x]\<rparr>
      else notify_writer
        ((log_push x s)\<lparr>log_calls := (log_calls s)[i := CReturned], pushed := pushed s @ [x]\<rparr>))"

definition send :: "string \<Rightarrow> file_appender \<Rightarrow> file_appender" where
  "send txt s = s\<lparr>stream := fs_put txt (stream s), sent := sent s @ txt\<rparr>"

definition open_file :: "bool \<Rightarrow> file_appender \<Rightarrow> file_appender" where
  "open_file ok s = s\<lparr>stream := fs_open ok (stream s), at_open := sent s\<rparr>"

text \<open>\<open>Reopen\<close>, with the answer of the file system; it returns whether the stream is good then.\<close>

definition FileAppender_Reopen :: "bool \<Rightarrow> file_appender \<Rightarrow> bool \<times> file_appender" where
  "FileAppender_Reopen ok s =
     (let s1 = (if good (stream s) then s\<lparr>stream := fs_close (stream s)\<rparr> else s);
          s2 = open_file ok s1
      in (good (stream s2), s2))"

text \<open>\<open>notify_one\<close> on \<open>cv_not_full_\<close>: one blocked call is woken if there is one, whichever.\<close>

definition call_waits :: "nat \<Rightarrow> file_appender \<Rightarrow> bool" where
  "call_waits i s \<longleftrightarrow> i < length (log_calls s) \<and> (\<exists>x. log_calls s ! i = CWaiting x)"

definition wake_call :: "nat \<Rightarrow> file_appender \<Rightarrow> file_appender" where
  "wake_call i s =
     (case log_calls s ! i of
        CWaiting x \<Rightarrow> s\<lparr>log_calls := (log_calls s)[i := CTest x]\<rparr>
      | _ \<Rightarrow> s)"

definition nobody_waits :: "file_appender \<Rightarrow> bool" where
  "nobody_waits s \<longleftrightarrow> (\<forall>i < length (log_calls s). \<not> call_waits i s)"

definition notify_call :: "nat option \<Rightarrow> file_appender \<Rightarrow> file_appender option" where
  "notify_call w s =
     (case w of
        None \<Rightarrow> if nobody_waits s then Some s else None
      | Some i \<Rightarrow> if call_waits i s then Some (wake_call i s) else None)"

text \<open>The loop of \<open>ConsumeLog\<close>: from a test to the next wait or to the end of the critical section.\<close>

definition Consume_test :: "nat option \<Rightarrow> file_appender \<Rightarrow> file_appender option" where
  "Consume_test w s =
     (case log_pop s of
        None \<Rightarrow> if w = None then Some (s\<lparr>the_writer := WWaiting\<rparr>) else None
      | Some (x, s') \<Rightarrow>
          notify_call w (if fst x = OTHER
            then s'\<lparr>the_writer := WEnding, consumed := consumed s @ [x], processed := processed s @ [x]\<rparr>
            else s'\<lparr>the_writer := WGot x, consumed := consumed s @ [x]\<rparr>))"

text \<open>The rest of a round, under \<open>file_mtx_\<close>.\<close>

definition Consume_write :: "item \<Rightarrow> file_appender \<Rightarrow> file_appender" where
  "Consume_write x s =
     (if app_enabled s (fst x) then
        (case app_format s (fst x) (snd x) of
           Inl e \<Rightarrow> s\<lparr>the_writer := WCrashed e\<rparr>
         | Inr txt \<Rightarrow> send txt (s\<lparr>the_writer := WTest, processed := processed s @ [x]\<rparr>))
      else s\<lparr>the_writer := WTest, processed := processed s @ [x]\<rparr>)"

section \<open>The machine\<close>

datatype fa_label =
    FOpen bool
  | FLog item
  | FTest nat
  | FWakeCall nat
  | FWriterStart
  | FWriterTest "nat option"
  | FWriterWake
  | FWriterWrite
  | FWriterEnd
  | FReopen bool
  | FDestroy
  | FClose

text \<open>
  The destructor may run when no other call is in progress. It logs \<open>OTHER\<close> with a null event like
  any caller, joins the writer and closes the file.
\<close>

fun fa_move :: "fa_label \<Rightarrow> file_appender \<Rightarrow> file_appender option" where
  "fa_move (FOpen ok) s =
     (if phase s = Opening then Some ((open_file ok s)\<lparr>phase := InUse\<rparr>) else None)"
| "fa_move (FLog x) s =
     (if phase s = InUse then Some (s\<lparr>log_calls := log_calls s @ [CTest x]\<rparr>) else None)"
| "fa_move (FTest i) s =
     (if i < length (log_calls s) then
        (case log_calls s ! i of CTest x \<Rightarrow> Some (Log_test i x s) | _ \<Rightarrow> None)
      else None)"
| "fa_move (FWakeCall i) s = (if call_waits i s then Some (wake_call i s) else None)"
| "fa_move FWriterStart s =
     (if the_writer s = WStart then Some (send start_line (s\<lparr>the_writer := WTest\<rparr>)) else None)"
| "fa_move (FWriterTest w) s = (if the_writer s = WTest then Consume_test w s else None)"
| "fa_move FWriterWake s =
     (if the_writer s = WWaiting then Some (s\<lparr>the_writer := WTest\<rparr>) else None)"
| "fa_move FWriterWrite s =
     (case the_writer s of WGot x \<Rightarrow> Some (Consume_write x s) | _ \<Rightarrow> None)"
| "fa_move FWriterEnd s =
     (if the_writer s = WEnding then Some (send end_line (s\<lparr>the_writer := WDone\<rparr>)) else None)"
| "fa_move (FReopen ok) s =
     (if phase s = InUse then Some (snd (FileAppender_Reopen ok s)) else None)"
| "fa_move FDestroy s =
     (if phase s = InUse \<and> (\<forall>c \<in> set (log_calls s). c = CReturned)
      then Some (s\<lparr>phase := Closing, log_calls := log_calls s @ [CTest (OTHER, None)]\<rparr>) else None)"
| "fa_move FClose s =
     (if phase s = Closing \<and> (\<forall>c \<in> set (log_calls s). c = CReturned) \<and> the_writer s = WDone
      then Some (s\<lparr>phase := Gone, stream := fs_close (stream s)\<rparr>) else None)"

definition crashed :: "file_appender \<Rightarrow> bool" where
  "crashed s \<longleftrightarrow> (case the_writer s of WCrashed e \<Rightarrow> True | _ \<Rightarrow> False)"

definition fa_step :: "fa_label \<Rightarrow> file_appender \<Rightarrow> file_appender option" where
  "fa_step l s = (if crashed s then None else fa_move l s)"

text \<open>What is reachable by steps with labels that \<open>P\<close> allows, once the appender has its formatter.\<close>

inductive fa_reach :: "(fa_label \<Rightarrow> bool) \<Rightarrow> file_appender \<Rightarrow> file_appender \<Rightarrow> bool" for P s0 where
  fa_start: "fa_reach P s0 s0"
| fa_next: "fa_reach P s0 s \<Longrightarrow> P l \<Longrightarrow> fa_step l s = Some t \<Longrightarrow> fa_reach P s0 t"

lemma fa_reach_exec:
  "fa_reach P s0 s \<Longrightarrow> \<forall>l \<in> set ls. P l \<Longrightarrow> exec fa_step ls s = Some t \<Longrightarrow> fa_reach P s0 t"
proof (induction ls arbitrary: s)
  case (Cons l ls)
  from Cons.prems(3) obtain u where "fa_step l s = Some u" "exec fa_step ls u = Some t"
    by (rule exec_ConsE)
  with Cons show ?case by (auto intro: fa_next)
qed simp

interpretation lq: fifo_queue log_push log_pop log_queue
  by unfold_locales (auto simp: log_push_def log_pop_def split: list.splits)

section \<open>How each step changes the state\<close>

named_theorems fa_frame \<open>what the operations leave alone\<close>

lemma wake_call_frame [fa_frame]:
  "log_queue (wake_call i s) = log_queue s" "max_queue_size (wake_call i s) = max_queue_size s"
  "stream (wake_call i s) = stream s" "the_writer (wake_call i s) = the_writer s"
  "phase (wake_call i s) = phase s" "pushed (wake_call i s) = pushed s"
  "consumed (wake_call i s) = consumed s" "processed (wake_call i s) = processed s"
  "sent (wake_call i s) = sent s" "at_open (wake_call i s) = at_open s"
  "app_level (wake_call i s) = app_level s" "app_formatter (wake_call i s) = app_formatter s"
  by (simp_all add: wake_call_def split: call.split)

lemma notify_writer_frame [fa_frame]:
  "log_queue (notify_writer s) = log_queue s" "max_queue_size (notify_writer s) = max_queue_size s"
  "stream (notify_writer s) = stream s" "log_calls (notify_writer s) = log_calls s"
  "phase (notify_writer s) = phase s" "pushed (notify_writer s) = pushed s"
  "consumed (notify_writer s) = consumed s" "processed (notify_writer s) = processed s"
  "sent (notify_writer s) = sent s" "at_open (notify_writer s) = at_open s"
  "app_level (notify_writer s) = app_level s" "app_formatter (notify_writer s) = app_formatter s"
  "the_writer (notify_writer s) = (if the_writer s = WWaiting then WTest else the_writer s)"
  by (simp_all add: notify_writer_def)

lemma send_frame [fa_frame]:
  "log_queue (send x s) = log_queue s" "max_queue_size (send x s) = max_queue_size s"
  "the_writer (send x s) = the_writer s" "log_calls (send x s) = log_calls s"
  "phase (send x s) = phase s" "pushed (send x s) = pushed s"
  "consumed (send x s) = consumed s" "processed (send x s) = processed s"
  "at_open (send x s) = at_open s" "sent (send x s) = sent s @ x"
  "stream (send x s) = fs_put x (stream s)"
  "app_level (send x s) = app_level s" "app_formatter (send x s) = app_formatter s"
  by (simp_all add: send_def)

lemma open_file_frame [fa_frame]:
  "log_queue (open_file ok s) = log_queue s" "max_queue_size (open_file ok s) = max_queue_size s"
  "the_writer (open_file ok s) = the_writer s" "log_calls (open_file ok s) = log_calls s"
  "phase (open_file ok s) = phase s" "pushed (open_file ok s) = pushed s"
  "consumed (open_file ok s) = consumed s" "processed (open_file ok s) = processed s"
  "sent (open_file ok s) = sent s" "at_open (open_file ok s) = sent s"
  "stream (open_file ok s) = fs_open ok (stream s)"
  "app_level (open_file ok s) = app_level s" "app_formatter (open_file ok s) = app_formatter s"
  by (simp_all add: open_file_def)

text \<open>A blocked call is woken when there is one.\<close>

lemma notify_call_cases:
  assumes "notify_call w s = Some t"
  obtains "w = None" "nobody_waits s" "t = s"
  | i x where "w = Some i" "i < length (log_calls s)" "log_calls s ! i = CWaiting x"
      "t = s\<lparr>log_calls := (log_calls s)[i := CTest x]\<rparr>"
  using assms
  by (auto simp: notify_call_def call_waits_def wake_call_def split: option.splits if_splits)

definition taken_by_writer :: "item \<Rightarrow> item list \<Rightarrow> file_appender \<Rightarrow> file_appender" where
  "taken_by_writer x xs s =
     (if fst x = OTHER
      then s\<lparr>log_queue := xs, the_writer := WEnding, consumed := consumed s @ [x],
        processed := processed s @ [x]\<rparr>
      else s\<lparr>log_queue := xs, the_writer := WGot x, consumed := consumed s @ [x]\<rparr>)"

lemma taken_by_writer_frame [fa_frame]:
  "log_queue (taken_by_writer x xs s) = xs" "max_queue_size (taken_by_writer x xs s) = max_queue_size s"
  "log_calls (taken_by_writer x xs s) = log_calls s" "stream (taken_by_writer x xs s) = stream s"
  "phase (taken_by_writer x xs s) = phase s" "pushed (taken_by_writer x xs s) = pushed s"
  "consumed (taken_by_writer x xs s) = consumed s @ [x]"
  "sent (taken_by_writer x xs s) = sent s" "at_open (taken_by_writer x xs s) = at_open s"
  "app_level (taken_by_writer x xs s) = app_level s"
  "app_formatter (taken_by_writer x xs s) = app_formatter s"
  by (simp_all add: taken_by_writer_def)

lemma fa_step_cases:
  assumes "fa_step l s = Some t"
  obtains (opens) ok where "l = FOpen ok" "phase s = Opening" "t = (open_file ok s)\<lparr>phase := InUse\<rparr>"
  | (called) x where "l = FLog x" "phase s = InUse" "t = s\<lparr>log_calls := log_calls s @ [CTest x]\<rparr>"
  | (blocks) i x where "l = FTest i" "i < length (log_calls s)" "log_calls s ! i = CTest x"
      "max_queue_size s \<le> length (log_queue s)"
      "t = s\<lparr>log_calls := (log_calls s)[i := CWaiting x]\<rparr>"
  | (pushes) i x where "l = FTest i" "i < length (log_calls s)" "log_calls s ! i = CTest x"
      "length (log_queue s) < max_queue_size s"
      "t = notify_writer (s\<lparr>log_queue := log_queue s @ [x],
         log_calls := (log_calls s)[i := CReturned], pushed := pushed s @ [x]\<rparr>)"
  | (wakes) i x where "l = FWakeCall i" "i < length (log_calls s)" "log_calls s ! i = CWaiting x"
      "t = s\<lparr>log_calls := (log_calls s)[i := CTest x]\<rparr>"
  | (starts) "l = FWriterStart" "the_writer s = WStart" "t = send start_line (s\<lparr>the_writer := WTest\<rparr>)"
  | (rests) "l = FWriterTest None" "the_writer s = WTest" "log_queue s = []"
      "t = s\<lparr>the_writer := WWaiting\<rparr>"
  | (takes) w x xs where "l = FWriterTest w" "the_writer s = WTest" "log_queue s = x # xs"
      "notify_call w (taken_by_writer x xs s) = Some t"
  | (writer_wakes) "l = FWriterWake" "the_writer s = WWaiting" "t = s\<lparr>the_writer := WTest\<rparr>"
  | (writes) x where "l = FWriterWrite" "the_writer s = WGot x" "t = Consume_write x s"
  | (ends) "l = FWriterEnd" "the_writer s = WEnding" "t = send end_line (s\<lparr>the_writer := WDone\<rparr>)"
  | (reopens) ok where "l = FReopen ok" "phase s = InUse" "t = snd (FileAppender_Reopen ok s)"
  | (destroys) "l = FDestroy" "phase s = InUse" "\<forall>c \<in> set (log_calls s). c = CReturned"
      "t = s\<lparr>phase := Closing, log_calls := log_calls s @ [CTest (OTHER, None)]\<rparr>"
  | (closes) "l = FClose" "phase s = Closing" "\<forall>c \<in> set (log_calls s). c = CReturned"
      "the_writer s = WDone" "t = s\<lparr>phase := Gone, stream := fs_close (stream s)\<rparr>"
proof (cases l)
  case (FTest i)
  with assms obtain x where x: "i < length (log_calls s)" "log_calls s ! i = CTest x" "t = Log_test i x s"
    by (auto simp: fa_step_def split: if_splits call.splits)
  then show ?thesis
    using FTest by (cases "max_queue_size s \<le> length (log_queue s)")
      (auto simp: Log_test_def log_push_def intro: blocks pushes)
next
  case (FWriterTest w)
  with assms have w: "the_writer s = WTest" and t: "Consume_test w s = Some t"
    by (auto simp: fa_step_def split: if_splits)
  show ?thesis
  proof (cases "log_queue s")
    case Nil
    with FWriterTest w t show ?thesis
      by (auto simp: Consume_test_def log_pop_def split: if_splits intro: rests)
  next
    case (Cons x xs)
    with t have "notify_call w (taken_by_writer x xs s) = Some t"
      by (simp add: Consume_test_def log_pop_def taken_by_writer_def split: if_splits)
    with FWriterTest w Cons show ?thesis by (auto intro: takes)
  qed
next
  case (FOpen ok)
  with assms show ?thesis
    by (intro opens) (auto simp: fa_step_def split: if_splits)
next
  case (FLog x)
  with assms show ?thesis
    by (intro called) (auto simp: fa_step_def split: if_splits)
next
  case (FWakeCall i)
  with assms obtain x where "i < length (log_calls s)" "log_calls s ! i = CWaiting x" "t = wake_call i s"
    by (auto simp: fa_step_def call_waits_def split: if_splits)
  with FWakeCall show ?thesis by (intro wakes) (simp_all add: wake_call_def)
next
  case FWriterStart
  with assms show ?thesis
    by (intro starts) (auto simp: fa_step_def split: if_splits)
next
  case FWriterWake
  with assms show ?thesis
    by (intro writer_wakes) (auto simp: fa_step_def split: if_splits)
next
  case FWriterWrite
  with assms obtain x where "the_writer s = WGot x" "t = Consume_write x s"
    by (auto simp: fa_step_def split: if_splits writer.splits)
  with FWriterWrite show ?thesis by (intro writes)
next
  case FWriterEnd
  with assms show ?thesis
    by (intro ends) (auto simp: fa_step_def split: if_splits)
next
  case (FReopen ok)
  with assms show ?thesis
    by (intro reopens) (auto simp: fa_step_def split: if_splits)
next
  case FDestroy
  with assms show ?thesis
    by (intro destroys) (auto simp: fa_step_def split: if_splits)
next
  case FClose
  with assms show ?thesis
    by (intro closes) (auto simp: fa_step_def split: if_splits)
qed

section \<open>The invariant\<close>

definition at_test :: "call \<Rightarrow> bool" where "at_test c \<longleftrightarrow> (\<exists>x. c = CTest x)"
definition blocked :: "call \<Rightarrow> bool" where "blocked c \<longleftrightarrow> (\<exists>x. c = CWaiting x)"
definition unreturned :: "call \<Rightarrow> bool" where "unreturned c \<longleftrightarrow> c \<noteq> CReturned"

lemma call_kinds [simp]:
  "at_test (CTest x)" "\<not> at_test (CWaiting x)" "\<not> at_test CReturned"
  "\<not> blocked (CTest x)" "blocked (CWaiting x)" "\<not> blocked CReturned"
  "unreturned (CTest x)" "unreturned (CWaiting x)" "\<not> unreturned CReturned"
  by (simp_all add: at_test_def blocked_def unreturned_def)

definition some_blocked :: "file_appender \<Rightarrow> bool" where
  "some_blocked s \<longleftrightarrow> (\<exists>c \<in> set (log_calls s). blocked c)"

text \<open>The queue is bounded and holds what has been pushed and not yet consumed, in order.\<close>

definition queue_ok :: "file_appender \<Rightarrow> bool" where
  "queue_ok s \<longleftrightarrow> 0 < max_queue_size s \<and> length (log_queue s) \<le> max_queue_size s \<and>
     pushed s = consumed s @ log_queue s"

text \<open>Nobody sleeps for want of a notification.\<close>

definition awake_ok :: "file_appender \<Rightarrow> bool" where
  "awake_ok s \<longleftrightarrow>
     (some_blocked s \<longrightarrow> max_queue_size s \<le> length (log_queue s) + count_where at_test (log_calls s)) \<and>
     (the_writer s = WWaiting \<longrightarrow> log_queue s = [])"

fun in_hand :: "writer \<Rightarrow> item list" where
  "in_hand (WGot x) = [x]"
| "in_hand _ = []"

definition base :: "('a) appender_scheme \<Rightarrow> appender" where
  "base a = \<lparr>app_level = app_level a, app_formatter = app_formatter a\<rparr>"

lemma app_text_base: "app_text (base a) level ev = app_text a level ev"
  by (simp add: base_def app_text_def app_enabled_def app_format_def)

definition item_text :: "appender \<Rightarrow> item \<Rightarrow> string" where
  "item_text a x = (if fst x = OTHER then []
     else case app_text a (fst x) (snd x) of Inl e \<Rightarrow> [] | Inr txt \<Rightarrow> txt)"

definition log_text :: "appender \<Rightarrow> item list \<Rightarrow> string" where
  "log_text a xs = concat (map (item_text a) xs)"

text \<open>What has been sent is the text of the processed events between the two fixed lines.\<close>

definition sent_ok :: "file_appender \<Rightarrow> bool" where
  "sent_ok s \<longleftrightarrow>
     (\<not> crashed s \<longrightarrow> consumed s = processed s @ in_hand (the_writer s)) \<and>
     (the_writer s = WStart \<longrightarrow> processed s = []) \<and>
     (\<forall>x. the_writer s = WGot x \<longrightarrow> fst x \<noteq> OTHER) \<and>
     sent s = (if the_writer s = WStart then [] else start_line) @ log_text (base s) (processed s) @
       (if the_writer s = WDone then end_line else [])"

text \<open>As long as the stream is good, the file holds all that was sent since it was opened.\<close>

definition disk_ok :: "file_appender \<Rightarrow> bool" where
  "disk_ok s \<longleftrightarrow> (good (stream s) \<longrightarrow> sent s = at_open s @ disk (stream s)) \<and>
     (phase s = Opening \<longrightarrow> log_calls s = [] \<and> pushed s = [] \<and> \<not> is_open (stream s))"

definition fa_wf :: "file_appender \<Rightarrow> bool" where
  "fa_wf s \<longleftrightarrow> queue_ok s \<and> awake_ok s \<and> sent_ok s \<and> disk_ok s"

lemma base_cong: "app_level t = app_level s \<Longrightarrow> app_formatter t = app_formatter s \<Longrightarrow> base t = base s"
  by (simp add: base_def)

lemma log_text_simps [simp]:
  "log_text a [] = []" "log_text a (xs @ ys) = log_text a xs @ log_text a ys"
  "log_text a [x] = item_text a x"
  by (simp_all add: log_text_def)

text \<open>What \<open>Consume_write\<close> changes.\<close>

lemma item_text_base: "fst x \<noteq> OTHER \<Longrightarrow> item_text (base s) x =
    (case app_text s (fst x) (snd x) of Inl e \<Rightarrow> [] | Inr txt \<Rightarrow> txt)"
  by (simp add: item_text_def app_text_base)

lemma Consume_write_cases:
  assumes "fst x \<noteq> OTHER"
  obtains e where "Consume_write x s = s\<lparr>the_writer := WCrashed e\<rparr>"
    | "item_text (base s) x = []"
      "Consume_write x s = s\<lparr>the_writer := WTest, processed := processed s @ [x]\<rparr>"
    | "Consume_write x s =
         send (item_text (base s) x) (s\<lparr>the_writer := WTest, processed := processed s @ [x]\<rparr>)"
  using assms
  by (cases "app_enabled s (fst x)"; cases "app_format s (fst x) (snd x)")
    (auto simp: Consume_write_def item_text_base app_text_def)

lemma Reopen_frame [fa_frame]:
  "log_queue (snd (FileAppender_Reopen ok s)) = log_queue s"
  "max_queue_size (snd (FileAppender_Reopen ok s)) = max_queue_size s"
  "the_writer (snd (FileAppender_Reopen ok s)) = the_writer s"
  "log_calls (snd (FileAppender_Reopen ok s)) = log_calls s"
  "phase (snd (FileAppender_Reopen ok s)) = phase s"
  "pushed (snd (FileAppender_Reopen ok s)) = pushed s"
  "consumed (snd (FileAppender_Reopen ok s)) = consumed s"
  "processed (snd (FileAppender_Reopen ok s)) = processed s"
  "sent (snd (FileAppender_Reopen ok s)) = sent s"
  "at_open (snd (FileAppender_Reopen ok s)) = sent s"
  "app_level (snd (FileAppender_Reopen ok s)) = app_level s"
  "app_formatter (snd (FileAppender_Reopen ok s)) = app_formatter s"
  by (simp_all add: FileAppender_Reopen_def Let_def open_file_def)

lemma Reopen_disk: "good (stream (snd (FileAppender_Reopen ok s))) \<Longrightarrow>
    disk (stream (snd (FileAppender_Reopen ok s))) = []"
  by (auto simp: FileAppender_Reopen_def Let_def open_file_def fs_open_def split: if_splits)

lemma queue_step:
  assumes "queue_ok s" and "fa_step l s = Some t"
  shows "queue_ok t \<and> max_queue_size t = max_queue_size s"
  using assms(2)
proof (cases rule: fa_step_cases)
  case (takes w x xs)
  from takes(4) show ?thesis
    by (cases rule: notify_call_cases) (use assms(1) takes in \<open>auto simp: queue_ok_def fa_frame\<close>)
next
  case (writes x)
  have "log_queue t = log_queue s \<and> max_queue_size t = max_queue_size s \<and> pushed t = pushed s \<and>
      consumed t = consumed s"
    by (auto simp: writes Consume_write_def fa_frame split: sum.splits)
  then show ?thesis using assms(1) by (simp add: queue_ok_def)
qed (use assms(1) in \<open>auto simp: queue_ok_def fa_frame\<close>)

lemma at_test_update:
  "i < length (log_calls s) \<Longrightarrow> log_calls s ! i = c \<Longrightarrow>
   count_where at_test ((log_calls s)[i := d]) + (if at_test c then 1 else 0) =
     count_where at_test (log_calls s) + (if at_test d then 1 else 0)"
  using count_where_update [of i "log_calls s" at_test d] by simp

lemma blocked_update:
  "\<exists>c \<in> set (xs[i := d]). blocked c \<Longrightarrow> \<not> blocked d \<Longrightarrow> \<exists>c \<in> set xs. blocked c"
  by (auto dest!: set_update_subset_insert [THEN subsetD])

lemma nobody_waits_blocked: "nobody_waits s \<longleftrightarrow> \<not> some_blocked s"
  by (auto simp: nobody_waits_def call_waits_def some_blocked_def blocked_def set_conv_nth)

lemma nth_blocked:
  "i < length (log_calls s) \<Longrightarrow> log_calls s ! i = CWaiting x \<Longrightarrow> some_blocked s"
  unfolding some_blocked_def by (metis call_kinds(5) nth_mem)

lemma awake_step:
  assumes ok: "awake_ok s" and step: "fa_step l s = Some t"
  shows "awake_ok t"
  using step
proof (cases rule: fa_step_cases)
  case (called x)
  then show ?thesis using ok by (auto simp: awake_ok_def some_blocked_def)
next
  case (blocks i x)
  then show ?thesis using ok by (auto simp: awake_ok_def)
next
  case (pushes i x)
  have "some_blocked t \<Longrightarrow> some_blocked s"
    using blocked_update [of "log_calls s" i CReturned]
    by (simp add: some_blocked_def pushes(5) notify_writer_frame)
  moreover have "log_queue t = log_queue s @ [x]" "max_queue_size t = max_queue_size s"
    "the_writer t \<noteq> WWaiting"
    by (simp_all add: pushes(5) notify_writer_frame)
  moreover have "count_where at_test (log_calls t) + 1 = count_where at_test (log_calls s)"
    using at_test_update [OF pushes(2,3), of CReturned] by (simp add: pushes(5) notify_writer_frame)
  ultimately show ?thesis using ok by (auto simp: awake_ok_def)
next
  case (wakes i x)
  then have "some_blocked s" by (blast intro: nth_blocked)
  moreover have "count_where at_test (log_calls t) = count_where at_test (log_calls s) + 1"
    using at_test_update [OF wakes(2,3), of "CTest x"] by (simp add: wakes(4))
  moreover have "log_queue t = log_queue s" "max_queue_size t = max_queue_size s"
    "the_writer t = the_writer s"
    by (simp_all add: wakes(4))
  ultimately show ?thesis using ok by (auto simp: awake_ok_def)
next
  case (takes w x xs)
  from takes(4) show ?thesis
  proof (cases rule: notify_call_cases)
    case 1
    then show ?thesis
      by (simp add: awake_ok_def nobody_waits_blocked taken_by_writer_def)
  next
    case (2 i y)
    then have at: "i < length (log_calls s)" "log_calls s ! i = CWaiting y" by (simp_all add: fa_frame)
    then have "some_blocked s" by (blast intro: nth_blocked)
    moreover have "count_where at_test (log_calls t) = count_where at_test (log_calls s) + 1"
      using at_test_update [OF at, of "CTest y"] by (simp add: 2(4) fa_frame)
    moreover have "log_queue t = xs" "max_queue_size t = max_queue_size s" "the_writer t \<noteq> WWaiting"
      by (simp_all add: 2(4) taken_by_writer_def)
    ultimately show ?thesis using ok takes(3) by (auto simp: awake_ok_def)
  qed
next
  case (writes x)
  have "log_queue t = log_queue s \<and> max_queue_size t = max_queue_size s \<and>
      log_calls t = log_calls s \<and> the_writer t \<noteq> WWaiting"
    by (auto simp: writes Consume_write_def fa_frame split: sum.splits)
  then show ?thesis using ok by (auto simp: awake_ok_def some_blocked_def)
next
  case destroys
  then show ?thesis using ok by (auto simp: awake_ok_def some_blocked_def)
qed (use ok in \<open>auto simp: awake_ok_def some_blocked_def fa_frame\<close>)

lemma crashed_simps [simp]:
  "crashed (s\<lparr>the_writer := w\<rparr>) = (case w of WCrashed e \<Rightarrow> True | _ \<Rightarrow> False)"
  by (simp add: crashed_def)

lemma crashed_cong: "the_writer t = the_writer s \<Longrightarrow> crashed t = crashed s"
  by (simp add: crashed_def)

lemma sent_ok_same:
  assumes "sent_ok s" and "the_writer t = the_writer s" and "consumed t = consumed s"
    and "processed t = processed s" and "sent t = sent s"
    and "app_level t = app_level s" and "app_formatter t = app_formatter s"
  shows "sent_ok t"
  using assms by (simp add: sent_ok_def crashed_cong [of t s] base_cong [of t s])

text \<open>The writer moves between two points of its loop without touching the file.\<close>

lemma sent_ok_idle:
  assumes "sent_ok s" and "the_writer s \<in> {WTest, WWaiting}" and "the_writer t \<in> {WTest, WWaiting}"
    and "consumed t = consumed s" and "processed t = processed s" and "sent t = sent s"
    and "app_level t = app_level s" and "app_formatter t = app_formatter s"
  shows "sent_ok t"
  using assms by (auto simp: sent_ok_def crashed_def base_cong [of t s])

lemma notify_call_frame:
  assumes "notify_call w s = Some t"
  shows "the_writer t = the_writer s \<and> consumed t = consumed s \<and> processed t = processed s \<and>
    sent t = sent s \<and> app_level t = app_level s \<and> app_formatter t = app_formatter s \<and>
    stream t = stream s \<and> at_open t = at_open s \<and> phase t = phase s \<and> pushed t = pushed s"
  using assms by (cases rule: notify_call_cases) simp_all

lemma item_text_OTHER: "fst x = OTHER \<Longrightarrow> item_text a x = []"
  by (simp add: item_text_def)

lemma sent_ok_taken:
  assumes "sent_ok s" and "the_writer s = WTest"
  shows "sent_ok (taken_by_writer x xs s)"
  using assms by (auto simp: sent_ok_def taken_by_writer_def crashed_def item_text_OTHER base_def)

lemma sent_step:
  assumes ok: "sent_ok s" and step: "fa_step l s = Some t"
  shows "sent_ok t"
  using step
proof (cases rule: fa_step_cases)
  case (pushes i x)
  show ?thesis
  proof (cases "the_writer s = WWaiting")
    case True
    then show ?thesis by (intro sent_ok_idle [OF ok]) (simp_all add: pushes(5) fa_frame)
  next
    case False
    then show ?thesis by (intro sent_ok_same [OF ok]) (simp_all add: pushes(5) fa_frame)
  qed
next
  case starts
  then show ?thesis
    using ok by (auto simp: sent_ok_def fa_frame crashed_def base_def)
next
  case rests
  then show ?thesis by (intro sent_ok_idle [OF ok]) simp_all
next
  case (takes w x xs)
  then show ?thesis
    by (intro sent_ok_same [OF sent_ok_taken [OF ok takes(2)]])
      (simp_all add: notify_call_frame)
next
  case writer_wakes
  then show ?thesis by (intro sent_ok_idle [OF ok]) simp_all
next
  case (writes x)
  from writes ok have x: "fst x \<noteq> OTHER" by (simp add: sent_ok_def)
  show ?thesis
  proof (cases rule: Consume_write_cases [OF x, of s])
    case (1 e)
    then show ?thesis
      using ok writes by (auto simp: sent_ok_def crashed_def base_def)
  next
    case 2
    then show ?thesis
      using ok writes by (auto simp: sent_ok_def crashed_def base_def)
  next
    case 3
    then have "the_writer t = WTest" "consumed t = consumed s" "processed t = processed s @ [x]"
      "sent t = sent s @ item_text (base s) x" "base t = base s"
      by (simp_all add: writes(3) fa_frame base_def)
    then show ?thesis using ok writes(2) by (simp add: sent_ok_def crashed_def)
  qed
next
  case ends
  then have "the_writer t = WDone" "consumed t = consumed s" "processed t = processed s"
      "sent t = sent s @ end_line" "base t = base s"
    by (simp_all add: fa_frame base_def)
  then show ?thesis using ok ends(2) by (simp add: sent_ok_def crashed_def)
qed (auto intro!: sent_ok_same [OF ok] simp: fa_frame)

lemma fs_put_good: "good (fs_put x f) \<Longrightarrow> good f \<and> disk (fs_put x f) = disk f @ x"
  by (auto simp: fs_put_def split: if_splits)

lemma disk_step:
  assumes ok: "disk_ok s" "queue_ok s" and step: "fa_step l s = Some t"
  shows "disk_ok t"
  using step
proof (cases rule: fa_step_cases)
  case (opens ok)
  then show ?thesis
    using assms(1) by (auto simp: disk_ok_def fa_frame fs_open_def)
next
  case starts
  then show ?thesis
    using assms(1) by (auto simp: disk_ok_def fa_frame fs_put_def split: if_splits)
next
  case (takes w x xs)
  then have "pushed s \<noteq> []" using assms(2) by (auto simp: queue_ok_def)
  then show ?thesis
    using assms(1) notify_call_frame [OF takes(4)] by (auto simp: disk_ok_def fa_frame)
next
  case (writes x)
  have "(stream t = stream s \<and> sent t = sent s \<or>
      (\<exists>txt. stream t = fs_put txt (stream s) \<and> sent t = sent s @ txt)) \<and>
      at_open t = at_open s \<and> phase t = phase s \<and> log_calls t = log_calls s \<and> pushed t = pushed s"
    by (auto simp: writes Consume_write_def fa_frame split: sum.splits)
  then show ?thesis using assms(1) by (auto simp: disk_ok_def fs_put_def split: if_splits)
next
  case ends
  then show ?thesis
    using assms(1) by (auto simp: disk_ok_def fa_frame fs_put_def split: if_splits)
next
  case (reopens ok)
  then show ?thesis by (auto simp: disk_ok_def fa_frame Reopen_disk)
next
  case closes
  then show ?thesis using assms(1) by (auto simp: disk_ok_def fs_close_def)
qed (use assms(1) in \<open>auto simp: disk_ok_def fa_frame\<close>)

lemma fa_wf_step: "fa_wf s \<Longrightarrow> fa_step l s = Some t \<Longrightarrow> fa_wf t"
  using queue_step [of s l t] awake_step [of s l t] sent_step [of s l t] disk_step [of s l t]
  by (simp add: fa_wf_def)

lemma fa_frame_step:
  assumes "fa_step l s = Some t"
  shows "app_level t = app_level s \<and> app_formatter t = app_formatter s"
  using assms
proof (cases rule: fa_step_cases)
  case (takes w x xs)
  then show ?thesis using notify_call_frame [OF takes(4)] by (simp add: fa_frame)
next
  case (writes x)
  then show ?thesis by (auto simp: Consume_write_def fa_frame split: sum.splits)
qed (simp_all add: fa_frame)

end
