(* ===== verification/FileAppenderProps.thy ===== *)
theory FileAppenderProps
  imports FileAppender
begin

text \<open>
  What the file appender guarantees. Clients are restricted by the labels a run may have:
  \<open>fine_label\<close> excludes \<open>OTHER\<close>, which the header reserves to the appender itself, and null events.
\<close>

section \<open>Runs from a constructed appender\<close>

lemma fa_init_wf:
  assumes "FileAppender_init level name n = Inr s"
  shows "fa_wf (s\<lparr>app_formatter := f\<rparr>)"
  using assms
  by (auto simp: FileAppender_init_def fa_wf_def queue_ok_def awake_ok_def some_blocked_def
      sent_ok_def disk_ok_def crashed_def fs_init_def split: if_splits)

lemma exec_wf: "fa_wf s \<Longrightarrow> exec fa_step ls s = Some t \<Longrightarrow> fa_wf t"
  by (rule exec_invariant [where P = fa_wf]) (auto intro: fa_wf_step)

lemma exec_same:
  assumes "fa_wf s" and "exec fa_step ls s = Some t"
  shows "base t = base s \<and> max_queue_size t = max_queue_size s"
proof (rule exec_relation [where R = "\<lambda>s t. base t = base s \<and> max_queue_size t = max_queue_size s"
      and P = fa_wf, OF _ _ _ assms])
  fix l s t
  assume "fa_wf s" and step: "fa_step l s = Some t"
  then show "(base t = base s \<and> max_queue_size t = max_queue_size s) \<and> fa_wf t"
    using fa_frame_step [OF step] queue_step [of s l t] fa_wf_step [of s l t]
    by (simp add: fa_wf_def base_def)
qed auto

section \<open>The events a run logs\<close>

fun call_item :: "call \<Rightarrow> item list" where
  "call_item (CTest x) = [x]"
| "call_item (CWaiting x) = [x]"
| "call_item CReturned = []"

definition pending :: "file_appender \<Rightarrow> item list" where
  "pending s = concat (map call_item (log_calls s))"

fun logged :: "fa_label \<Rightarrow> item list" where
  "logged (FLog x) = [x]"
| "logged FDestroy = [(OTHER, None)]"
| "logged _ = []"

lemma pending_update:
  assumes "i < length (log_calls s)" and "log_calls t = (log_calls s)[i := c]"
  shows "mset (pending t) + mset (call_item (log_calls s ! i)) = mset (pending s) + mset (call_item c)"
  using mset_concat_map_update [OF assms(1), of call_item c] assms(2) by (simp add: pending_def)

lemma logged_step:
  assumes "fa_step l s = Some t"
  shows "mset (pushed t) + mset (pending t) = mset (pushed s) + mset (pending s) + mset (logged l)"
  using assms
proof (cases rule: fa_step_cases)
  case (blocks i x)
  then show ?thesis using pending_update [OF blocks(2), of t "CWaiting x"] by simp
next
  case (pushes i x)
  then show ?thesis using pending_update [OF pushes(2), of t CReturned] by (simp add: fa_frame)
next
  case (wakes i x)
  then show ?thesis using pending_update [OF wakes(2), of t "CTest x"] by simp
next
  case (takes w x xs)
  from takes(4) show ?thesis
  proof (cases rule: notify_call_cases)
    case 1
    then show ?thesis by (simp add: takes(1) fa_frame pending_def)
  next
    case (2 i y)
    then have i: "i < length (log_calls s)" "log_calls s ! i = CWaiting y"
      "log_calls t = (log_calls s)[i := CTest y]"
      by (simp_all add: fa_frame)
    then show ?thesis
      using pending_update [OF i(1,3)] 2(4) by (simp add: takes(1) fa_frame)
  qed
next
  case (writes x)
  have "pushed t = pushed s \<and> log_calls t = log_calls s"
    by (auto simp: writes Consume_write_def fa_frame split: sum.splits)
  then show ?thesis by (simp add: writes(1) pending_def)
qed (auto simp: fa_frame pending_def)

lemma logged_exec:
  "exec fa_step ls s = Some t \<Longrightarrow> mset (pushed t) + mset (pending t) =
     mset (pushed s) + mset (pending s) + mset (concat (map logged ls))"
proof (induction ls arbitrary: s)
  case (Cons l ls)
  from Cons.prems obtain u where "fa_step l s = Some u" "exec fa_step ls u = Some t"
    by (rule exec_ConsE)
  with Cons.IH [of u] logged_step [of l s u] show ?case by (simp add: ac_simps)
qed simp

section \<open>Well-behaved clients\<close>

fun fine_label :: "fa_label \<Rightarrow> bool" where
  "fine_label (FLog x) \<longleftrightarrow> fst x \<noteq> OTHER \<and> event_fine (snd x)"
| "fine_label _ \<longleftrightarrow> True"

definition no_other :: "item list \<Rightarrow> bool" where
  "no_other xs \<longleftrightarrow> (\<forall>x \<in> set xs. fst x \<noteq> OTHER \<and> event_fine (snd x))"

lemma no_other_simps [simp]:
  "no_other []"
  "no_other (xs @ ys) \<longleftrightarrow> no_other xs \<and> no_other ys"
  "no_other (x # xs) \<longleftrightarrow> fst x \<noteq> OTHER \<and> event_fine (snd x) \<and> no_other xs"
  by (auto simp: no_other_def)

lemma no_other_subset: "no_other xs \<Longrightarrow> set ys \<subseteq> set xs \<Longrightarrow> no_other ys"
  unfolding no_other_def by blast

lemma OTHER_not_no_other: "OTHER \<in> fst ` set xs \<Longrightarrow> \<not> no_other xs"
  unfolding no_other_def by (metis imageE)

text \<open>\<open>OTHER\<close> is pushed last, by the destructor, and ends the writer.\<close>

definition all_returned :: "file_appender \<Rightarrow> bool" where
  "all_returned s \<longleftrightarrow> (\<forall>c \<in> set (log_calls s). c = CReturned)"

definition last_call :: "file_appender \<Rightarrow> bool" where
  "last_call s \<longleftrightarrow> (\<exists>cs c. log_calls s = cs @ [c] \<and> (\<forall>d \<in> set cs. d = CReturned) \<and>
     (c = CReturned \<and> (\<exists>xs. pushed s = xs @ [(OTHER, None)] \<and> no_other xs) \<or>
      c \<in> {CTest (OTHER, None), CWaiting (OTHER, None)} \<and> no_other (pushed s)))"

definition closing_ok :: "file_appender \<Rightarrow> bool" where
  "closing_ok s \<longleftrightarrow>
     (phase s \<in> {Opening, InUse} \<longrightarrow> no_other (pending s) \<and> no_other (pushed s)) \<and>
     (phase s \<in> {Closing, Gone} \<longrightarrow> last_call s) \<and>
     (the_writer s \<in> {WEnding, WDone} \<longleftrightarrow> OTHER \<in> fst ` set (consumed s)) \<and>
     (phase s = Gone \<longrightarrow> the_writer s = WDone \<and> all_returned s)"

lemma last_call_update:
  assumes "last_call s" and "i < length (log_calls s)" and "log_calls s ! i \<noteq> CReturned"
  obtains cs c where "log_calls s = cs @ [c]" "i = length cs" "\<forall>d \<in> set cs. d = CReturned"
    "c \<in> {CTest (OTHER, None), CWaiting (OTHER, None)}" "no_other (pushed s)"
proof -
  from assms(1) obtain cs c where cs: "log_calls s = cs @ [c]" "\<forall>d \<in> set cs. d = CReturned"
    "c = CReturned \<or> c \<in> {CTest (OTHER, None), CWaiting (OTHER, None)} \<and> no_other (pushed s)"
    by (auto simp: last_call_def)
  have "i = length cs"
  proof (rule ccontr)
    assume "i \<noteq> length cs"
    with assms(2) cs(1) have "i < length cs" by simp
    with cs assms(3) show False by (auto simp: nth_append dest: nth_mem)
  qed
  moreover from this have "c \<noteq> CReturned" using cs(1) assms(3) by simp
  ultimately show ?thesis using cs that by blast
qed

lemma last_call_same: "log_calls t = log_calls s \<Longrightarrow> pushed t = pushed s \<Longrightarrow> last_call t = last_call s"
  by (simp add: last_call_def)

lemma pending_cong: "log_calls t = log_calls s \<Longrightarrow> pending t = pending s"
  by (simp add: pending_def)

lemma pending_no_other_update:
  assumes "no_other (pending s)" and "i < length (log_calls s)"
    and "log_calls t = (log_calls s)[i := c]" and "set (call_item c) \<subseteq> set (call_item (log_calls s ! i))"
  shows "no_other (pending t)"
proof -
  have "set_mset (mset (pending t)) \<subseteq> set_mset (mset (pending s) + mset (call_item c))"
    using pending_update [OF assms(2,3)] by (metis Un_upper1 set_mset_union)
  then have "set (pending t) \<subseteq> set (pending s) \<union> set (call_item c)" by simp
  moreover have "set (call_item (log_calls s ! i)) \<subseteq> set (pending s)"
    using assms(2) nth_mem by (fastforce simp: pending_def)
  ultimately show ?thesis using assms(1,4) by (auto simp: no_other_def)
qed

text \<open>A step of one call, in either half of the appender's life.\<close>

lemma phase_cases:
  obtains "phase s \<in> {Opening, InUse}" | "phase s \<in> {Closing, Gone}"
  by (cases "phase s") auto

lemma closing_ok_call:
  assumes ok: "closing_ok s" and i: "i < length (log_calls s)" "log_calls s ! i = c" "c \<noteq> CReturned"
    and t: "log_calls t = (log_calls s)[i := d]" "phase t = phase s" "consumed t = consumed s"
    and w: "the_writer t \<in> {WEnding, WDone} \<longleftrightarrow> the_writer s \<in> {WEnding, WDone}"
      "the_writer t = WDone \<longleftrightarrow> the_writer s = WDone"
    and d: "call_item d = call_item c \<and> pushed t = pushed s \<or>
      d = CReturned \<and> pushed t = pushed s @ call_item c"
  shows "closing_ok t"
proof -
  have "no_other (pending t) \<and> no_other (pushed t)" if "phase s \<in> {Opening, InUse}"
  proof -
    have no: "no_other (pending s)" "no_other (pushed s)" using ok that by (auto simp: closing_ok_def)
    then have "no_other (pending t)"
      using d i by (intro pending_no_other_update [OF _ i(1) t(1)]) auto
    moreover have "set (call_item c) \<subseteq> set (pending s)"
      using i nth_mem [OF i(1)] by (force simp: pending_def)
    ultimately have "no_other (call_item c)" using no no_other_subset by blast
    with \<open>no_other (pending t)\<close> no d show ?thesis by auto
  qed
  moreover have "last_call t" if "phase s \<in> {Closing, Gone}"
  proof -
    from ok that have "last_call s" by (auto simp: closing_ok_def)
    then obtain cs c' where cs: "log_calls s = cs @ [c']" "i = length cs" "\<forall>d \<in> set cs. d = CReturned"
      "c' \<in> {CTest (OTHER, None), CWaiting (OTHER, None)}" "no_other (pushed s)"
      using i by (elim last_call_update) auto
    then have c: "c' = c" "log_calls t = cs @ [d]" using i t by auto
    show ?thesis
    proof (cases "d = CReturned")
      case True
      with cs c d show ?thesis by (auto simp: last_call_def)
    next
      case False
      with d have "call_item d = call_item c" "pushed t = pushed s" by auto
      with cs c False show ?thesis by (cases d) (auto simp: last_call_def)
    qed
  qed
  moreover have "\<not> all_returned s" using i by (metis all_returned_def nth_mem)
  then have "phase s \<noteq> Gone" using ok by (auto simp: closing_ok_def)
  ultimately show ?thesis
    using ok t(2,3) w by (simp add: closing_ok_def)
qed

text \<open>A step of the writer, or of nobody's call.\<close>

lemma closing_ok_writer:
  assumes "closing_ok s" and "log_calls t = log_calls s" "phase t = phase s" "pushed t = pushed s"
    and "the_writer t \<in> {WEnding, WDone} \<longleftrightarrow> OTHER \<in> fst ` set (consumed t)"
    and "the_writer s = WDone \<longrightarrow> the_writer t = WDone"
  shows "closing_ok t"
  using assms
  by (auto simp: closing_ok_def pending_cong [of t s] last_call_same [of t s] all_returned_def)

lemma closing_ok_step:
  assumes ok: "closing_ok s" "sent_ok s" "disk_ok s" and fine: "fine_label l" and step: "fa_step l s = Some t"
  shows "closing_ok t"
  using step
proof (cases rule: fa_step_cases)
  case (opens k)
  then show ?thesis
    using ok(1) pending_cong [of t s] by (simp add: closing_ok_def fa_frame)
next
  case (called x)
  then show ?thesis using ok(1) fine by (simp add: closing_ok_def pending_def)
next
  case (blocks i x)
  then show ?thesis by (intro closing_ok_call [OF ok(1) blocks(2,3), where d = "CWaiting x"]) simp_all
next
  case (pushes i x)
  then show ?thesis by (intro closing_ok_call [OF ok(1) pushes(2,3), where d = "CReturned"]) (simp_all add: fa_frame)
next
  case (wakes i x)
  then show ?thesis by (intro closing_ok_call [OF ok(1) wakes(2,3), where d = "CTest x"]) simp_all
next
  case (takes w x xs)
  let ?u = "taken_by_writer x xs s"
  have u: "closing_ok ?u"
    using ok(1) takes(2)
    by (intro closing_ok_writer [OF ok(1)]) (auto simp: fa_frame closing_ok_def taken_by_writer_def)
  from takes(4) show ?thesis
    by (cases rule: notify_call_cases) (use u in \<open>auto intro: closing_ok_call\<close>)
next
  case (writes x)
  have "log_calls t = log_calls s \<and> phase t = phase s \<and> pushed t = pushed s \<and>
      consumed t = consumed s \<and> the_writer t \<notin> {WEnding, WDone}"
    by (auto simp: writes Consume_write_def fa_frame split: sum.splits)
  then show ?thesis
    using ok(1) writes(2) by (intro closing_ok_writer [OF ok(1)]) (auto simp: closing_ok_def)
next
  case destroys
  then show ?thesis using ok(1) by (auto simp: closing_ok_def last_call_def)
next
  case closes
  then show ?thesis
    using ok(1) by (simp add: closing_ok_def all_returned_def last_call_def)
qed (use ok(1) in \<open>(intro closing_ok_writer [OF ok(1)]; auto simp: fa_frame closing_ok_def)+\<close>)

lemma init_closing:
  assumes "FileAppender_init level name n = Inr s"
  shows "closing_ok (s\<lparr>app_formatter := f\<rparr>)"
  using assms by (auto simp: FileAppender_init_def closing_ok_def pending_def split: if_splits)

text \<open>Once the writer has seen \<open>OTHER\<close>, nothing is left on the queue.\<close>

lemma ended_empty:
  assumes "closing_ok s" "queue_ok s" and "the_writer s \<in> {WEnding, WDone}"
  shows "log_queue s = []"
proof -
  have ms: "pushed s = consumed s @ log_queue s" using assms(2) by (simp add: queue_ok_def)
  have other: "OTHER \<in> fst ` set (consumed s)" using assms by (simp add: closing_ok_def)
  then have "\<not> no_other (consumed s)" by (rule OTHER_not_no_other)
  then have "\<not> no_other (pushed s)" by (simp add: ms)
  with assms(1) obtain xs where xs: "pushed s = xs @ [(OTHER, None)]" "no_other xs"
    by (cases rule: phase_cases [of s]) (auto simp: closing_ok_def last_call_def)
  show ?thesis
  proof (cases "log_queue s" rule: rev_cases)
    case (snoc ys y)
    with ms xs have "xs = consumed s @ ys" by simp
    with xs(2) \<open>\<not> no_other (consumed s)\<close> show ?thesis by simp
  qed
qed

section \<open>The writer does not crash\<close>

definition run_ok :: "file_appender \<Rightarrow> bool" where
  "run_ok s \<longleftrightarrow> fa_wf s \<and> closing_ok s \<and> app_formatter s \<noteq> None \<and> \<not> crashed s"

lemma pushed_fine:
  assumes "closing_ok s" and "x \<in> set (pushed s)" and "fst x \<noteq> OTHER"
  shows "event_fine (snd x)"
proof -
  have "no_other (pushed s) \<or> (\<exists>xs. pushed s = xs @ [(OTHER, None)] \<and> no_other xs)"
    using assms(1) by (cases rule: phase_cases [of s]) (auto simp: closing_ok_def last_call_def)
  then show ?thesis
  proof (elim disjE exE conjE)
    assume "no_other (pushed s)"
    then show ?thesis using assms(2) unfolding no_other_def by blast
  next
    fix xs
    assume xs: "pushed s = xs @ [(OTHER, None)]" "no_other xs"
    with assms(2,3) have "x \<in> set xs" by auto
    then show ?thesis using xs(2) unfolding no_other_def by blast
  qed
qed

lemma Consume_write_fine:
  assumes "app_formatter s \<noteq> None" and "event_fine (snd x)"
  shows "\<not> crashed (Consume_write x s)"
proof -
  obtain y where "app_text s (fst x) (snd x) = Inr y" using app_text_fine [OF assms] by blast
  then show ?thesis
    by (auto simp: Consume_write_def app_text_def crashed_def send_def split: if_splits)
qed

lemma run_ok_step:
  assumes ok: "run_ok s" and fine: "fine_label l" and step: "fa_step l s = Some t"
  shows "run_ok t"
proof -
  have wf: "fa_wf t" using ok fa_wf_step [OF _ step] by (simp add: run_ok_def)
  moreover have "closing_ok t"
    using ok by (intro closing_ok_step [OF _ _ _ fine step]) (simp_all add: run_ok_def fa_wf_def)
  moreover have "app_formatter t \<noteq> None" using ok fa_frame_step [OF step] by (simp add: run_ok_def)
  moreover from step have "\<not> crashed t"
  proof (cases rule: fa_step_cases)
    case (takes w x xs)
    then show ?thesis
      using notify_call_frame [OF takes(4)] by (simp add: crashed_def taken_by_writer_def)
  next
    case (writes x)
    have x: "x \<in> set (pushed s)" "fst x \<noteq> OTHER"
      using ok writes(2) by (auto simp: run_ok_def fa_wf_def queue_ok_def sent_ok_def)
    have "event_fine (snd x)" using ok pushed_fine [OF _ x] by (simp add: run_ok_def)
    then show ?thesis using ok Consume_write_fine writes(3) by (simp add: run_ok_def)
  qed (use ok in \<open>auto simp: run_ok_def crashed_def fa_frame split: writer.splits\<close>)
  ultimately show ?thesis by (simp add: run_ok_def)
qed

lemma run_ok_exec:
  "run_ok s \<Longrightarrow> \<forall>l \<in> set ls. fine_label l \<Longrightarrow> exec fa_step ls s = Some t \<Longrightarrow> run_ok t"
proof (induction ls arbitrary: s)
  case (Cons l ls)
  from Cons.prems(3) obtain u where "fa_step l s = Some u" "exec fa_step ls u = Some t"
    by (rule exec_ConsE)
  with Cons run_ok_step [of s l u] show ?case by auto
qed simp

lemma init_run_ok:
  assumes "FileAppender_init level name n = Inr s"
  shows "run_ok (s\<lparr>app_formatter := Some f\<rparr>)"
  using fa_init_wf [OF assms, of "Some f"] init_closing [OF assms, of "Some f"] assms
  by (auto simp: run_ok_def FileAppender_init_def crashed_def split: if_splits)

section \<open>Every call returns\<close>

text \<open>The steps that need neither a new call nor a spurious wake-up.\<close>

definition quiet_step :: "fa_label \<Rightarrow> file_appender \<Rightarrow> file_appender option" where
  "quiet_step l s =
     (case l of FTest i \<Rightarrow> fa_step l s | FWriterStart \<Rightarrow> fa_step l s | FWriterTest w \<Rightarrow> fa_step l s
      | FWriterWrite \<Rightarrow> fa_step l s | FWriterEnd \<Rightarrow> fa_step l s | FClose \<Rightarrow> fa_step l s | _ \<Rightarrow> None)"

lemma quiet_step_fa: "quiet_step l s = Some t \<Longrightarrow> fa_step l s = Some t \<and> fine_label l"
  by (cases l) (auto simp: quiet_step_def)

fun writer_weight :: "writer \<Rightarrow> nat" where
  "writer_weight WStart = 2"
| "writer_weight WTest = 1"
| "writer_weight (WGot x) = 2"
| "writer_weight WEnding = 1"
| "writer_weight _ = 0"

definition fa_measure :: "file_appender \<Rightarrow> nat" where
  "fa_measure s = 4 * (length (log_queue s) + length (pending s)) + 2 * count_where at_test (log_calls s)
     + writer_weight (the_writer s) + (if phase s = Closing then 1 else 0)"

lemma length_pending_update:
  assumes "i < length (log_calls s)" and "log_calls t = (log_calls s)[i := c]"
  shows "length (pending t) + length (call_item (log_calls s ! i)) = length (pending s) + length (call_item c)"
  using arg_cong [OF pending_update [OF assms], of size] by simp

lemma quiet_decreases:
  assumes "quiet_step l s = Some t"
  shows "fa_measure t < fa_measure s"
proof -
  from quiet_step_fa [OF assms] have "fa_step l s = Some t" by simp
  then show ?thesis
  proof (cases rule: fa_step_cases)
    case (blocks i x)
    then show ?thesis
      using length_pending_update [OF blocks(2), of t "CWaiting x"]
        at_test_update [OF blocks(2,3), of "CWaiting x"]
      by (simp add: fa_measure_def)
  next
    case (pushes i x)
    have "length (pending s) = Suc (length (pending t))"
      and "count_where at_test (log_calls s) = Suc (count_where at_test (log_calls t))"
      and "log_queue t = log_queue s @ [x]" "phase t = phase s"
      and "writer_weight (the_writer t) \<le> Suc (writer_weight (the_writer s))"
      using length_pending_update [OF pushes(2), of t CReturned]
        at_test_update [OF pushes(2,3), of CReturned] pushes(3)
      by (simp_all add: pushes(5) fa_frame)
    then show ?thesis by (simp add: fa_measure_def)
  next
    case starts
    then show ?thesis by (simp add: fa_measure_def fa_frame pending_def)
  next
    case rests
    then show ?thesis by (simp add: fa_measure_def pending_def)
  next
    case (takes w x xs)
    let ?u = "taken_by_writer x xs s"
    have u: "writer_weight (the_writer ?u) \<le> 2" by (simp add: taken_by_writer_def)
    from takes(4) show ?thesis
    proof (cases rule: notify_call_cases)
      case 1
      then show ?thesis
        using u takes(2,3) by (simp add: fa_measure_def fa_frame pending_def)
    next
      case (2 i y)
      then have at: "i < length (log_calls s)" "log_calls s ! i = CWaiting y" by (simp_all add: fa_frame)
      have "length (pending t) = length (pending s)"
        using length_pending_update [OF at(1), of t "CTest y"] at(2) by (simp add: 2(4) fa_frame)
      moreover have "count_where at_test (log_calls t) = Suc (count_where at_test (log_calls s))"
        using at_test_update [OF at, of "CTest y"] by (simp add: 2(4) fa_frame)
      ultimately show ?thesis
        using u takes(2,3) by (simp add: fa_measure_def 2(4) fa_frame)
    qed
  next
    case (writes x)
    have "log_queue t = log_queue s \<and> log_calls t = log_calls s \<and> phase t = phase s \<and>
        writer_weight (the_writer t) < 2"
      by (auto simp: writes Consume_write_def fa_frame split: sum.splits)
    then show ?thesis using writes(2) by (simp add: fa_measure_def pending_def)
  next
    case ends
    then show ?thesis by (simp add: fa_measure_def fa_frame pending_def)
  next
    case closes
    then show ?thesis by (simp add: fa_measure_def pending_def)
  qed (use assms in \<open>auto simp: quiet_step_def\<close>)
qed

definition settled :: "file_appender \<Rightarrow> bool" where
  "settled s \<longleftrightarrow> all_returned s \<and> log_queue s = [] \<and> phase s \<noteq> Closing"

lemma writer_can_take:
  assumes "the_writer s = WTest" and "log_queue s \<noteq> []" and "\<not> crashed s"
  shows "\<exists>w t. quiet_step (FWriterTest w) s = Some t"
proof -
  obtain x xs where q: "log_queue s = x # xs" using assms(2) by (cases "log_queue s") auto
  have "\<exists>w t. notify_call w u = Some t" for u
    by (auto simp: notify_call_def nobody_waits_def call_waits_def split: option.splits)
  then show ?thesis using assms(1,3) q
    by (simp add: quiet_step_def fa_step_def Consume_test_def log_pop_def)
qed

text \<open>The writer has something to do while the queue holds an event; behind it, the destructor has.\<close>

lemma quiet_writer_moves:
  assumes "run_ok s" and "log_queue s \<noteq> []"
  shows "\<exists>l t. quiet_step l s = Some t"
proof -
  have wf: "fa_wf s" "closing_ok s" "\<not> crashed s" using assms(1) by (auto simp: run_ok_def)
  have "the_writer s \<notin> {WWaiting, WEnding, WDone}"
    using wf assms(2) ended_empty [of s] by (auto simp: fa_wf_def awake_ok_def)
  then consider "the_writer s = WStart" | "the_writer s = WTest" | x where "the_writer s = WGot x"
    using wf(3) by (cases "the_writer s") (auto simp: crashed_def)
  then show ?thesis
  proof cases
    case 1
    then show ?thesis
      using wf(3) by (intro exI [of _ FWriterStart]) (simp add: quiet_step_def fa_step_def)
  next
    case 2
    then show ?thesis using writer_can_take assms(2) wf(3) by blast
  next
    case (3 x)
    then show ?thesis
      using wf(3) by (intro exI [of _ FWriterWrite]) (simp add: quiet_step_def fa_step_def)
  qed
qed

lemma quiet_destructor_moves:
  assumes "run_ok s" and "log_queue s = []" and "all_returned s" and "phase s = Closing"
  shows "\<exists>l t. quiet_step l s = Some t"
proof -
  have wf: "fa_wf s" "closing_ok s" "\<not> crashed s" using assms(1) by (auto simp: run_ok_def)
  obtain xs where "pushed s = xs @ [(OTHER, None)]"
    using wf(2) assms(3,4) by (auto simp: closing_ok_def last_call_def all_returned_def)
  then have "consumed s = xs @ [(OTHER, None)]"
    using wf(1) assms(2) by (simp add: fa_wf_def queue_ok_def)
  then have "OTHER \<in> fst ` set (consumed s)" by simp
  then consider "the_writer s = WEnding" | "the_writer s = WDone"
    using wf(2) by (auto simp: closing_ok_def)
  then show ?thesis
  proof cases
    case 1
    then show ?thesis
      using wf(3) by (intro exI [of _ FWriterEnd]) (simp add: quiet_step_def fa_step_def)
  next
    case 2
    then show ?thesis
      using wf(3) assms(3,4)
      by (intro exI [of _ FClose]) (simp add: quiet_step_def fa_step_def all_returned_def)
  qed
qed

lemma quiet_not_stuck:
  assumes ok: "run_ok s" and "\<not> settled s"
  shows "\<exists>l t. quiet_step l s = Some t"
proof (cases "\<exists>c \<in> set (log_calls s). at_test c")
  case True
  then obtain i x where "i < length (log_calls s)" "log_calls s ! i = CTest x"
    by (auto simp: at_test_def in_set_conv_nth)
  then show ?thesis
    using ok by (intro exI [of _ "FTest i"]) (simp add: quiet_step_def fa_step_def run_ok_def)
next
  case no_test: False
  have "count_where at_test (log_calls s) = 0"
    unfolding count_where_zero using no_test by (metis nth_mem)
  then have full: "log_queue s \<noteq> []" if "some_blocked s"
    using that ok by (auto simp: run_ok_def fa_wf_def awake_ok_def queue_ok_def)
  have blocked: "some_blocked s" if "\<not> all_returned s"
    using that no_test by (auto simp: all_returned_def some_blocked_def)
      (metis at_test_def blocked_def call.exhaust)
  consider "log_queue s \<noteq> []" | "log_queue s = []" "all_returned s" "phase s = Closing"
    using assms(2) full blocked by (auto simp: settled_def)
  then show ?thesis
    by cases (blast intro: quiet_writer_moves [OF ok] quiet_destructor_moves [OF ok])+
qed

interpretation quiet: terminating_machine quiet_step run_ok settled fa_measure
  using run_ok_step quiet_step_fa quiet_decreases quiet_not_stuck by unfold_locales blast+

section \<open>Properties\<close>

text \<open>
  C22: The event queue is bounded and first-in first-out. Whatever the clients log and however the
  threads are scheduled, spurious wake-ups, reopenings and failures included: the queue never holds
  more than the size the constructor was given, what has been put on it is what the writer has
  taken off it followed by what is still there, and what has been sent to the stream is the text
  of the events taken, in that order, between the two lines that mark start and end.
\<close>

theorem log_queue_bounded_fifo:
  assumes "FileAppender_init level name n = Inr s0"
    and "exec fa_step ls (s0\<lparr>app_formatter := f\<rparr>) = Some s"
  shows "length (log_queue s) \<le> n \<and> pushed s = consumed s @ log_queue s \<and>
    mset (pushed s) + mset (pending s) = mset (concat (map logged ls)) \<and>
    (\<not> crashed s \<longrightarrow> consumed s = processed s @ in_hand (the_writer s)) \<and>
    sent s = (if the_writer s = WStart then [] else start_line) @
      log_text \<lparr>app_level = level, app_formatter = f\<rparr> (processed s) @
      (if the_writer s = WDone then end_line else [])"
proof -
  let ?s = "s0\<lparr>app_formatter := f\<rparr>"
  have wf: "fa_wf ?s" by (rule fa_init_wf [OF assms(1)])
  have s0: "max_queue_size ?s = n" "base ?s = \<lparr>app_level = level, app_formatter = f\<rparr>"
    "pushed ?s = []" "pending ?s = []"
    using assms(1) by (auto simp: FileAppender_init_def base_def pending_def split: if_splits)
  have "fa_wf s" by (rule exec_wf [OF wf assms(2)])
  moreover have "base s = base ?s" "max_queue_size s = max_queue_size ?s"
    using exec_same [OF wf assms(2)] by simp_all
  moreover have "mset (pushed s) + mset (pending s) = mset (concat (map logged ls))"
    using logged_exec [OF assms(2)] s0(3,4) by simp
  ultimately show ?thesis
    using s0(1,2) by (simp add: fa_wf_def queue_ok_def sent_ok_def)
qed

text \<open>
  C13: No call of \<open>Log\<close> blocks for ever, and the destructor returns. When clients log events with
  their message and file name and a level other than \<open>OTHER\<close>, the writer never faults; and from any
  reachable state, with no further call and no spurious wake-up, every schedule of the calls in
  progress, the writer and the destructor is bounded, and one that cannot go on has every call
  returned, the queue empty, and the destructor done if it had been called. No notification is
  lost between the two condition variables.
\<close>

theorem logging_does_not_block:
  assumes "FileAppender_init level name n = Inr s0"
    and "exec fa_step ls (s0\<lparr>app_formatter := Some f\<rparr>) = Some s" and "\<forall>l \<in> set ls. fine_label l"
  shows "\<not> crashed s \<and>
    (\<exists>ms t. exec quiet_step ms s = Some t \<and> settled t) \<and>
    (\<forall>ms t. exec quiet_step ms s = Some t \<longrightarrow>
       length ms \<le> fa_measure s \<and> ((\<forall>l. quiet_step l t = None) \<longrightarrow> settled t))"
proof -
  have ok: "run_ok s" by (rule run_ok_exec [OF init_run_ok [OF assms(1)] assms(3,2)])
  then have "\<not> crashed s" by (simp add: run_ok_def)
  moreover have "length ms \<le> fa_measure s \<and> ((\<forall>l. quiet_step l t = None) \<longrightarrow> settled t)"
    if "exec quiet_step ms s = Some t" for ms t
    using quiet.exec_bounded [OF ok that] quiet.ends_at_goal [OF ok that] by simp
  ultimately show ?thesis using quiet.goal_reachable [OF ok] by blast
qed

text \<open>A synchronous appender given the same events one after the other.\<close>

fun sync_log :: "appender \<Rightarrow> item list \<Rightarrow> string \<Rightarrow> fault + string" where
  "sync_log a [] out = Inr out"
| "sync_log a (x # xs) out =
     (case StdoutAppender_Log (fst x) (snd x) a out of Inl e \<Rightarrow> Inl e | Inr o' \<Rightarrow> sync_log a xs o')"

lemma sync_log_text:
  "app_formatter a \<noteq> None \<Longrightarrow> no_other xs \<Longrightarrow> sync_log a xs out = Inr (out @ log_text a xs)"
proof (induction xs arbitrary: out)
  case (Cons x xs)
  then obtain y where "app_text a (fst x) (snd x) = Inr y"
    using app_text_fine [of a "snd x" "fst x"] by auto
  with Cons show ?case
    by (simp add: StdoutAppender_Log_text log_text_def item_text_def)
qed (simp add: log_text_def)

fun no_reopen :: "fa_label \<Rightarrow> bool" where
  "no_reopen (FReopen ok) \<longleftrightarrow> False"
| "no_reopen _ \<longleftrightarrow> True"

definition opened_once :: "file_appender \<Rightarrow> bool" where
  "opened_once s \<longleftrightarrow> (phase s = Opening \<longrightarrow> at_open s = []) \<and> at_open s \<in> {[], start_line}"

lemma opened_once_step:
  assumes "opened_once s" "run_ok s" "no_reopen l" and step: "fa_step l s = Some t"
  shows "opened_once t"
  using step
proof (cases rule: fa_step_cases)
  case (opens ok)
  then have "consumed s = []" using assms(2) by (auto simp: run_ok_def fa_wf_def disk_ok_def queue_ok_def)
  then have "the_writer s \<noteq> WDone" "processed s = []"
    using assms(2) by (auto simp: run_ok_def closing_ok_def fa_wf_def sent_ok_def)
  then have "sent s \<in> {[], start_line}"
    using assms(2) by (auto simp: run_ok_def fa_wf_def sent_ok_def)
  then show ?thesis using opens by (simp add: opened_once_def fa_frame)
next
  case (takes w x xs)
  then show ?thesis using assms(1) notify_call_frame [OF takes(4)] by (simp add: opened_once_def fa_frame)
next
  case (writes x)
  have "at_open t = at_open s \<and> phase t = phase s"
    by (auto simp: writes Consume_write_def fa_frame split: sum.splits)
  then show ?thesis using assms(1) by (simp add: opened_once_def)
qed (use assms in \<open>auto simp: opened_once_def fa_frame\<close>)

lemma opened_once_exec:
  "run_ok s \<Longrightarrow> opened_once s \<Longrightarrow> \<forall>l \<in> set ls. fine_label l \<and> no_reopen l \<Longrightarrow>
   exec fa_step ls s = Some t \<Longrightarrow> opened_once t"
proof (induction ls arbitrary: s)
  case (Cons l ls)
  from Cons.prems(4) obtain u where "fa_step l s = Some u" "exec fa_step ls u = Some t"
    by (rule exec_ConsE)
  with Cons run_ok_step [of s l u] opened_once_step [of s l u] show ?case by auto
qed simp

text \<open>When all calls have returned, what was pushed is what was logged, and the mark of the end.\<close>

lemma logged_client_events:
  assumes "\<forall>l \<in> set ls. fine_label l"
  shows "filter_mset (\<lambda>x. fst x \<noteq> OTHER) (mset (concat (map logged ls))) = mset [x. FLog x \<leftarrow> ls]"
  using assms
proof (induction ls)
  case (Cons l ls)
  then show ?case by (cases l) auto
qed simp

lemma all_logged:
  assumes "FileAppender_init level name n = Inr s0"
    and "exec fa_step ls (s0\<lparr>app_formatter := Some f\<rparr>) = Some s"
    and "\<forall>l \<in> set ls. fine_label l" and "all_returned s"
    and "pushed s = xs @ [(OTHER, None)]" and "no_other xs"
  shows "mset xs = mset [x. FLog x \<leftarrow> ls]"
proof -
  have "\<forall>c \<in> set (log_calls s). call_item c = []"
    using assms(4) call_item.simps(3) unfolding all_returned_def by metis
  then have "pending s = []" by (simp add: pending_def)
  moreover have "mset (pushed s) + mset (pending s) = mset (concat (map logged ls))"
    using logged_exec [OF assms(2)] assms(1)
    by (auto simp: FileAppender_init_def pending_def split: if_splits)
  ultimately have eq: "mset xs + {#(OTHER, None)#} = mset (concat (map logged ls))"
    using assms(5) by simp
  from logged_client_events [OF assms(3)]
  have "filter_mset (\<lambda>x. fst x \<noteq> OTHER) (mset xs + {#(OTHER, None)#}) = mset [x. FLog x \<leftarrow> ls]"
    by (simp only: eq)
  then have "filter_mset (\<lambda>x. fst x \<noteq> OTHER) (mset xs) = mset [x. FLog x \<leftarrow> ls]" by simp
  moreover have "filter_mset (\<lambda>x. fst x \<noteq> OTHER) (mset xs) = mset xs"
    using assms(6) by (simp add: filter_mset_eq_conv no_other_def)
  ultimately show ?thesis by simp
qed

text \<open>The queue and the file of an appender that has been destroyed.\<close>

lemma gone_wrote:
  assumes "FileAppender_init level name n = Inr s0"
    and "exec fa_step ls (s0\<lparr>app_formatter := Some f\<rparr>) = Some s"
    and "\<forall>l \<in> set ls. fine_label l \<and> no_reopen l"
    and "phase s = Gone" and "good (stream s)"
  obtains xs body where "pushed s = xs @ [(OTHER, None)]" "no_other xs" "all_returned s"
    "sync_log \<lparr>app_level = level, app_formatter = Some f\<rparr> xs [] = Inr body"
    "disk (stream s) = start_line @ body @ end_line \<or> disk (stream s) = body @ end_line"
proof -
  let ?s = "s0\<lparr>app_formatter := Some f\<rparr>"
  have fine: "\<forall>l \<in> set ls. fine_label l" using assms(3) by blast
  have ok: "run_ok s" by (rule run_ok_exec [OF init_run_ok [OF assms(1)] fine assms(2)])
  have "opened_once ?s"
    using assms(1) by (auto simp: FileAppender_init_def opened_once_def split: if_splits)
  from opened_once_exec [OF init_run_ok [OF assms(1)] this assms(3,2)]
  have once: "at_open s \<in> {[], start_line}" by (simp add: opened_once_def)
  have base: "base s = \<lparr>app_level = level, app_formatter = Some f\<rparr>"
    using exec_same [OF fa_init_wf [OF assms(1)] assms(2)] assms(1)
    by (auto simp: FileAppender_init_def base_def split: if_splits)
  obtain xs where xs: "pushed s = xs @ [(OTHER, None)]" "no_other xs" and all: "all_returned s"
    and out: "the_writer s = WDone"
    using ok assms(4) by (auto simp: run_ok_def closing_ok_def last_call_def all_returned_def)
  have "log_queue s = []" using ok out ended_empty by (simp add: run_ok_def fa_wf_def)
  then have "processed s = xs @ [(OTHER, None)]"
    using ok out xs by (simp add: run_ok_def fa_wf_def queue_ok_def sent_ok_def)
  then have "sent s = start_line @ log_text (base s) xs @ end_line"
    using ok out by (simp add: run_ok_def fa_wf_def sent_ok_def item_text_OTHER)
  then have "at_open s @ disk (stream s) = start_line @ log_text (base s) xs @ end_line"
    using ok assms(5) by (simp add: run_ok_def fa_wf_def disk_ok_def)
  with once have "disk (stream s) = start_line @ log_text (base s) xs @ end_line \<or>
      disk (stream s) = log_text (base s) xs @ end_line"
    by auto
  moreover have "sync_log (base s) xs [] = Inr (log_text (base s) xs)"
    using xs(2) base by (simp add: sync_log_text)
  ultimately show thesis using that [OF xs all] base by simp
qed

text \<open>
  C5: Asynchronous logging refines synchronous logging. When the appender has been destroyed after
  a run in which the file was opened once and the stream did not fail, the file holds, between
  the marks, exactly what an appender that writes at once would have written for the events of
  all completed calls, in one order of them: nothing is lost, doubled or torn. Only the first mark
  may be missing, when the writer thread wrote it before the constructor had opened the file.
\<close>

theorem destroyed_appender_wrote_all:
  assumes "FileAppender_init level name n = Inr s0"
    and "exec fa_step ls (s0\<lparr>app_formatter := Some f\<rparr>) = Some s"
    and "\<forall>l \<in> set ls. fine_label l \<and> no_reopen l"
    and "phase s = Gone" and "good (stream s)"
  shows "\<exists>xs body. mset xs = mset [x. FLog x \<leftarrow> ls] \<and>
    sync_log \<lparr>app_level = level, app_formatter = Some f\<rparr> xs [] = Inr body \<and>
    (disk (stream s) = start_line @ body @ end_line \<or> disk (stream s) = body @ end_line)"
proof (rule gone_wrote [OF assms])
  fix xs body
  assume xs: "pushed s = xs @ [(OTHER, None)]" "no_other xs" "all_returned s"
    and out: "sync_log \<lparr>app_level = level, app_formatter = Some f\<rparr> xs [] = Inr body"
      "disk (stream s) = start_line @ body @ end_line \<or> disk (stream s) = body @ end_line"
  have "\<forall>l \<in> set ls. fine_label l" using assms(3) by blast
  from all_logged [OF assms(1,2) this xs(3,1,2)] out show ?thesis by blast
qed

definition writer_gone_full :: "file_appender \<Rightarrow> bool" where
  "writer_gone_full s \<longleftrightarrow> the_writer s = WDone \<and> max_queue_size s \<le> length (log_queue s)"

lemma gone_full_step:
  assumes "writer_gone_full s" and "\<not> all_returned s" and step: "fa_step l s = Some t"
  shows "writer_gone_full t \<and> \<not> all_returned t \<and> sent t = sent s"
  using step
proof (cases rule: fa_step_cases)
  case (blocks i x)
  then have "CWaiting x \<in> set (log_calls t)" by (simp add: set_update_memI)
  then show ?thesis using assms(1) blocks by (force simp: writer_gone_full_def all_returned_def)
next
  case (wakes i x)
  then have "CTest x \<in> set (log_calls t)" by (simp add: set_update_memI)
  then show ?thesis using assms(1) wakes by (force simp: writer_gone_full_def all_returned_def)
qed (use assms in \<open>auto simp: writer_gone_full_def all_returned_def fa_frame\<close>)


end
