(* ===== verification/Logger.thy ===== *)
theory Logger
  imports FileAppenderProps
begin

text \<open>
  \<open>Logger\<close> and the \<open>LOG_\<close> macros (\<open>logger.h\<close>, \<open>logger.cpp\<close>). Appenders are shared: they live on a
  heap and a logger holds their addresses. This is the view of the one thread that logs: a call of
  \<open>FileAppender::Log\<close> that finds the queue full waits for the writer, so it does not return here
  (\<open>None\<close>); the writer's side is in \<open>FileAppender\<close>.
\<close>

section \<open>State\<close>

datatype appender_object = StdoutApp appender | FileApp file_appender

record log_world =
  apps :: "nat \<rightharpoonup> appender_object"
  log_out :: string

record logger =
  lg_name :: string
  lg_level :: log_level
  lg_appenders :: "nat list"
  lg_formatter :: "formatter option"

definition default_pattern :: string where "default_pattern = ''%d [%p] %f %l %m %n''"

definition Logger_init :: "string \<Rightarrow> logger" where
  "Logger_init name = \<lparr>lg_name = name, lg_level = INFO, lg_appenders = [],
     lg_formatter = Some (Formatter_init default_pattern)\<rparr>"

text \<open>The function-local static: created by the first call.\<close>

definition Logger_GetInstance :: "logger option \<Rightarrow> logger \<times> logger option" where
  "Logger_GetInstance inst =
     (case inst of
        Some lg \<Rightarrow> (lg, inst)
      | None \<Rightarrow> (Logger_init ''default_name'', Some (Logger_init ''default_name'')))"

section \<open>Operations\<close>

definition object_formatter :: "appender_object \<Rightarrow> formatter option" where
  "object_formatter ob =
     (case ob of StdoutApp a \<Rightarrow> Appender_GetFormatter a | FileApp a \<Rightarrow> Appender_GetFormatter a)"

definition set_object_formatter :: "formatter option \<Rightarrow> appender_object \<Rightarrow> appender_object" where
  "set_object_formatter f ob =
     (case ob of
        StdoutApp a \<Rightarrow> StdoutApp (Appender_SetFormatter f a)
      | FileApp a \<Rightarrow> FileApp (Appender_SetFormatter f a))"

definition Logger_AddAppender :: "nat \<Rightarrow> (logger \<times> log_world, unit) cpp" where
  "Logger_AddAppender p = (\<lambda>(lg, w). case apps w p of
      None \<Rightarrow> Some (Inl (Undefined NullDeref), (lg, w))
    | Some ob \<Rightarrow> Some (Inr (),
        (lg\<lparr>lg_appenders := lg_appenders lg @ [p]\<rparr>,
         if object_formatter ob = None
         then w\<lparr>apps := (apps w)(p \<mapsto> set_object_formatter (lg_formatter lg) ob)\<rparr> else w)))"

text \<open>The loop erases the first match and stops.\<close>

fun erase_first :: "nat \<Rightarrow> nat list \<Rightarrow> nat list" where
  "erase_first p [] = []"
| "erase_first p (q # qs) = (if q = p then qs else q # erase_first p qs)"

definition Logger_DelAppender :: "nat \<Rightarrow> logger \<Rightarrow> logger" where
  "Logger_DelAppender p lg = lg\<lparr>lg_appenders := erase_first p (lg_appenders lg)\<rparr>"

definition Logger_GetLevel :: "logger \<Rightarrow> log_level" where "Logger_GetLevel lg = lg_level lg"

definition Logger_SetLevel :: "log_level \<Rightarrow> logger \<Rightarrow> logger" where
  "Logger_SetLevel level lg = lg\<lparr>lg_level := level\<rparr>"

definition Logger_GetName :: "logger \<Rightarrow> string" where "Logger_GetName lg = lg_name lg"

definition Logger_SetName :: "string \<Rightarrow> logger \<Rightarrow> logger" where
  "Logger_SetName name lg = lg\<lparr>lg_name := name\<rparr>"

text \<open>\<open>FileAppender::Log\<close> of a caller that does not have to wait.\<close>

definition FileAppender_Log ::
  "log_level \<Rightarrow> log_event option \<Rightarrow> file_appender \<Rightarrow> file_appender option" where
  "FileAppender_Log level ev s =
     (if length (log_queue s) \<ge> max_queue_size s then None
      else Some (Log_test (length (log_calls s)) (level, ev)
        (s\<lparr>log_calls := log_calls s @ [CTest (level, ev)]\<rparr>)))"

text \<open>The virtual \<open>Log\<close>.\<close>

definition Appender_Log :: "log_level \<Rightarrow> log_event option \<Rightarrow> nat \<Rightarrow> (log_world, unit) cpp" where
  "Appender_Log level ev p = (\<lambda>w. case apps w p of
      None \<Rightarrow> Some (Inl (Undefined NullDeref), w)
    | Some (StdoutApp a) \<Rightarrow>
        (case StdoutAppender_Log level ev a (log_out w) of
           Inl e \<Rightarrow> Some (Inl e, w)
         | Inr out \<Rightarrow> Some (Inr (), w\<lparr>log_out := out\<rparr>))
    | Some (FileApp a) \<Rightarrow>
        (case FileAppender_Log level ev a of
           None \<Rightarrow> None
         | Some a' \<Rightarrow> Some (Inr (), w\<lparr>apps := (apps w)(p \<mapsto> FileApp a')\<rparr>)))"

fun Log_all :: "nat list \<Rightarrow> log_level \<Rightarrow> log_event option \<Rightarrow> (log_world, unit) cpp" where
  "Log_all [] level ev = ret ()"
| "Log_all (p # ps) level ev = seqC (Appender_Log level ev p) (Log_all ps level ev)"

definition Logger_Log ::
  "log_level \<Rightarrow> log_event option \<Rightarrow> logger \<Rightarrow> (log_world, unit) cpp" where
  "Logger_Log level ev lg =
     (if level \<ge> lg_level lg then Log_all (lg_appenders lg) level ev else ret ())"

definition Logger_info :: "log_event option \<Rightarrow> logger \<Rightarrow> (log_world, unit) cpp" where
  "Logger_info ev lg = Logger_Log INFO ev lg"
definition Logger_debug :: "log_event option \<Rightarrow> logger \<Rightarrow> (log_world, unit) cpp" where
  "Logger_debug ev lg = Logger_Log DEBUG ev lg"
definition Logger_warn :: "log_event option \<Rightarrow> logger \<Rightarrow> (log_world, unit) cpp" where
  "Logger_warn ev lg = Logger_Log WARN ev lg"
definition Logger_error :: "log_event option \<Rightarrow> logger \<Rightarrow> (log_world, unit) cpp" where
  "Logger_error ev lg = Logger_Log ERROR ev lg"
definition Logger_fatal :: "log_event option \<Rightarrow> logger \<Rightarrow> (log_world, unit) cpp" where
  "Logger_fatal ev lg = Logger_Log FATAL ev lg"

text \<open>
  \<open>getTimeStamp\<close>: the nanoseconds of the clock since 1970, cut to milliseconds towards zero, as an
  unsigned number of 64 bits.
\<close>

definition getTimeStamp :: "int \<Rightarrow> 64 word" where
  "getTimeStamp now = word_of_int (if now \<ge> 0 then now div 1000000 else - (- now div 1000000))"

text \<open>The macros: \<open>__FILE__\<close>, \<open>__LINE__\<close> and the clock are arguments.\<close>

definition macro_event :: "string \<Rightarrow> 32 word \<Rightarrow> int \<Rightarrow> string \<Rightarrow> log_event option" where
  "macro_event fn line now msg =
     Some (LogEvent_init (Some (fn @ [NUL])) line 0 0 (getTimeStamp now) msg)"

definition LOG_INFO :: "string \<Rightarrow> 32 word \<Rightarrow> int \<Rightarrow> string \<Rightarrow> logger \<Rightarrow> (log_world, unit) cpp" where
  "LOG_INFO fn line now msg lg = Logger_Log INFO (macro_event fn line now msg) lg"
definition LOG_DEBUG :: "string \<Rightarrow> 32 word \<Rightarrow> int \<Rightarrow> string \<Rightarrow> logger \<Rightarrow> (log_world, unit) cpp" where
  "LOG_DEBUG fn line now msg lg = Logger_Log DEBUG (macro_event fn line now msg) lg"
definition LOG_WARN :: "string \<Rightarrow> 32 word \<Rightarrow> int \<Rightarrow> string \<Rightarrow> logger \<Rightarrow> (log_world, unit) cpp" where
  "LOG_WARN fn line now msg lg = Logger_Log WARN (macro_event fn line now msg) lg"
definition LOG_ERROR :: "string \<Rightarrow> 32 word \<Rightarrow> int \<Rightarrow> string \<Rightarrow> logger \<Rightarrow> (log_world, unit) cpp" where
  "LOG_ERROR fn line now msg lg = Logger_Log ERROR (macro_event fn line now msg) lg"
definition LOG_FATAL :: "string \<Rightarrow> 32 word \<Rightarrow> int \<Rightarrow> string \<Rightarrow> logger \<Rightarrow> (log_world, unit) cpp" where
  "LOG_FATAL fn line now msg lg = Logger_Log FATAL (macro_event fn line now msg) lg"

section \<open>The caller's view is a run of the machine\<close>

lemma FileAppender_Log_runs:
  assumes "FileAppender_Log level ev s = Some t" and "phase s = InUse" and "\<not> crashed s"
  shows "exec fa_step [FLog (level, ev), FTest (length (log_calls s))] s = Some t"
  using assms by (auto simp: FileAppender_Log_def fa_step_def crashed_def split: if_splits)

lemma FileAppender_Log_pushed:
  assumes "FileAppender_Log level ev s = Some t"
  shows "pushed t = pushed s @ [(level, ev)] \<and> log_queue t = log_queue s @ [(level, ev)] \<and>
    base t = base s \<and> stream t = stream s"
  using assms
  by (auto simp: FileAppender_Log_def Log_test_def log_push_def base_def notify_writer_def
      split: if_splits)

section \<open>Dispatch\<close>

definition stdout_texts :: "log_world \<Rightarrow> log_level \<Rightarrow> log_event option \<Rightarrow> nat list \<Rightarrow> string" where
  "stdout_texts w level ev ps = concat (map (\<lambda>p. case apps w p of
      Some (StdoutApp a) \<Rightarrow> (case app_text a level ev of Inr s \<Rightarrow> s | Inl e \<Rightarrow> [])
    | _ \<Rightarrow> []) ps)"

text \<open>What one dispatch leaves at each address.\<close>

definition took_in :: "item list \<Rightarrow> appender_object option \<Rightarrow> appender_object option \<Rightarrow> bool" where
  "took_in xs a b \<longleftrightarrow>
     (case a of
        Some (FileApp f) \<Rightarrow> (\<exists>g. b = Some (FileApp g) \<and> pushed g = pushed f @ xs \<and> base g = base f)
      | _ \<Rightarrow> b = a)"

lemma took_in_refl [simp]: "took_in [] a a"
  by (simp add: took_in_def split: option.split appender_object.split)

lemma took_in_trans: "took_in xs a b \<Longrightarrow> took_in ys b c \<Longrightarrow> took_in (xs @ ys) a c"
  by (auto simp: took_in_def split: option.splits appender_object.splits)

lemma Appender_Log_effect:
  assumes "Appender_Log level ev p w = Some (Inr (), v)"
  shows "log_out v = log_out w @ stdout_texts w level ev [p] \<and>
    (\<forall>q. took_in (if q = p then [(level, ev)] else []) (apps w q) (apps v q))"
proof (cases "apps w p")
  case None
  with assms show ?thesis by (simp add: Appender_Log_def)
next
  case (Some ob)
  show ?thesis
  proof (cases ob)
    case (StdoutApp a)
    with Some assms show ?thesis
      by (auto simp: Appender_Log_def StdoutAppender_Log_text stdout_texts_def took_in_def
          split: sum.splits option.splits appender_object.splits)
  next
    case (FileApp a)
    with Some assms obtain b where b: "FileAppender_Log level ev a = Some b"
      and v: "v = w\<lparr>apps := (apps w)(p \<mapsto> FileApp b)\<rparr>"
      by (auto simp: Appender_Log_def split: option.splits)
    have "took_in [(level, ev)] (apps w p) (apps v p)"
      using FileAppender_Log_pushed [OF b] Some FileApp by (simp add: v took_in_def)
    moreover have "stdout_texts w level ev [p] = []" by (simp add: stdout_texts_def Some FileApp)
    ultimately show ?thesis by (simp add: v)
  qed
qed

lemma stdout_texts_took_in:
  assumes "\<forall>q. \<exists>xs. took_in xs (apps w q) (apps v q)"
  shows "stdout_texts v level ev ps = stdout_texts w level ev ps"
proof -
  have "(case apps v p of Some (StdoutApp a) \<Rightarrow> (case app_text a level ev of Inr s \<Rightarrow> s | Inl e \<Rightarrow> []) | _ \<Rightarrow> [])
    = (case apps w p of Some (StdoutApp a) \<Rightarrow> (case app_text a level ev of Inr s \<Rightarrow> s | Inl e \<Rightarrow> []) | _ \<Rightarrow> [])"
    for p
  proof -
    obtain xs where r: "took_in xs (apps w p) (apps v p)" using assms by blast
    show ?thesis
    proof (cases "apps w p")
      case (Some ob)
      then show ?thesis using r by (cases ob) (auto simp: took_in_def)
    qed (use r in \<open>simp add: took_in_def\<close>)
  qed
  then show ?thesis by (simp add: stdout_texts_def)
qed

lemma Log_all_effect:
  assumes "Log_all ps level ev w = Some (Inr (), v)"
  shows "log_out v = log_out w @ stdout_texts w level ev ps \<and>
    (\<forall>q. took_in (replicate (count_list ps q) (level, ev)) (apps w q) (apps v q))"
  using assms
proof (induction ps arbitrary: w)
  case Nil
  then show ?case by (simp add: stdout_texts_def)
next
  case (Cons p ps)
  then obtain u where u: "Appender_Log level ev p w = Some (Inr (), u)"
    and rest: "Log_all ps level ev u = Some (Inr (), v)"
    by (auto simp: seqC_returns)
  note one = Appender_Log_effect [OF u] and more = Cons.IH [OF rest]
  have same: "stdout_texts u level ev ps = stdout_texts w level ev ps"
    by (rule stdout_texts_took_in) (use one in blast)
  have "took_in (replicate (count_list (p # ps) q) (level, ev)) (apps w q) (apps v q)" for q
    using took_in_trans [OF one [THEN conjunct2, rule_format, of q]
        more [THEN conjunct2, rule_format, of q]]
    by (cases "q = p") auto
  with one more same show ?case by (simp add: stdout_texts_def)
qed

text \<open>
  C31: \<open>Logger::Log\<close> drops an event below the logger's level and otherwise hands it to every
  appender, as many times as the appender is in the list: each file appender's queue has the event
  appended, each standard output appender writes its text in the order of the list, and nothing
  else changes.
\<close>

theorem Logger_Log_dispatches:
  assumes "Logger_Log level ev lg w = Some (Inr (), v)"
  shows "(level < lg_level lg \<and> v = w) \<or>
    (lg_level lg \<le> level \<and>
     log_out v = log_out w @ stdout_texts w level ev (lg_appenders lg) \<and>
     (\<forall>q. took_in (replicate (count_list (lg_appenders lg) q) (level, ev)) (apps w q) (apps v q)))"
proof (cases "lg_level lg \<le> level")
  case True
  with assms have "Log_all (lg_appenders lg) level ev w = Some (Inr (), v)"
    by (simp add: Logger_Log_def)
  from Log_all_effect [OF this] True show ?thesis by blast
next
  case False
  with assms show ?thesis by (auto simp: Logger_Log_def)
qed

section \<open>A logger whose appenders can write\<close>

text \<open>Every appender of the list exists and has a formatter, and the logger has one to give.\<close>

definition ready_at :: "log_world \<Rightarrow> nat \<Rightarrow> bool" where
  "ready_at w p \<longleftrightarrow> (\<exists>ob. apps w p = Some ob \<and> object_formatter ob \<noteq> None)"

definition logger_ok :: "logger \<Rightarrow> log_world \<Rightarrow> bool" where
  "logger_ok lg w \<longleftrightarrow> lg_formatter lg \<noteq> None \<and> (\<forall>p \<in> set (lg_appenders lg). ready_at w p)"

lemma erase_first_subset: "set (erase_first p ps) \<subseteq> set ps"
  by (induction ps) auto

lemma object_formatter_set: "object_formatter (set_object_formatter f ob) = f"
  by (cases ob)
    (simp_all add: object_formatter_def set_object_formatter_def Appender_GetFormatter_def
      Appender_SetFormatter_def)

lemma took_in_ready: "took_in xs (apps w p) (apps v p) \<Longrightarrow> ready_at w p \<Longrightarrow> ready_at v p"
  by (auto simp: took_in_def ready_at_def object_formatter_def Appender_GetFormatter_def base_def
      split: appender_object.splits)

lemma Appender_Log_ready:
  assumes "event_fine ev" and "ready_at w p" and "Appender_Log level ev p w = Some (r, v)"
  shows "r = Inr ()"
proof -
  from assms(2) obtain ob where ob: "apps w p = Some ob" "object_formatter ob \<noteq> None"
    by (auto simp: ready_at_def)
  show ?thesis
  proof (cases ob)
    case (StdoutApp a)
    with ob have "app_formatter a \<noteq> None" by (simp add: object_formatter_def Appender_GetFormatter_def)
    then obtain x where "app_text a level ev = Inr x" using app_text_fine assms(1) by blast
    with assms(3) ob StdoutApp show ?thesis
      by (simp add: Appender_Log_def StdoutAppender_Log_text)
  next
    case (FileApp a)
    with assms(3) ob show ?thesis by (simp add: Appender_Log_def split: option.splits)
  qed
qed

lemma Log_all_ready:
  assumes "event_fine ev" and "\<forall>p \<in> set ps. ready_at w p" and "Log_all ps level ev w = Some (r, v)"
  shows "r = Inr ()"
  using assms(2,3)
proof (induction ps arbitrary: w)
  case (Cons p ps)
  from Cons.prems(2) have "seqC (Appender_Log level ev p) (Log_all ps level ev) w = Some (r, v)" by simp
  then show ?case
  proof (cases rule: seqC_Some_cases)
    case (1 e)
    with Appender_Log_ready [OF assms(1)] Cons.prems(1) show ?thesis by fastforce
  next
    case (2 u)
    then have "\<forall>q \<in> set ps. ready_at u q"
      using Appender_Log_effect [OF 2(1)] took_in_ready Cons.prems(1) by fastforce
    with Cons.IH 2(2) show ?thesis by blast
  qed
qed simp

text \<open>
  C30: Logging does not fault. A new logger has a formatter; adding an appender that exists gives it
  one, and so a logger to which appenders are added and from which they are removed keeps every
  appender of its list able to format, whatever its level; then a \<open>Log\<close> of an event that is there,
  with its file name, never dereferences a null formatter and leaves the logger as able as before.
\<close>

theorem logger_never_faults:
  shows "logger_ok (Logger_init name) w \<and>
    (logger_ok lg w \<longrightarrow>
       (apps w p \<noteq> None \<longrightarrow> (\<exists>lg' w'. Logger_AddAppender p (lg, w) = Some (Inr (), (lg', w')) \<and>
          logger_ok lg' w')) \<and>
       logger_ok (Logger_DelAppender p lg) w \<and> logger_ok (Logger_SetLevel level lg) w \<and>
       logger_ok (Logger_SetName name lg) w \<and>
       (\<forall>r v. event_fine ev \<and> Logger_Log level ev lg w = Some (r, v) \<longrightarrow>
          r = Inr () \<and> logger_ok lg v))"
proof (intro conjI impI)
  show "logger_ok (Logger_init name) w" by (simp add: logger_ok_def Logger_init_def)
next
  assume ok: "logger_ok lg w" and "apps w p \<noteq> None"
  then obtain ob where ob: "apps w p = Some ob" by blast
  show "\<exists>lg' w'. Logger_AddAppender p (lg, w) = Some (Inr (), (lg', w')) \<and> logger_ok lg' w'"
    using ok ob
    by (auto simp: Logger_AddAppender_def logger_ok_def ready_at_def object_formatter_set)
next
  assume ok: "logger_ok lg w"
  show "logger_ok (Logger_DelAppender p lg) w"
    using ok erase_first_subset by (auto simp: logger_ok_def Logger_DelAppender_def)
  show "logger_ok (Logger_SetLevel level lg) w" "logger_ok (Logger_SetName name lg) w"
    using ok by (simp_all add: logger_ok_def Logger_SetLevel_def Logger_SetName_def)
  show "\<forall>r v. event_fine ev \<and> Logger_Log level ev lg w = Some (r, v) \<longrightarrow> r = Inr () \<and> logger_ok lg v"
  proof (intro allI impI)
    fix r v
    assume run: "event_fine ev \<and> Logger_Log level ev lg w = Some (r, v)"
    show "r = Inr () \<and> logger_ok lg v"
    proof (cases "lg_level lg \<le> level")
      case True
      with run have all: "Log_all (lg_appenders lg) level ev w = Some (r, v)"
        by (simp add: Logger_Log_def)
      with Log_all_ready run ok have "r = Inr ()" by (auto simp: logger_ok_def)
      with all Log_all_effect ok took_in_ready show ?thesis
        unfolding logger_ok_def by blast
    next
      case False
      with run ok show ?thesis by (simp add: Logger_Log_def)
    qed
  qed
qed

section \<open>A line of the log\<close>

lemma default_items:
  "format_items (Formatter_init default_pattern) =
     [TimeFormatItem, StringFormatItem '' ['', LevelFormatItem, StringFormatItem ''] '',
      FileNameFormatItem, StringFormatItem '' '', LineNumFormatItem, StringFormatItem '' '',
      MessageFormatItem, StringFormatItem '' '', NewLineFormatItem]"
  by (simp add: Formatter_init_tokens default_pattern_def conversion_def format_item_maps_def flush_def)

text \<open>The line of the default pattern, in the words of its parts.\<close>

definition log_line :: "log_level \<Rightarrow> string \<Rightarrow> 32 word \<Rightarrow> int \<Rightarrow> string \<Rightarrow> string" where
  "log_line level fn line now msg =
     show_nat (unat (getTimeStamp now)) @ '' ['' @ LogLevel_ToString level @ ''] '' @ fn @ '' '' @
     show_int (sint line) @ '' '' @ msg @ '' '' @ [LF]"

lemma format_default:
  "nul_free fn \<Longrightarrow>
   Formatter_format (Formatter_init default_pattern) level (macro_event fn line now msg) =
     Inr (log_line level fn line now msg)"
  by (simp add: Formatter_format_def default_items macro_event_def LogEvent_init_def deref_event_def
      log_line_def)

text \<open>
  A program that takes the default logger, sets its level and adds a standard output appender
  gets from each macro, for an event at or above both levels, exactly one line: the time in
  milliseconds, the level, the file, the line and the message, in the default pattern; below the
  logger's level it gets nothing.
\<close>

theorem macro_logs_line:
  assumes "apps w p = Some (StdoutApp \<lparr>app_level = garbage, app_formatter = None\<rparr>)"
    and "nul_free fn" and "(level, mac) \<in> {(INFO, LOG_INFO), (DEBUG, LOG_DEBUG), (WARN, LOG_WARN),
      (ERROR, LOG_ERROR), (FATAL, LOG_FATAL)}"
    and "garbage \<le> log_level_code level"
    and "Logger_AddAppender p (Logger_SetLevel least (fst (Logger_GetInstance None)), w) =
      Some (Inr (), (lg, v))"
  shows "mac fn line now msg lg v = Some (Inr (),
    v\<lparr>log_out := log_out w @ (if least \<le> level then log_line level fn line now msg else [])\<rparr>)"
proof -
  have lg: "lg_level lg = least" "lg_appenders lg = [p]" and out: "log_out v = log_out w"
    and v: "apps v p = Some (StdoutApp \<lparr>app_level = garbage,
      app_formatter = Some (Formatter_init default_pattern)\<rparr>)"
    using assms(1,5)
    by (auto simp: Logger_AddAppender_def Logger_SetLevel_def Logger_GetInstance_def Logger_init_def
        object_formatter_def Appender_GetFormatter_def set_object_formatter_def
        Appender_SetFormatter_def)
  have "mac fn line now msg lg v = Logger_Log level (macro_event fn line now msg) lg v"
    using assms(3)
    by (auto simp: LOG_INFO_def LOG_DEBUG_def LOG_WARN_def LOG_ERROR_def LOG_FATAL_def)
  also have "\<dots> = Some (Inr (),
      v\<lparr>log_out := log_out w @ (if least \<le> level then log_line level fn line now msg else [])\<rparr>)"
  proof (cases "least \<le> level")
    case True
    have "Appender_Log level (macro_event fn line now msg) p v =
        Some (Inr (), v\<lparr>log_out := log_out w @ log_line level fn line now msg\<rparr>)"
      using v out assms(2,4)
      by (simp add: Appender_Log_def StdoutAppender_Log_def app_enabled_def app_format_def format_default)
    with True lg show ?thesis by (simp add: Logger_Log_def)
  next
    case False
    with lg out show ?thesis by (simp add: Logger_Log_def)
  qed
  finally show ?thesis .
qed

section \<open>Reopening\<close>

lemma open_is_good_step:
  assumes "is_open (stream s) \<longrightarrow> good (stream s)" and "fa_step l s = Some t" and "disk_ok s"
  shows "is_open (stream t) \<longrightarrow> good (stream t)"
  using assms(2)
proof (cases rule: fa_step_cases)
  case (opens ok)
  then have "\<not> is_open (stream s)" using assms(3) by (simp add: disk_ok_def)
  then show ?thesis by (simp add: opens fa_frame fs_open_def)
next
  case (takes w x xs)
  then show ?thesis using assms(1) notify_call_frame [OF takes(4)] by (simp add: fa_frame)
next
  case (writes x)
  have "stream t = stream s \<or> (\<exists>y. stream t = fs_put y (stream s))"
    by (auto simp: writes Consume_write_def fa_frame split: sum.splits)
  moreover have "is_open (fs_put y f) \<longrightarrow> good (fs_put y f)" if "is_open f \<longrightarrow> good f" for y f
    using that by (cases "is_open f"; cases "good f") (simp_all add: fs_put_def)
  ultimately show ?thesis using assms(1) by metis
next
  case (reopens ok)
  then show ?thesis
    using assms(1)
    by (auto simp: FileAppender_Reopen_def Let_def open_file_def fs_open_def fs_close_def split: if_splits)
qed (use assms(1) in \<open>auto simp: fa_frame fs_open_def fs_put_def fs_close_def split: if_splits\<close>)

text \<open>
  \<open>Reopen\<close> of a file that is in use answers what the file system does, but opening for output
  truncates: when it succeeds, nothing that was sent before is in the file any more, and what is
  sent later starts it anew.
\<close>

theorem Reopen_truncates:
  assumes "FileAppender_init level name n = Inr s0"
    and "exec fa_step ls (s0\<lparr>app_formatter := f\<rparr>) = Some s"
  shows "fst (FileAppender_Reopen ok s) = ok \<and>
    (ok \<longrightarrow> disk (stream (snd (FileAppender_Reopen ok s))) = [] \<and>
      at_open (snd (FileAppender_Reopen ok s)) = sent s)"
proof -
  let ?P = "\<lambda>s. fa_wf s \<and> (is_open (stream s) \<longrightarrow> good (stream s))"
  have "?P (s0\<lparr>app_formatter := f\<rparr>)"
    using fa_init_wf [OF assms(1)] assms(1)
    by (auto simp: FileAppender_init_def fs_init_def split: if_splits)
  moreover have "?P t" if "?P s" "fa_step l s = Some t" for l s t
    using that fa_wf_step [of s l t] open_is_good_step [of s l t] by (simp add: fa_wf_def)
  ultimately have "?P s" using exec_invariant [of ?P fa_step, OF _ _ assms(2)] by blast
  then show ?thesis
    by (auto simp: FileAppender_Reopen_def Let_def open_file_def fs_open_def fs_close_def)
qed

end
