(* ===== verification/LoggerPrograms.thy ===== *)
theory LoggerPrograms
  imports Logger
begin

text \<open>
  The two programs of \<open>src/test\<close> that only log, \<open>sync_logger_test.cpp\<close> and
  \<open>async_logger_test.cpp\<close>. In both one thread logs; for a file appender this fixes the order of the
  lines, which several callers leave open. \<open>__FILE__\<close> and the times of the events are arguments.
\<close>

section \<open>A file appender with one caller\<close>

text \<open>The caller's next call starts when the one before it has returned.\<close>

definition solo_step :: "fa_label \<Rightarrow> file_appender \<Rightarrow> file_appender option" where
  "solo_step l s = (case l of
      FLog x \<Rightarrow> if all_returned s then fa_step l s else None
    | _ \<Rightarrow> fa_step l s)"

lemma solo_stepD:
  assumes "solo_step l s = Some t"
  shows "fa_step l s = Some t" and "l = FLog x \<Longrightarrow> all_returned s"
  using assms by (auto simp: solo_step_def split: fa_label.splits if_splits)

lemma solo_exec_fa: "exec solo_step ls s = Some t \<Longrightarrow> exec fa_step ls s = Some t"
  by (rule exec_mono [OF solo_stepD(1)])

lemma all_returned_pending: "all_returned s \<Longrightarrow> pending s = []"
  by (auto simp: all_returned_def pending_def)

lemma mset_short: "mset xs = mset ys \<Longrightarrow> length ys \<le> 1 \<Longrightarrow> xs = ys"
  by (cases ys) (auto dest: mset_eq_length)

lemma last_of_short: "ys @ [x] = zs \<Longrightarrow> length zs \<le> 1 \<Longrightarrow> zs = [x] \<and> ys = []"
  by (cases ys) auto

text \<open>At most one call is in progress, and what has been logged is pushed or in its hands, in order.\<close>

lemma solo_logged:
  assumes solo: "solo_step l s = Some t" and one: "length (pending s) \<le> 1"
  shows "pushed t @ pending t = pushed s @ pending s @ logged l \<and> length (pending t) \<le> 1"
  using solo_stepD(1) [OF solo]
proof (cases rule: fa_step_cases)
  case (called x)
  then have "pending s = []" using solo_stepD(2) [OF solo] all_returned_pending by blast
  with called show ?thesis by (simp add: pending_def)
next
  case (blocks i x)
  then have "mset (pending t) = mset (pending s)" using pending_update [OF blocks(2), of t "CWaiting x"] by simp
  then have "pending t = pending s" by (rule mset_short [OF _ one])
  with blocks one show ?thesis by simp
next
  case (pushes i x)
  then have "mset (pending t) + {#x#} = mset (pending s)"
    using pending_update [OF pushes(2), of t CReturned] by (simp add: fa_frame)
  then have "mset (pending t @ [x]) = mset (pending s)" by simp
  from last_of_short [OF mset_short [OF this one] one] have "pending s = [x]" "pending t = []" by simp_all
  with pushes show ?thesis by (simp add: fa_frame)
next
  case (wakes i x)
  then have "mset (pending t) = mset (pending s)" using pending_update [OF wakes(2), of t "CTest x"] by simp
  then have "pending t = pending s" by (rule mset_short [OF _ one])
  with wakes one show ?thesis by simp
next
  case (takes w x xs)
  from takes(4) show ?thesis
  proof (cases rule: notify_call_cases)
    case 1
    with one show ?thesis by (simp add: takes(1) fa_frame pending_def)
  next
    case (2 i y)
    then have i: "i < length (log_calls s)" "log_calls s ! i = CWaiting y"
      "log_calls t = (log_calls s)[i := CTest y]" by (simp_all add: fa_frame)
    then have "mset (pending t) = mset (pending s)" using pending_update [OF i(1,3)] by simp
    then have "pending t = pending s" by (rule mset_short [OF _ one])
    with 2(4) one show ?thesis by (simp add: takes(1) fa_frame)
  qed
next
  case (writes x)
  have "pushed t = pushed s \<and> log_calls t = log_calls s"
    by (auto simp: writes Consume_write_def fa_frame split: sum.splits)
  with one show ?thesis by (simp add: writes(1) pending_def)
next
  case destroys
  then have "pending s = []" by (simp add: all_returned_pending all_returned_def)
  with destroys show ?thesis by (simp add: pending_def)
qed (use one in \<open>auto simp: fa_frame pending_def\<close>)

lemma solo_exec_logged:
  "exec solo_step ls s = Some t \<Longrightarrow> length (pending s) \<le> 1 \<Longrightarrow>
   pushed t @ pending t = pushed s @ pending s @ concat (map logged ls)"
proof (induction ls arbitrary: s)
  case (Cons l ls)
  from Cons.prems(1) obtain u where u: "solo_step l s = Some u" "exec solo_step ls u = Some t"
    by (rule exec_ConsE)
  note one = solo_logged [OF u(1) Cons.prems(2)]
  from Cons.IH [OF u(2)] one have "pushed t @ pending t = (pushed u @ pending u) @ concat (map logged ls)"
    by simp
  with one show ?case by simp
qed simp

lemma logged_filter:
  "\<forall>l \<in> set ls. fine_label l \<Longrightarrow>
   filter (\<lambda>x. fst x \<noteq> OTHER) (concat (map logged ls)) = [x. FLog x \<leftarrow> ls]"
proof (induction ls)
  case (Cons l ls)
  then show ?case by (cases l) auto
qed simp

text \<open>
  With one caller, the file of a destroyed appender holds, between the marks, exactly what an
  appender that writes at once would have written for the events of the calls in the order in which
  they were made. (With several callers it is some order of them.)
\<close>

lemma solo_wrote:
  assumes "FileAppender_init level name n = Inr s0"
    and "exec solo_step ls (s0\<lparr>app_formatter := Some f\<rparr>) = Some s"
    and "\<forall>l \<in> set ls. fine_label l \<and> no_reopen l"
    and "phase s = Gone" and "good (stream s)"
  obtains body where "sync_log \<lparr>app_level = level, app_formatter = Some f\<rparr> [x. FLog x \<leftarrow> ls] [] = Inr body"
    "disk (stream s) = start_line @ body @ end_line \<or> disk (stream s) = body @ end_line"
proof (rule gone_wrote [OF assms(1) solo_exec_fa [OF assms(2)] assms(3-5)])
  fix xs body
  assume xs: "pushed s = xs @ [(OTHER, None)]" "no_other xs" "all_returned s"
    and out: "sync_log \<lparr>app_level = level, app_formatter = Some f\<rparr> xs [] = Inr body"
      "disk (stream s) = start_line @ body @ end_line \<or> disk (stream s) = body @ end_line"
  have "length (pending (s0\<lparr>app_formatter := Some f\<rparr>)) \<le> 1" "pending (s0\<lparr>app_formatter := Some f\<rparr>) = []"
    "pushed s0 = []"
    using assms(1) by (auto simp: FileAppender_init_def pending_def split: if_splits)
  with solo_exec_logged [OF assms(2)] all_returned_pending [OF xs(3)] xs(1)
  have "xs @ [(OTHER, None)] = concat (map logged ls)" by simp
  moreover have "filter (\<lambda>x. fst x \<noteq> OTHER) (xs @ [(OTHER, None)]) = xs"
    using xs(2) by (simp add: no_other_def)
  ultimately have "xs = [x. FLog x \<leftarrow> ls]" using logged_filter [of ls] assms(3) by simp
  with out show thesis by (intro that) simp_all
qed

section \<open>The program that logs to standard output\<close>

text \<open>
  \<open>main\<close> of \<open>sync_logger_test.cpp\<close>: the state is the static logger with the appenders and the output,
  \<open>p\<close> the address of the new appender, \<open>garbage\<close> its uninitialised level, \<open>fn\<close> the file name of the
  events and \<open>now1\<close>, \<open>now2\<close> their times.
\<close>

definition sync_logger_main ::
  "string \<Rightarrow> int \<Rightarrow> int \<Rightarrow> nat \<Rightarrow> int \<Rightarrow> (logger option \<times> log_world, unit) cpp" where
  "sync_logger_main fn now1 now2 p garbage = (\<lambda>(inst, w).
     let lg = Logger_SetLevel INFO (fst (Logger_GetInstance inst));
         w0 = w\<lparr>apps := (apps w)(p \<mapsto> StdoutApp \<lparr>app_level = garbage, app_formatter = None\<rparr>)\<rparr>
     in case Logger_AddAppender p (lg, w0) of
          None \<Rightarrow> None
        | Some (Inl e, (lg1, w1)) \<Rightarrow> Some (Inl e, (Some lg1, w1))
        | Some (Inr _, (lg1, w1)) \<Rightarrow>
            (case seqC (LOG_INFO fn 10 now1 ''info message'' lg1)
                       (LOG_DEBUG fn 11 now2 ''debug message'' lg1) w1 of
               None \<Rightarrow> None
             | Some (r, w2) \<Rightarrow> Some (r, (Some lg1, w2))))"

text \<open>What a line at \<open>level\<close> leaves in the output of an appender whose own level is \<open>own\<close>.\<close>

definition line_if :: "int \<Rightarrow> log_level \<Rightarrow> string \<Rightarrow> string" where
  "line_if own level line = (if own \<le> log_level_code level then line else [])"

lemma Appender_Log_default:
  assumes "apps w p = Some (StdoutApp \<lparr>app_level = own, app_formatter = Some (Formatter_init default_pattern)\<rparr>)"
    and "nul_free fn"
  shows "Appender_Log level (macro_event fn line now msg) p w =
    Some (Inr (), w\<lparr>log_out := log_out w @ line_if own level (log_line level fn line now msg)\<rparr>)"
  using assms
  by (simp add: Appender_Log_def StdoutAppender_Log_def app_enabled_def app_format_def format_default
      line_if_def)

text \<open>
  C32: The synchronous logger test ends without a fault, and it prints its two messages, in this order,
  each as one line of the default pattern - the debug message too, although the program sets the
  level to \<open>INFO\<close>, because \<open>INFO\<close> is below \<open>DEBUG\<close> in the enumeration. A line is missing only when the
  level the appender's constructor leaves uninitialised happens to be above it.
\<close>

theorem sync_logger_output:
  assumes "nul_free fn"
  shows "\<exists>lg v. sync_logger_main fn now1 now2 p garbage (None, w) = Some (Inr (), (Some lg, v)) \<and>
    log_out v = log_out w @ line_if garbage INFO (log_line INFO fn 10 now1 ''info message'') @
      line_if garbage DEBUG (log_line DEBUG fn 11 now2 ''debug message'')"
proof -
  define lg where "lg = (Logger_init ''default_name'')\<lparr>lg_level := INFO, lg_appenders := [p]\<rparr>"
  define w1 where "w1 = w\<lparr>apps := (apps w)(p \<mapsto>
    StdoutApp \<lparr>app_level = garbage, app_formatter = Some (Formatter_init default_pattern)\<rparr>)\<rparr>"
  have "Logger_AddAppender p (Logger_SetLevel INFO (fst (Logger_GetInstance None)),
      w\<lparr>apps := (apps w)(p \<mapsto> StdoutApp \<lparr>app_level = garbage, app_formatter = None\<rparr>)\<rparr>) =
      Some (Inr (), (lg, w1))"
    by (simp add: Logger_SetLevel_def Logger_GetInstance_def Logger_AddAppender_def Logger_init_def
        object_formatter_def Appender_GetFormatter_def set_object_formatter_def
        Appender_SetFormatter_def lg_def w1_def)
  then have "sync_logger_main fn now1 now2 p garbage (None, w) =
    (case seqC (LOG_INFO fn 10 now1 ''info message'' lg) (LOG_DEBUG fn 11 now2 ''debug message'' lg) w1 of
       None \<Rightarrow> None | Some (r, w2) \<Rightarrow> Some (r, (Some lg, w2)))"
    by (simp add: sync_logger_main_def Let_def)
  moreover have "lg_level lg = INFO" "lg_appenders lg = [p]" by (simp_all add: lg_def)
  ultimately show ?thesis
    using assms
    by (simp add: LOG_INFO_def LOG_DEBUG_def Logger_Log_def less_eq_log_level_def Appender_Log_default
        w1_def seqC_def bindC_def ret_def)
qed

section \<open>The program that logs to a file\<close>

text \<open>
  \<open>main\<close> of \<open>async_logger_test.cpp\<close> as the moves it makes on its appender: it constructs it (\<open>ok\<close> is
  the file system's answer to \<open>open\<close>), the logger passes on the events that reach its level, and the
  end of the process destroys the static logger and with it the appender.
\<close>

definition async_log_file :: string where
  "async_log_file = ''/home/xsxsz/cppserver/log/log.txt''"

definition async_logger :: logger where
  "async_logger = Logger_SetLevel INFO (fst (Logger_GetInstance None))"

definition async_logger_main :: "string \<Rightarrow> int \<Rightarrow> int \<Rightarrow> bool \<Rightarrow> fa_label list" where
  "async_logger_main fn now1 now2 ok =
     FOpen ok # map FLog (filter (\<lambda>x. lg_level async_logger \<le> fst x)
       [(INFO, macro_event fn 13 now1 ''info message''),
        (DEBUG, macro_event fn 14 now2 ''debug message'')]) @ [FDestroy, FClose]"

text \<open>The moves of the thread that uses the appender, as opposed to those inside its calls and of the writer.\<close>

fun main_move :: "fa_label \<Rightarrow> bool" where
  "main_move (FOpen ok) \<longleftrightarrow> True"
| "main_move (FLog x) \<longleftrightarrow> True"
| "main_move (FReopen ok) \<longleftrightarrow> True"
| "main_move FDestroy \<longleftrightarrow> True"
| "main_move FClose \<longleftrightarrow> True"
| "main_move _ \<longleftrightarrow> False"

lemma gone_stays: "fa_step l s = Some t \<Longrightarrow> phase s = Gone \<or> l = FClose \<Longrightarrow> phase t = Gone"
proof -
  assume step: "fa_step l s = Some t" and gone: "phase s = Gone \<or> l = FClose"
  from step show "phase t = Gone"
  proof (cases rule: fa_step_cases)
    case (takes w x xs)
    from takes(4) show ?thesis
      by (cases rule: notify_call_cases) (use gone takes in \<open>auto simp: fa_frame\<close>)
  next
    case (writes x)
    then show ?thesis
      using gone by (auto simp: Consume_write_def fa_frame split: sum.splits)
  qed (use gone in \<open>auto simp: fa_frame\<close>)
qed

lemma closed_is_gone: "exec fa_step ls s = Some t \<Longrightarrow> phase s = Gone \<or> FClose \<in> set ls \<Longrightarrow> phase t = Gone"
proof (induction ls arbitrary: s)
  case (Cons l ls)
  from Cons.prems(1) obtain u where u: "fa_step l s = Some u" "exec fa_step ls u = Some t"
    by (rule exec_ConsE)
  from Cons.IH [OF u(2)] gone_stays [OF u(1)] Cons.prems(2) show ?case by auto
qed simp

lemma FLog_of_main: "[x. FLog x \<leftarrow> filter main_move ls] = [x. FLog x \<leftarrow> ls]"
proof (induction ls)
  case (Cons l ls)
  then show ?case by (cases l) auto
qed simp

lemma set_of_filter: "x \<in> set ls \<Longrightarrow> P x \<Longrightarrow> x \<in> set (filter P ls)"
  by simp

lemma async_labels:
  assumes "nul_free fn" and "filter main_move ls = async_logger_main fn now1 now2 ok"
  shows "\<forall>l \<in> set ls. fine_label l \<and> no_reopen l" and "FClose \<in> set ls"
    and "[x. FLog x \<leftarrow> ls] = [(INFO, macro_event fn 13 now1 ''info message''),
      (DEBUG, macro_event fn 14 now2 ''debug message'')]"
proof -
  have main: "filter main_move ls = [FOpen ok, FLog (INFO, macro_event fn 13 now1 ''info message''),
      FLog (DEBUG, macro_event fn 14 now2 ''debug message''), FDestroy, FClose]"
    using assms(2) by (simp add: async_logger_main_def async_logger_def Logger_SetLevel_def
        less_eq_log_level_def)
  show "\<forall>l \<in> set ls. fine_label l \<and> no_reopen l"
  proof
    fix l
    assume l: "l \<in> set ls"
    show "fine_label l \<and> no_reopen l"
    proof (cases "main_move l")
      case True
      with l set_of_filter [of l ls main_move] have "l \<in> set (filter main_move ls)" by blast
      then show ?thesis by (auto simp only: main)
        (auto simp: macro_event_def event_fine_def LogEvent_init_def)
    qed (cases l, simp_all)
  qed
  show "FClose \<in> set ls"
  proof -
    have "FClose \<in> set (filter main_move ls)" by (simp only: main) simp
    then show ?thesis by simp
  qed
  show "[x. FLog x \<leftarrow> ls] = [(INFO, macro_event fn 13 now1 ''info message''),
      (DEBUG, macro_event fn 14 now2 ''debug message'')]"
    using FLog_of_main [of ls] by (simp only: main) simp
qed


end
