(* ===== verification/LoggerWitnesses.thy ===== *)
theory LoggerWitnesses
  imports Logger
begin

text \<open>
  Concrete runs of the logger: an appender with a queue of one event, whose uninitialised level is
  zero and whose pattern writes the message and a new line.
\<close>

section \<open>Patterns\<close>

theorem pattern_roundtrip_witness:
  "Formatter_init ''%p 100%%%n'' =
     \<lparr>pattern = ''%p 100%%%n'', format_items = [LevelFormatItem, StringFormatItem '' 100%'', NewLineFormatItem],
      fmt_error = False\<rparr>"
  using pattern_roundtrip [of "[LevelFormatItem, StringFormatItem '' 100%'', NewLineFormatItem]" "[]"]
  by (simp add: pattern_of_def)

section \<open>Runs of a file appender\<close>

definition small :: file_appender where
  "small = \<lparr>app_level = 0, app_formatter = Some (Formatter_init ''%m%n''), app_file_name = ''log.txt'',
     log_queue = [], max_queue_size = 1, stream = fs_init, the_writer = WStart, log_calls = [],
     phase = Opening, pushed = [], consumed = [], processed = [], sent = [], at_open = []\<rparr>"

definition bare :: file_appender where "bare = small\<lparr>app_formatter := None\<rparr>"

lemma bare_init: "FileAppender_init 0 ''log.txt'' 1 = Inr bare"
  by (simp add: FileAppender_init_def bare_def small_def)

lemma bare_formatter: "bare\<lparr>app_formatter := Some (Formatter_init ''%m%n'')\<rparr> = small"
  by (simp add: bare_def small_def)

definition hello :: item where
  "hello = (INFO, Some (LogEvent_init (Some (''a.cpp'' @ [NUL])) 1 0 0 0 ''hello''))"

lemma hello_fine: "fst hello \<noteq> OTHER" "event_fine (snd hello)"
  by (simp_all add: hello_def event_fine_def LogEvent_init_def)

lemma hello_msg: "deref_event (snd hello) (\<lambda>e. Inr (ev_msg e)) = Inr ''hello''"
  by (simp add: hello_def deref_event_def LogEvent_init_def)

lemma small_items: "format_items (Formatter_init ''%m%n'') = [MessageFormatItem, NewLineFormatItem]"
  by (simp add: Formatter_init_tokens conversion_def format_item_maps_def flush_def)

lemma hello_code: "log_level_code (fst hello) = 1" by (simp add: hello_def)

lemmas fa_run_simps = fa_step_def crashed_def open_file_def fs_open_def fs_init_def send_def
  fs_put_def Log_test_def log_push_def notify_writer_def Consume_test_def log_pop_def
  notify_call_def nobody_waits_def call_waits_def wake_call_def Consume_write_def app_enabled_def
  app_format_def Formatter_format_def small_items hello_msg hello_fine(1) hello_code fs_close_def
  nth_append less_Suc_eq

text \<open>Two calls; the second has to wait until the writer has taken the first event.\<close>

definition waiting_labels :: "fa_label list" where
  "waiting_labels = [FOpen True, FWriterStart, FLog hello, FTest 0, FLog hello, FTest 1]"

definition waiting :: file_appender where
  "waiting = small\<lparr>log_queue := [hello], the_writer := WTest, log_calls := [CReturned, CWaiting hello],
     phase := InUse, pushed := [hello], sent := start_line,
     stream := \<lparr>is_open = True, good = True, disk = start_line\<rparr>\<rparr>"

lemma waiting_run: "exec fa_step waiting_labels small = Some waiting"
  by (simp add: waiting_labels_def waiting_def small_def fa_run_simps)

theorem log_queue_bounded_fifo_witness:
  "length (log_queue waiting) \<le> 1 \<and> pushed waiting = consumed waiting @ [hello] \<and>
   mset (pushed waiting) + mset (pending waiting) = {#hello, hello#}"
  using log_queue_bounded_fifo [OF bare_init waiting_run [folded bare_formatter]]
  by (simp add: waiting_def waiting_labels_def)

theorem logging_does_not_block_witness:
  "\<exists>ms t. exec quiet_step ms waiting = Some t \<and> settled t"
  using logging_does_not_block [OF bare_init waiting_run [folded bare_formatter]]
  by (simp add: waiting_labels_def hello_fine)

text \<open>The same appender, destroyed.\<close>

definition closing_labels :: "fa_label list" where
  "closing_labels = [FWriterTest (Some 1), FWriterWrite, FTest 1, FDestroy, FTest 2,
     FWriterTest (Some 2), FWriterWrite, FTest 2, FWriterTest None, FWriterEnd, FClose]"

definition closed :: file_appender where
  "closed = small\<lparr>log_queue := [], the_writer := WDone, log_calls := [CReturned, CReturned, CReturned],
     phase := Gone, pushed := [hello, hello, (OTHER, None)], consumed := [hello, hello, (OTHER, None)],
     processed := [hello, hello, (OTHER, None)],
     sent := start_line @ ''hello'' @ [LF] @ ''hello'' @ [LF] @ end_line,
     stream := \<lparr>is_open = False, good = True,
       disk = start_line @ ''hello'' @ [LF] @ ''hello'' @ [LF] @ end_line\<rparr>\<rparr>"

lemma closing_run: "exec fa_step closing_labels waiting = Some closed"
  by (simp add: closing_labels_def waiting_def closed_def small_def fa_run_simps)

lemma closed_run: "exec fa_step (waiting_labels @ closing_labels) small = Some closed"
  by (simp only: exec_append waiting_run closing_run option.case)

theorem destroyed_appender_wrote_all_witness:
  "\<exists>xs body. mset xs = {#hello, hello#} \<and>
     sync_log \<lparr>app_level = 0, app_formatter = Some (Formatter_init ''%m%n'')\<rparr> xs [] = Inr body \<and>
     (disk (stream closed) = start_line @ body @ end_line \<or> disk (stream closed) = body @ end_line)"
  using destroyed_appender_wrote_all [OF bare_init closed_run [folded bare_formatter]]
  by (simp add: waiting_labels_def closing_labels_def hello_fine closed_def)

theorem Reopen_truncates_witness:
  "fst (FileAppender_Reopen True waiting) \<and> disk (stream (snd (FileAppender_Reopen True waiting))) = []"
  using Reopen_truncates [OF bare_init waiting_run [folded bare_formatter], of True] by simp

text \<open>A client logs at \<open>OTHER\<close>, then once more; the destructor waits for ever.\<close>

definition stuck_labels :: "fa_label list" where
  "stuck_labels = [FOpen True, FWriterStart, FLog (OTHER, None), FTest 0, FWriterTest None, FWriterEnd,
     FLog hello, FTest 1, FDestroy, FTest 2]"

definition stuck :: file_appender where
  "stuck = small\<lparr>log_queue := [hello], the_writer := WDone,
     log_calls := [CReturned, CReturned, CWaiting (OTHER, None)],
     phase := Closing, pushed := [(OTHER, None), hello], consumed := [(OTHER, None)],
     processed := [(OTHER, None)], sent := start_line @ end_line,
     stream := \<lparr>is_open = True, good = True, disk = start_line @ end_line\<rparr>\<rparr>"

lemma stuck_run: "exec fa_step stuck_labels small = Some stuck"
  by (simp add: stuck_labels_def stuck_def small_def fa_run_simps)

text \<open>Waking the destructor for no reason does not help it.\<close>

lemma woken_run: "exec fa_step [FWakeCall 2, FTest 2, FWakeCall 2] stuck =
    Some (stuck\<lparr>log_calls := [CReturned, CReturned, CTest (OTHER, None)]\<rparr>)"
  by (simp add: stuck_def small_def fa_run_simps)


section \<open>A logger\<close>

definition console :: log_world where
  "console = \<lparr>apps = [7 \<mapsto> StdoutApp \<lparr>app_level = 0, app_formatter = None\<rparr>], log_out = []\<rparr>"

definition with_formatter :: log_world where
  "with_formatter = console\<lparr>apps := [7 \<mapsto> StdoutApp \<lparr>app_level = 0,
     app_formatter = Some (Formatter_init default_pattern)\<rparr>]\<rparr>"

definition at_debug :: logger where
  "at_debug = (Logger_init ''default_name'')\<lparr>lg_level := DEBUG, lg_appenders := [7]\<rparr>"

lemma console_add:
  "Logger_AddAppender 7 (Logger_SetLevel DEBUG (fst (Logger_GetInstance None)), console) =
     Some (Inr (), (at_debug, with_formatter))"
  by (simp add: Logger_AddAppender_def console_def with_formatter_def at_debug_def Logger_SetLevel_def
      Logger_GetInstance_def Logger_init_def object_formatter_def Appender_GetFormatter_def
      set_object_formatter_def Appender_SetFormatter_def)

theorem macro_logs_line_witness:
  "LOG_ERROR ''a.cpp'' 12 5000000 ''no room'' at_debug with_formatter =
     Some (Inr (), with_formatter\<lparr>log_out := log_line ERROR ''a.cpp'' 12 5000000 ''no room''\<rparr>)"
  using macro_logs_line [OF _ _ _ _ console_add, of 0 "''a.cpp''" ERROR LOG_ERROR 12 5000000 "''no room''"]
  by (simp add: console_def less_eq_log_level_def)

theorem Logger_Log_dispatches_witness:
  "\<exists>v. Logger_Log ERROR (macro_event ''a.cpp'' 12 5000000 ''bad'') at_debug with_formatter =
       Some (Inr (), v) \<and>
     log_out v = log_out with_formatter @
       stdout_texts with_formatter ERROR (macro_event ''a.cpp'' 12 5000000 ''bad'') [7]"
proof -
  obtain v where v: "Logger_Log ERROR (macro_event ''a.cpp'' 12 5000000 ''bad'') at_debug with_formatter =
       Some (Inr (), v)"
    by (simp add: Logger_Log_def at_debug_def less_eq_log_level_def Appender_Log_def with_formatter_def
        StdoutAppender_Log_def app_enabled_def app_format_def format_default)
  from Logger_Log_dispatches [OF v] v show ?thesis
    by (auto simp: at_debug_def less_eq_log_level_def less_log_level_def)
qed

theorem logger_never_faults_witness:
  "logger_ok at_debug with_formatter \<and> logger_ok (Logger_DelAppender 7 at_debug) with_formatter"
proof -
  have "logger_ok (Logger_SetLevel DEBUG (Logger_init ''default_name'')) console"
    using logger_never_faults [of "''default_name''" console "Logger_init ''default_name''" 7 DEBUG None]
    by simp
  with logger_never_faults [of "''default_name''" console
      "Logger_SetLevel DEBUG (Logger_init ''default_name'')" 7 DEBUG None] console_add
  have ok: "logger_ok at_debug with_formatter"
    by (auto simp: Logger_GetInstance_def console_def)
  with logger_never_faults [of "''default_name''" with_formatter at_debug 7 DEBUG None]
  show ?thesis by simp
qed

end
