(* ===== verification/LoggerProgramsWitnesses.thy ===== *)
theory LoggerProgramsWitnesses
  imports LoggerPrograms LoggerWitnesses
begin

text \<open>
  The logger programs on a console, and the asynchronous one with a writer that does not run before
  the program's last call.
\<close>

theorem sync_logger_output_witness:
  "\<exists>lg v. sync_logger_main ''a.cpp'' 5000000 6000000 7 2 (None, console) = Some (Inr (), (Some lg, v)) \<and>
     log_out v = log_line DEBUG ''a.cpp'' 11 6000000 ''debug message''"
  using sync_logger_output [of "''a.cpp''" 5000000 6000000 7 2 console]
  by (simp add: console_def line_if_def)

definition first_item :: item where
  "first_item = (INFO, macro_event ''a.cpp'' 13 5000000 ''info message'')"

definition second_item :: item where
  "second_item = (DEBUG, macro_event ''a.cpp'' 14 6000000 ''debug message'')"

definition unopened :: file_appender where
  "unopened = \<lparr>app_level = 0, app_formatter = None, app_file_name = async_log_file, log_queue = [],
     max_queue_size = 1024, stream = fs_init, the_writer = WStart, log_calls = [],
     phase = Opening, pushed = [], consumed = [], processed = [], sent = [], at_open = []\<rparr>"

text \<open>The program's part, then the writer's.\<close>

definition async_calls :: "fa_label list" where
  "async_calls = [FOpen True, FLog first_item, FTest 0, FLog second_item, FTest 1, FDestroy, FTest 2]"

definition async_writes :: "fa_label list" where
  "async_writes = [FWriterStart, FWriterTest None, FWriterWrite, FWriterTest None, FWriterWrite,
     FWriterTest None, FWriterEnd, FClose]"

definition async_disk :: string where
  "async_disk = start_line @ log_line INFO ''a.cpp'' 13 5000000 ''info message'' @
     log_line DEBUG ''a.cpp'' 14 6000000 ''debug message'' @ end_line"

definition async_logged :: file_appender where
  "async_logged = \<lparr>app_level = 0, app_formatter = Some (Formatter_init default_pattern),
     app_file_name = async_log_file, log_queue = [first_item, second_item, (OTHER, None)],
     max_queue_size = 1024, stream = \<lparr>is_open = True, good = True, disk = []\<rparr>, the_writer = WStart,
     log_calls = [CReturned, CReturned, CReturned], phase = Closing,
     pushed = [first_item, second_item, (OTHER, None)], consumed = [], processed = [], sent = [],
     at_open = []\<rparr>"

definition async_end :: file_appender where
  "async_end = async_logged\<lparr>log_queue := [], the_writer := WDone, phase := Gone,
     consumed := [first_item, second_item, (OTHER, None)],
     processed := [first_item, second_item, (OTHER, None)], sent := async_disk,
     stream := \<lparr>is_open = False, good = True, disk = async_disk\<rparr>\<rparr>"

lemma async_formatter: "lg_formatter async_logger = Some (Formatter_init default_pattern)"
  by (simp add: async_logger_def Logger_SetLevel_def Logger_GetInstance_def Logger_init_def)

lemma item_texts:
  "Formatter_format (Formatter_init default_pattern) (fst first_item) (snd first_item) =
     Inr (log_line INFO ''a.cpp'' 13 5000000 ''info message'')"
  "Formatter_format (Formatter_init default_pattern) (fst second_item) (snd second_item) =
     Inr (log_line DEBUG ''a.cpp'' 14 6000000 ''debug message'')"
  "fst first_item = INFO" "fst second_item = DEBUG"
  by (simp_all add: first_item_def second_item_def format_default)

lemma all_returned_waits: "all_returned s \<Longrightarrow> nobody_waits s"
  by (auto simp: nobody_waits_def call_waits_def all_returned_def) (metis call.distinct(5) nth_mem)

lemmas async_run_simps = solo_step_def all_returned_def fa_step_def crashed_def open_file_def
  fs_open_def fs_init_def send_def fs_put_def Log_test_def log_push_def notify_writer_def
  Consume_test_def log_pop_def notify_call_def all_returned_waits Consume_write_def
  app_enabled_def app_format_def fs_close_def item_texts(3,4) item_texts(1,2) [unfolded item_texts(3,4)]
  nth_append less_Suc_eq

lemma async_calls_run:
  "exec solo_step async_calls (unopened\<lparr>app_formatter := lg_formatter async_logger\<rparr>) = Some async_logged"
  by (simp add: async_calls_def async_logged_def unopened_def async_formatter async_run_simps)

lemma async_writes_run: "exec solo_step async_writes async_logged = Some async_end"
  by (simp add: async_writes_def async_logged_def async_end_def async_disk_def solo_step_def fa_step_def
      crashed_def send_def fs_put_def Consume_test_def log_pop_def notify_call_def all_returned_waits
      all_returned_def Consume_write_def app_enabled_def app_format_def fs_close_def item_texts(3,4)
      item_texts(1,2) [unfolded item_texts(3,4)])

lemma async_run: "exec solo_step (async_calls @ async_writes)
    (unopened\<lparr>app_formatter := lg_formatter async_logger\<rparr>) = Some async_end"
  by (simp only: exec_append async_calls_run async_writes_run option.case)


end
