(* ===== verification/HttpProps.thy ===== *)
theory HttpProps
  imports Http ServerInvariant
begin

text \<open>
  What the HTTP layer does: the framing of its error response, the state machine of the parser,
  what becomes of every request, and the life of a connection the manager knows.
\<close>

section \<open>Reading the error response\<close>

text \<open>A client: lines up to the empty one, the length field, then that many bytes.\<close>

fun read_line :: "string \<Rightarrow> (string \<times> string) option" where
  "read_line [] = None"
| "read_line [c] = None"
| "read_line (c # d # cs) =
     (if c = CR \<and> d = LF then Some ([], cs)
      else (case read_line (d # cs) of None \<Rightarrow> None | Some (l, rest) \<Rightarrow> Some (c # l, rest)))"

lemma read_line_shorter: "read_line s = Some (l, rest) \<Longrightarrow> length rest < length s"
  by (induction s arbitrary: l rest rule: read_line.induct)
    (fastforce split: if_splits option.splits)+

function read_headers :: "string \<Rightarrow> (string list \<times> string) option" where
  "read_headers s =
     (case read_line s of
        None \<Rightarrow> None
      | Some (l, rest) \<Rightarrow>
          if l = [] then Some ([], rest)
          else (case read_headers rest of None \<Rightarrow> None | Some (ls, b) \<Rightarrow> Some (l # ls, b)))"
  by pat_completeness auto
termination
  by (relation "measure length") (auto dest: read_line_shorter)

declare read_headers.simps [simp del]

definition field_of :: "string \<Rightarrow> string \<times> string" where
  "field_of l = (takeWhile (\<lambda>c. c \<noteq> CHR '':'') l, drop 2 (dropWhile (\<lambda>c. c \<noteq> CHR '':'') l))"

text \<open>The status line, the fields, the body, and what follows the response.\<close>

definition read_response :: "string \<Rightarrow> (string \<times> (string \<times> string) list \<times> string \<times> string) option" where
  "read_response s =
     (case read_headers s of
        Some (st # ls, rest) \<Rightarrow>
          (case map_of (map field_of ls) ''Content-Length'' of
             None \<Rightarrow> None
           | Some v \<Rightarrow>
               if read_nat v \<le> length rest
               then Some (st, map field_of ls, take (read_nat v) rest, drop (read_nat v) rest)
               else None)
      | _ \<Rightarrow> None)"

lemma read_line_line: "CR \<notin> set l \<Longrightarrow> read_line (l @ CR # LF # rest) = Some (l, rest)"
proof (induction l)
  case (Cons c cs)
  then show ?case by (cases cs) auto
qed simp

lemma read_headers_step:
  "CR \<notin> set l \<Longrightarrow> l \<noteq> [] \<Longrightarrow> read_headers (l @ CR # LF # rest) =
     (case read_headers rest of None \<Rightarrow> None | Some (ls, b) \<Rightarrow> Some (l # ls, b))"
  by (subst read_headers.simps) (simp add: read_line_line)

lemma read_headers_end: "read_headers (CR # LF # b) = Some ([], b)"
  by (subst read_headers.simps) simp

lemma read_headers_lines:
  "\<forall>l \<in> set ls. CR \<notin> set l \<and> l \<noteq> [] \<Longrightarrow>
   read_headers (concat (map (\<lambda>l. l @ CRLF) ls) @ CRLF @ b) = Some (ls, b)"
proof (induction ls)
  case Nil
  then show ?case by (simp add: read_headers_end)
next
  case (Cons l ls)
  then show ?case
    using read_headers_step [of l "concat (map (\<lambda>l. l @ CRLF) ls) @ CRLF @ b"] by simp
qed

lemma no_CR_show_nat: "CR \<notin> set (show_nat n)"
  using show_nat_digits [of CR n] is_digit_not(2) by blast

lemma no_CR_show_int: "CR \<notin> set (show_int i)"
  by (simp add: show_int_def no_CR_show_nat)

text \<open>
  C24: The error response is framed: whatever the number, and whatever the text as long as it has no
  carriage return, a client that reads lines up to the empty one and then as many bytes as
  \<open>Content-Length\<close> says gets back the status line, the four fields and the whole page, and is left
  at the first byte after the response.
\<close>

theorem error_response_framed:
  assumes "CR \<notin> set msg"
  shows "read_response (error_response num msg @ rest) =
    Some (''HTTP/1.1 '' @ show_int num @ '' '' @ msg,
      [(''Content-Type'', ''text/html''), (''Connection'', ''Close''),
       (''Content-Length'', show_nat (length (error_body num ('' '' @ msg)))),
       (''Server'', ''LinYa'' @ [CHR 0x27] @ ''s Web Server'')],
      error_body num ('' '' @ msg), rest)"
proof -
  define body where "body = error_body num ('' '' @ msg)"
  define status where "status = ''HTTP/1.1 '' @ show_int num @ '' '' @ msg"
  define len where "len = ''Content-Length: '' @ show_nat (length body)"
  have status: "CR \<notin> set status" "status \<noteq> []"
    using assms by (simp_all add: status_def no_CR_show_int)
  have len: "CR \<notin> set len" "len \<noteq> []" by (simp_all add: len_def no_CR_show_nat)
  define server where "server = ''Server: LinYa'' @ [CHR 0x27] @ ''s Web Server''"
  let ?lines = "[status, ''Content-Type: text/html'', ''Connection: Close'', len, server]"
  have "error_response num msg @ rest = concat (map (\<lambda>l. l @ CRLF) ?lines) @ CRLF @ body @ rest"
    unfolding error_response_def Let_def body_def status_def len_def server_def
    by (simp only: append_assoc append.simps list.map concat.simps)
  moreover have "\<forall>l \<in> set ?lines. CR \<notin> set l \<and> l \<noteq> []"
    using status len by (simp add: server_def)
  ultimately have "read_headers (error_response num msg @ rest) = Some (?lines, body @ rest)"
    using read_headers_lines [of ?lines "body @ rest"] by (simp only:)
  moreover have "field_of len = (''Content-Length'', show_nat (length body))"
    by (simp add: field_of_def len_def)
  moreover have "field_of ''Content-Type: text/html'' = (''Content-Type'', ''text/html'')"
    and "field_of ''Connection: Close'' = (''Connection'', ''Close'')"
    and "field_of server =
      (''Server'', ''LinYa'' @ [CHR 0x27] @ ''s Web Server'')"
    by (simp_all add: field_of_def server_def)
  ultimately show ?thesis
    by (simp add: read_response_def status_def) (simp add: body_def)
qed

section \<open>Running the parser\<close>

lemma deref_connection_at [simp]:
  "parser_connection h = None \<Longrightarrow> deref_connection (h, s) = Some (Inl (Undefined NullDeref), (h, s))"
  "parser_connection h = Some q \<Longrightarrow> deref_connection (h, s) = Some (Inr q, (h, s))"
  by (simp_all add: deref_connection_def)

lemma parser_buffer_at [simp]:
  "parser_connection h = None \<Longrightarrow> parser_buffer (h, s) = Some (Inl (Undefined NullDeref), (h, s))"
  "parser_connection h = Some q \<Longrightarrow> conns s q = Some c \<Longrightarrow>
   parser_buffer (h, s) = Some (Inr (read_buffer c), (h, s))"
  by (simp_all add: parser_buffer_def on_server_def the_connection_def bindC_def)

lemma set_parser_at [simp]: "set_parser f (h, s) = Some (Inr (), (f h, s))"
  by (simp add: set_parser_def)

lemma parse_failure_at [simp]:
  "parse_failure (h, s) = Some (Inr PARSE_ERROR, (h\<lparr>parser_error := True\<rparr>, s))"
  by (simp add: parse_failure_def)

lemma go_to_at [simp]: "go_to st (h, s) = Some (Inr (), (h\<lparr>parser_state := st\<rparr>, s))"
  by (simp add: go_to_def)

lemma AnalysisRequest_at [simp]: "AnalysisRequest x = Some (Inr ANALYSIS_SUCCESS, x)"
  by (simp add: AnalysisRequest_def)

lemma Parse_analysis_at:
  "Parse_analysis (h, s) = Some (Inr PARSE_SUCCESS,
     (if parser_state h = STATE_ANALYSIS then h\<lparr>parser_state := STATE_FINISH\<rparr> else h, s))"
  by (simp add: Parse_analysis_def bindC_def)

text \<open>What the length field makes of a body of which \<open>n\<close> bytes have come.\<close>

definition body_verdict :: "http_parser \<Rightarrow> int \<Rightarrow> fault + bool" where
  "body_verdict h n =
     (case headers h ''Content-length'' of
        None \<Rightarrow> Inr False
      | Some str \<Rightarrow> (case stoi str of Inl e \<Rightarrow> Inl e | Inr k \<Rightarrow> Inr (k \<le> n)))"

lemma body_complete_at:
  assumes "parser_connection h = Some q" and "conns s q = Some c"
  shows "body_complete (h, s) = Some (body_verdict h (Buffer_Size (read_buffer c)), (h, s))"
  using assms
  by (simp add: body_complete_def body_verdict_def bindC_def split: option.split sum.split)

lemma Parse_body_at:
  assumes "parser_connection h = Some q" and "conns s q = Some c"
  shows "Parse_body (h, s) =
    (if parser_state h = STATE_RECV_BODY then
       (case body_verdict h (Buffer_Size (read_buffer c)) of
          Inl e \<Rightarrow> Some (Inl e, (h, s))
        | Inr True \<Rightarrow> Some (Inr PARSE_SUCCESS, (h\<lparr>parser_state := STATE_FINISH\<rparr>, s))
        | Inr False \<Rightarrow> Some (Inr PARSE_ERROR, (h\<lparr>parser_error := True\<rparr>, s)))
     else Parse_analysis (h, s))"
  by (simp add: Parse_body_def bindC_def seqC_def body_complete_at [OF assms] Parse_analysis_at
      split: sum.split bool.split)

lemma ParseRequest_at:
  assumes "parser_connection h = Some q" and "conns s q = Some c"
  shows "HttpParser_ParseRequest parse_uri parse_headers (h, s) =
    (if Buffer_Size (read_buffer c) = 0 then Some (Inr PARSE_ERROR, (h\<lparr>parser_error := True\<rparr>, s))
     else if parser_state h = STATE_PARSE_URI then bindC parse_uri (\<lambda>u. parse_failure) (h, s)
     else if parser_state h = STATE_PARSE_HEADERS then
       bindC parse_headers (\<lambda>header_state.
         if header_state = PARSE_HEADER_ERROR then parse_failure
         else
           bindC (gets (\<lambda>(h, s). parser_method h)) (\<lambda>m.
           seqC (go_to (if m = METHOD_POST then STATE_RECV_BODY else STATE_ANALYSIS)) Parse_body)) (h, s)
     else Parse_body (h, s))"
  using assms by (auto simp: HttpParser_ParseRequest_def)


definition keeps_place :: "('k, 'z, 'a) http_op \<Rightarrow> bool" where
  "keeps_place m \<longleftrightarrow> (\<forall>h s r h' s'. m (h, s) = Some (r, (h', s')) \<longrightarrow>
     parser_connection h' = parser_connection h \<and> parser_state h' = parser_state h \<and>
     dom (conns s') = dom (conns s))"

lemma keeps_placeD:
  "keeps_place m \<Longrightarrow> m (h, s) = Some (r, (h', s')) \<Longrightarrow>
     parser_connection h' = parser_connection h \<and> parser_state h' = parser_state h \<and>
     dom (conns s') = dom (conns s)"
  unfolding keeps_place_def by blast

lemma Parse_body_forward:
  assumes "parser_connection h = Some q" and "conns s q = Some c"
    and "parser_state h \<in> {STATE_RECV_BODY, STATE_ANALYSIS, STATE_FINISH}"
    and "Parse_body (h, s) = Some (Inr r, (h', s'))"
  shows "process_state_code (parser_state h) \<le> process_state_code (parser_state h') \<and>
    (r = PARSE_SUCCESS \<longrightarrow> parser_state h' = STATE_FINISH) \<and> (r = PARSE_ERROR \<longrightarrow> parser_error h')"
  using assms(3,4)
  by (auto simp: Parse_body_at [OF assms(1,2)] Parse_analysis_at split: sum.splits bool.splits)

text \<open>The same from the headers on.\<close>

lemma headers_forward:
  assumes "parser_connection h = Some q" and "conns s q = Some c" and "keeps_place parse_headers"
    and "parser_state h = STATE_PARSE_HEADERS" and "parse_headers (h, s) = Some (Inr u, (h1, s1))"
    and "(if u = PARSE_HEADER_ERROR then parse_failure
      else bindC (gets (\<lambda>(h, s). parser_method h)) (\<lambda>m.
        seqC (go_to (if m = METHOD_POST then STATE_RECV_BODY else STATE_ANALYSIS)) Parse_body))
      (h1, s1) = Some (Inr r, (h', s'))"
  shows "process_state_code (parser_state h) \<le> process_state_code (parser_state h') \<and>
    (r = PARSE_SUCCESS \<longrightarrow> parser_state h' = STATE_FINISH) \<and> (r = PARSE_ERROR \<longrightarrow> parser_error h')"
proof -
  have kept: "parser_connection h1 = Some q" "parser_state h1 = STATE_PARSE_HEADERS"
    and "q \<in> dom (conns s1)"
    using keeps_placeD [OF assms(3,5)] assms(1,2,4) by auto
  then obtain c1 where c1: "conns s1 q = Some c1" by blast
  show ?thesis
  proof (cases "u = PARSE_HEADER_ERROR")
    case True
    with assms(4,6) kept show ?thesis by auto
  next
    case False
    let ?st = "if parser_method h1 = METHOD_POST then STATE_RECV_BODY else STATE_ANALYSIS"
    from False assms(6) have "Parse_body (h1\<lparr>parser_state := ?st\<rparr>, s1) = Some (Inr r, (h', s'))"
      by (simp add: bindC_def)
    from Parse_body_forward [OF _ c1 _ this] kept assms(4) show ?thesis
      by (cases "parser_method h1 = METHOD_POST") auto
  qed
qed



section \<open>\<open>stoi\<close> reads what \<open>operator<<\<close> writes\<close>

lemma show_nat_head: "\<exists>c cs. show_nat n = c # cs \<and> is_digit c"
  using show_nat_digits [of _ n] show_nat_nonempty [of n] by (cases "show_nat n") auto

lemma digits_prefix:
  "takeWhile is_digit (show_nat n @ t) = show_nat n @ takeWhile is_digit t"
  by (simp add: show_nat_digits takeWhile_append)

lemma digit_not_special: "is_digit c \<Longrightarrow> \<not> is_space c \<and> c \<noteq> CHR ''-'' \<and> c \<noteq> CHR ''+''"
  by (auto simp: is_digit_def is_space_def)

text \<open>
  The number a response carries can be read back: \<open>stoi\<close> of what \<open>operator<<\<close> writes for an
  \<open>int\<close>, with white space in front and anything but a digit behind, is that \<open>int\<close>; and for a
  number outside the range of \<open>int\<close> it throws \<open>out_of_range\<close>.
\<close>

theorem stoi_show_int:
  assumes "\<forall>c \<in> set pre. is_space c" and "post = [] \<or> \<not> is_digit (hd post)"
  shows "stoi (pre @ show_int i @ post) =
    (if - (2 ^ 31) \<le> i \<and> i < 2 ^ 31 then Inr i else Inl OutOfRange)"
proof -
  have stop: "takeWhile is_digit post = []" using assms(2) by (cases post) auto
  obtain c cs where c: "show_int i = c # cs" "\<not> is_space c"
  proof (cases "i < 0")
    case True
    then show ?thesis using that by (simp add: show_int_def is_space_def)
  next
    case False
    then show ?thesis
      using that show_nat_head [of "nat i"] digit_not_special by (auto simp: show_int_def)
  qed
  then have skip: "dropWhile is_space (pre @ show_int i @ post) = show_int i @ post"
    using assms(1) by (simp add: dropWhile_append2)
  have sign: "stoi_sign (show_int i @ post) = (i < 0, show_nat (nat (abs i)) @ post)"
  proof (cases "i < 0")
    case False
    obtain d ds where "show_nat (nat i) = d # ds" "is_digit d" using show_nat_head by blast
    with False digit_not_special [of d] show ?thesis by (simp add: show_int_def)
  qed (simp add: show_int_def)
  show ?thesis
    by (auto simp: stoi_def skip sign digits_prefix stop Let_def)
qed

section \<open>Connections of the HTTP server\<close>

text \<open>
  C20: The HTTP server crashes on the first message. \<open>OnConnection\<close> makes a parser for the
  connection but never tells it which: when data has been read and the server calls
  \<open>OnMessage\<close>, \<open>ParseRequest\<close> follows a null pointer, whatever was received and whatever
  \<open>ParseURI\<close> and \<open>ParseHeaders\<close> would do.
\<close>

theorem first_message_crashes:
  fixes s :: "('k, 'z) http_server_scheme"
  assumes "read_bounded os" and "HttpManager_OnConnection p s0 = Some (Inr u, s)"
    and "parsers s0 p = None" and "conns s p = Some c"
    and "on_message_callback c = Some http_message_cb"
    and "Connection_Read os (c, s) = Some (Inr v, (c', w'))"
  shows "\<exists>t. Connection_BusinessLogic os (http_usr os parse_uri parse_headers) p s =
    Some (Inl (Undefined NullDeref), t)"
proof -
  let ?s1 = "w'\<lparr>conns := (conns w')(p \<mapsto> c')\<rparr>"
  let ?s2 = "?s1\<lparr>use_count := (use_count ?s1)(p := Suc (use_count ?s1 p))\<rparr>"
  have links: "same_links c c'" and more: "world.more w' = world.more s"
    using Read_local [OF assms(1)] assms(6) unfolding local_step_def by blast+
  have "parsers s p = Some HttpParser_init" "use_count s p \<noteq> 0"
    using assms(2,3) by (auto simp: HttpManager_OnConnection_def RegisterConn_def)
  moreover have "parsers w' = parsers s" "use_count w' = use_count s"
    by (subst world_more_eq [OF more], simp)+
  ultimately have parser: "parsers ?s2 p = Some HttpParser_init" and used: "use_count w' p \<noteq> 0"
    by simp_all
  have cb: "on_message_callback c' = Some http_message_cb"
    using links assms(5) by (simp add: same_links_def)
  have rd: "with_connection p (Connection_Read os) s = Some (Inr (), ?s1)"
    using assms(4,6) by (simp add: with_connection_def)
  have own: "shared_from_this p ?s1 = Some (Inr (), ?s2)"
    using used by (simp add: shared_from_this_def share_def)
  have "HttpParser_HandleRequest os parse_uri parse_headers (HttpParser_init, ?s2) =
      Some (Inl (Undefined NullDeref), (HttpParser_init, ?s2))"
    by (simp add: HttpParser_HandleRequest_def HttpParser_ParseRequest_def HttpParser_init_def)
  then have "http_usr os parse_uri parse_headers http_message_cb p ?s2 =
      Some (Inl (Undefined NullDeref), ?s2\<lparr>parsers := (parsers ?s2)(p \<mapsto> HttpParser_init)\<rparr>)"
    using parser
    by (simp add: http_usr_def http_message_cb_def http_connect_cb_def HttpManager_OnMessage_def
        with_parser_def seqC_def bindC_def)
  then show ?thesis
    using rd own cb unfolding Connection_BusinessLogic_def
    by (simp add: the_connection_def)
qed

text \<open>
  C29: A connection the manager knows is never destroyed. When the server drops it, by
  \<open>Close\<close>, it goes from the server's map, but the manager's map still owns it: the object stays,
  its descriptor is not closed, and its channel stays registered.
\<close>

theorem known_connection_outlives_close:
  assumes "conns s p = Some c" and "delete_connection_callback c = Some DeleteConnectionCb"
    and "connections s (sock c) = Some p" and "use_count s p = 1" and "parsers s p = None"
    and "sock c \<noteq> -1"
  shows "\<exists>t. seqC (HttpManager_OnConnection p) (Connection_Close os p) s = Some (Inr (), t) \<and>
    conns t p = Some c \<and> connections t (sock c) = None \<and> use_count t p = 1 \<and>
    calls t = calls s \<and> channels t = channels s \<and> parsers t p \<noteq> None"
  using assms
  by (simp add: HttpManager_OnConnection_def RegisterConn_def Connection_Close_def
      the_connection_def Server_DeleteConnection_def unshare_def print_out_def)

end
