(* ===== verification/HttpWitnesses.thy ===== *)
theory HttpWitnesses
  imports HttpProps ScriptKernel
begin

text \<open>
  The properties of the HTTP layer applied to one connection under the scripted kernel: descriptor 7,
  object 5, whose client sends five bytes.
\<close>

definition http_conn :: connection where
  "http_conn = conn0\<lparr>on_message_callback := Some http_message_cb,
     delete_connection_callback := Some DeleteConnectionCb\<rparr>"

definition http_state :: "script http_server" where
  "http_state = \<lparr>kern = nonblocking_script\<lparr>sk_reads := [SysOk ''hello'', SysErr EAGAIN], sk_writes := []\<rparr>,
     cout = [], calls = [], event_loops = Map.empty, channels = Map.empty,
     next_ptr = 6, conns = [5 \<mapsto> http_conn], use_count = (\<lambda>p. 0)(5 := 1),
     connections = [7 \<mapsto> 5], sub_reactors = [], main_reactor = 0,
     the_acceptor = \<lparr>acc_sock = -1, acc_channel = 0, has_new_connection_callback = False\<rparr>,
     on_connection_cb = None, on_message_cb = None, pool_tasks = [], parsers = Map.empty\<rparr>"

theorem error_response_framed_witness:
  "\<exists>fields body. read_response (error_response 400 ''Bad Request'' @ ''more'') =
     Some (''HTTP/1.1 400 Bad Request'', fields, body, ''more'') \<and>
     map_of fields ''Content-Length'' = Some (show_nat (length body))"
proof -
  have "show_int 400 = ''400''" by code_simp
  with error_response_framed [of "''Bad Request''" 400 "''more''"] show ?thesis by simp
qed

text \<open>A parser that knows its connection, and a \<open>ParseURI\<close> that accepts everything.\<close>

definition wired :: http_parser where
  "wired = HttpParser_init\<lparr>parser_connection := Some 5\<rparr>"

definition accepting_uri :: "(script, unit, uri_state) http_op" where
  "accepting_uri = ret PARSE_URI_SUCCESS"

definition accepting_headers :: "(script, unit, header_state) http_op" where
  "accepting_headers = ret PARSE_HEADER_SUCCESS"

definition full_conn :: connection where
  "full_conn = http_conn\<lparr>read_buffer := \<lparr>buf = ''hello'', idx = 0\<rparr>\<rparr>"

definition full_state :: "script http_server" where
  "full_state = http_state\<lparr>conns := [5 \<mapsto> full_conn]\<rparr>"


definition posting :: http_parser where
  "posting = wired\<lparr>parser_state := STATE_PARSE_HEADERS, parser_method := METHOD_POST,
     headers := [''Content-length'' \<mapsto> ''5'']\<rparr>"

lemma stoi_five: "stoi ''5'' = Inr 5"
  by (simp add: stoi_def is_space_def is_digit_def read_nat_def digit_value_def)

lemma posting_run:
  "HttpParser_ParseRequest accepting_uri accepting_headers (posting, full_state) =
     Some (Inr PARSE_SUCCESS, (posting\<lparr>parser_state := STATE_FINISH\<rparr>, full_state))"
proof -
  have c: "conns full_state 5 = Some full_conn" by (simp add: full_state_def)
  have p: "parser_connection posting = Some 5" by (simp add: posting_def wired_def)
  have q: "parser_connection (posting\<lparr>parser_state := STATE_RECV_BODY\<rparr>) = Some 5" using p by simp
  have v: "body_verdict (posting\<lparr>parser_state := STATE_RECV_BODY\<rparr>) 5 = Inr True"
    by (simp add: body_verdict_def posting_def stoi_five)
  have size: "Buffer_Size (read_buffer full_conn) = 5" by (simp add: full_conn_def Buffer_Size_def)
  show ?thesis
    using Parse_body_at [OF q c] v size
    by (simp add: ParseRequest_at [OF p c] accepting_headers_def)
      (simp add: posting_def wired_def)
qed



theorem stoi_show_int_witness: "stoi ('' '' @ show_int (- 12) @ ''abc'') = Inr (- 12)"
  using stoi_show_int [of "'' ''" "''abc''" "- 12"] by (simp add: is_space_def is_digit_def)

definition known_state :: "script http_server" where
  "known_state = http_state\<lparr>parsers := [5 \<mapsto> HttpParser_init], use_count := (\<lambda>p. 0)(5 := 2)\<rparr>"

lemma known_run: "HttpManager_OnConnection 5 http_state = Some (Inr (), known_state)"
  by (simp add: HttpManager_OnConnection_def RegisterConn_def http_state_def known_state_def
      numeral_2_eq_2)

theorem first_message_crashes_witness:
  "\<exists>t. Connection_BusinessLogic script_os (http_usr script_os accepting_uri accepting_headers) 5
     known_state = Some (Inl (Undefined NullDeref), t)"
proof -
  have c: "conns known_state 5 = Some http_conn" by (simp add: known_state_def http_state_def)
  obtain c' w' where "Connection_Read script_os (http_conn, known_state) = Some (Inr (), (c', w'))"
    by (simp add: http_conn_def known_state_def http_state_def io_run)
  from first_message_crashes [OF script_read_bounded known_run _ c _ this] show ?thesis
    by (simp add: http_state_def http_conn_def)
qed

theorem known_connection_outlives_close_witness:
  "\<exists>t. seqC (HttpManager_OnConnection 5) (Connection_Close script_os 5) http_state = Some (Inr (), t) \<and>
     conns t 5 = Some http_conn \<and> connections t 7 = None"
  using known_connection_outlives_close [of http_state 5 http_conn script_os]
  by (auto simp: http_state_def http_conn_def conn0_def)

end
