(* ===== verification/Timer.thy ===== *)
theory Timer
  imports Prelude "HOL-Library.Multiset"
begin

text \<open>
  \<open>TimerItem\<close>, \<open>TimeCmp\<close> and \<open>TimerManager\<close> (\<open>timer.h\<close>, \<open>timer.cpp\<close>), and \<open>Exception\<close>
  (\<open>custom_exception.h\<close>, \<open>custom_exception.cpp\<close>). Times are unsigned 64 bit numbers of milliseconds.
  The manager's \<open>priority_queue\<close> is declared without \<open>TimeCmp\<close>, so its order is that of the pointers:
  it is modelled as the list of addresses in the order in which they would be popped.
\<close>

section \<open>Timers\<close>

record timer_item =
  expire_time :: "64 word"
  deleted :: bool

text \<open>
  \<open>UpdateCurrentTime\<close>, with the seconds and microseconds of \<open>gettimeofday\<close>: the computation is in
  \<open>long\<close>, whose overflow is undefined, and the result is stored in the static \<open>current_time_\<close>.
\<close>

definition in_long :: "int \<Rightarrow> bool" where
  "in_long i \<longleftrightarrow> - (2 ^ 63) \<le> i \<and> i < 2 ^ 63"

definition TimerItem_UpdateCurrentTime :: "int \<Rightarrow> int \<Rightarrow> fault + 64 word" where
  "TimerItem_UpdateCurrentTime tv_sec tv_usec =
     (if in_long (tv_sec * 1000) \<and> in_long (tv_sec * 1000 + tv_usec div 1000)
      then Inr (word_of_int (tv_sec * 1000 + tv_usec div 1000))
      else Inl (Undefined SignedOverflow))"

text \<open>The constructor: the new \<open>current_time_\<close> and the item.\<close>

definition TimerItem_init :: "int \<Rightarrow> int \<Rightarrow> 64 word \<Rightarrow> fault + 64 word \<times> timer_item" where
  "TimerItem_init tv_sec tv_usec timeout =
     (case TimerItem_UpdateCurrentTime tv_sec tv_usec of
        Inl e \<Rightarrow> Inl e
      | Inr now \<Rightarrow> Inr (now, \<lparr>expire_time = now + timeout, deleted = False\<rparr>))"

definition TimerItem_delete :: "timer_item \<Rightarrow> timer_item" where
  "TimerItem_delete t = t\<lparr>deleted := True\<rparr>"

definition TimerItem_GetExpireTime :: "timer_item \<Rightarrow> 64 word" where
  "TimerItem_GetExpireTime t = expire_time t"

definition TimeCmp :: "timer_item \<Rightarrow> timer_item \<Rightarrow> bool" where
  "TimeCmp a b \<longleftrightarrow> TimerItem_GetExpireTime a > TimerItem_GetExpireTime b"

section \<open>The manager\<close>

record timer_manager =
  expire_time_threshold :: "64 word"
  timer_queue :: "nat list"

definition TimerManager_init :: "64 word \<Rightarrow> timer_manager" where
  "TimerManager_init t = \<lparr>expire_time_threshold = t, timer_queue = []\<rparr>"

text \<open>\<open>push\<close> under \<open>less\<close> on pointers: the greatest address is on top.\<close>

fun heap_push :: "nat \<Rightarrow> nat list \<Rightarrow> nat list" where
  "heap_push p [] = [p]"
| "heap_push p (q # qs) = (if q < p then p # q # qs else q # heap_push p qs)"

definition TimerManager_AddTimer :: "nat \<Rightarrow> timer_manager \<Rightarrow> timer_manager" where
  "TimerManager_AddTimer p m = m\<lparr>timer_queue := heap_push p (timer_queue m)\<rparr>"

definition TimerManager_SetExpiretime :: "64 word \<Rightarrow> timer_manager \<Rightarrow> timer_manager" where
  "TimerManager_SetExpiretime t m = m\<lparr>expire_time_threshold := t\<rparr>"

definition TimerManager_GetExpireTime :: "timer_manager \<Rightarrow> 64 word" where
  "TimerManager_GetExpireTime m = expire_time_threshold m"

definition TimerManager_HandleExpiredTimer :: "timer_manager \<Rightarrow> timer_manager" where
  "TimerManager_HandleExpiredTimer m = m"

section \<open>Exception\<close>

record custom_exception =
  message :: string

definition Exception_init :: "string \<Rightarrow> custom_exception" where
  "Exception_init what = \<lparr>message = what\<rparr>"

definition Exception_GetMessage :: "custom_exception \<Rightarrow> cptr" where
  "Exception_GetMessage e = message e @ [NUL]"

lemma Exception_message: "read_cstr (Exception_GetMessage (Exception_init what)) = Inr (before_nul what)"
  by (simp add: Exception_GetMessage_def Exception_init_def)

section \<open>Properties\<close>

text \<open>
  C39: A timer made at a time the clock can show expires \<open>timeout\<close> milliseconds later, and \<open>TimeCmp\<close>
  orders two timers made at the same time by their timeouts, as long as the sum stays below
  \<open>2 ^ 64\<close>; above, the expiry wraps around and lies before the present.
\<close>

theorem timer_expiry:
  assumes "TimerItem_init tv_sec tv_usec t = Inr (now, a)" and "TimerItem_init tv_sec tv_usec u = Inr (now', b)"
    and "0 \<le> tv_sec" and "0 \<le> tv_usec"
  shows "int (unat now) = tv_sec * 1000 + tv_usec div 1000 \<and>
    unat (TimerItem_GetExpireTime a) =
      (if unat now + unat t < 2 ^ 64 then unat now + unat t else unat now + unat t - 2 ^ 64) \<and>
    (TimerItem_GetExpireTime a < now \<longleftrightarrow> 2 ^ 64 \<le> unat now + unat t) \<and>
    (unat now + unat t < 2 ^ 64 \<and> unat now + unat u < 2 ^ 64 \<longrightarrow> (TimeCmp a b \<longleftrightarrow> u < t))"
proof -
  have now: "now = word_of_int (tv_sec * 1000 + tv_usec div 1000)" "now' = now"
    and range: "tv_sec * 1000 + tv_usec div 1000 < 2 ^ 63"
    and ab: "expire_time a = now + t" "expire_time b = now + u"
    using assms(1,2)
    by (auto simp: TimerItem_init_def TimerItem_UpdateCurrentTime_def in_long_def split: if_splits)
  have val: "uint now = tv_sec * 1000 + tv_usec div 1000"
  proof -
    have "uint (word_of_int i :: 64 word) = i" if "0 \<le> i" "i < 2 ^ 63" for i :: int
      using that by (simp add: uint_word_of_int take_bit_int_eq_self)
    moreover have "0 \<le> tv_sec * 1000 + tv_usec div 1000" using assms(3,4) by simp
    ultimately show ?thesis unfolding now(1) using range by blast
  qed
  have sum: "unat (now + w) =
      (if unat now + unat w < 2 ^ 64 then unat now + unat w else unat now + unat w - 2 ^ 64)" for w
    using unat_plus_if' [of now w] by simp
  have "unat t < 2 ^ 64" using unsigned_less [of t] by simp
  have "now + t < now \<longleftrightarrow> 2 ^ 64 \<le> unat now + unat t"
    unfolding word_less_nat_alt sum using \<open>unat t < 2 ^ 64\<close> by simp linarith
  moreover have "int (unat now) = tv_sec * 1000 + tv_usec div 1000" using val by simp
  moreover have "unat now + unat t < 2 ^ 64 \<and> unat now + unat u < 2 ^ 64 \<longrightarrow> (now + u < now + t \<longleftrightarrow> u < t)"
    unfolding word_less_nat_alt sum by simp
  ultimately show ?thesis
    using sum [of t] by (simp add: TimeCmp_def TimerItem_GetExpireTime_def ab)
qed

lemma heap_push_mset: "mset (heap_push p qs) = add_mset p (mset qs)"
  by (induction qs) auto

lemma heap_push_sorted:
  "sorted_wrt (\<ge>) qs \<Longrightarrow> sorted_wrt (\<ge>) (heap_push p qs)"
proof (induction qs)
  case (Cons q qs)
  have "set (heap_push p qs) = insert p (set qs)"
    using arg_cong [OF heap_push_mset [of p qs], of set_mset] by simp
  with Cons show ?case by auto
qed simp

lemma fold_AddTimer:
  "timer_queue (fold TimerManager_AddTimer ps m) = fold heap_push ps (timer_queue m)"
  by (induction ps arbitrary: m) (simp_all add: TimerManager_AddTimer_def)

text \<open>
  The timer queue does not know about time. Whatever their expiry, the timers added are kept,
  none is lost and none ever removed, in the decreasing order of their addresses: the one on top
  is the one the allocator put highest.
\<close>

theorem timer_queue_by_address:
  fixes ps :: "nat list"
  shows "mset (timer_queue (fold TimerManager_AddTimer ps (TimerManager_init t))) = mset ps \<and>
    sorted_wrt (\<ge>) (timer_queue (fold TimerManager_AddTimer ps (TimerManager_init t))) \<and>
    timer_queue (TimerManager_HandleExpiredTimer (fold TimerManager_AddTimer ps (TimerManager_init t))) =
      timer_queue (fold TimerManager_AddTimer ps (TimerManager_init t))"
proof -
  have "mset (fold heap_push ps qs) = mset ps + mset qs \<and>
      (sorted_wrt (\<ge>) qs \<longrightarrow> sorted_wrt (\<ge>) (fold heap_push ps qs))" for qs
    by (induction ps arbitrary: qs) (simp_all add: heap_push_mset heap_push_sorted)
  from this [of "[]"] show ?thesis
    by (simp add: fold_AddTimer TimerManager_init_def TimerManager_HandleExpiredTimer_def)
qed

theorem timer_expiry_witness:
  "TimerItem_GetExpireTime \<lparr>expire_time = 1500, deleted = False\<rparr> = 1500 \<and>
   TimeCmp \<lparr>expire_time = 1500, deleted = False\<rparr> \<lparr>expire_time = 1100, deleted = False\<rparr>"
  using timer_expiry [of 1 0 500 1000 "\<lparr>expire_time = 1500, deleted = False\<rparr>" 100 1000
      "\<lparr>expire_time = 1100, deleted = False\<rparr>"]
  by (simp add: TimerItem_init_def TimerItem_UpdateCurrentTime_def in_long_def TimerItem_GetExpireTime_def)

end
